(* ===== verification/Prelude.thy ===== *)
theory Prelude
  imports Main "HOL-Library.AList" "HOL-Library.Char_ord" "HOL-Library.List_Lexorder"
begin

text \<open>
  The library the component theories share: Python's text operations on \<open>string\<close>, ordered
  dictionaries as association lists, and the result type of code that can raise.

  A Python \<open>str\<close> is a list of code points; a \<open>char\<close> here is one code point below 256
  (Latin-1).  Case mapping, white space, digits and word characters are those of Python on that
  range, but for U+00B5, whose case folding leaves the range and which is kept as it is.
\<close>

named_theorems pystr \<open>facts about Python's text operations\<close>

section \<open>Characters\<close>

abbreviation ord :: "char \<Rightarrow> nat" where
  "ord c \<equiv> of_char c"

definition is_space :: "char \<Rightarrow> bool" where
  "is_space c \<longleftrightarrow> (let n = ord c in
     9 \<le> n \<and> n \<le> 13 \<or> 28 \<le> n \<and> n \<le> 32 \<or> n = 133 \<or> n = 160)"

definition is_dec_digit :: "char \<Rightarrow> bool" where
  \<comment> \<open>the class \<open>\d\<close> of a regular expression\<close>
  "is_dec_digit c \<longleftrightarrow> 48 \<le> ord c \<and> ord c \<le> 57"

definition is_digit :: "char \<Rightarrow> bool" where
  \<comment> \<open>\<open>str.isdigit\<close>: the decimal digits and the three superscripts of Latin-1\<close>
  "is_digit c \<longleftrightarrow> is_dec_digit c \<or> ord c \<in> {178, 179, 185}"

definition is_word :: "char \<Rightarrow> bool" where
  \<comment> \<open>the class \<open>\w\<close>: alphanumeric characters and the underscore\<close>
  "is_word c \<longleftrightarrow> (let n = ord c in
     48 \<le> n \<and> n \<le> 57 \<or> 65 \<le> n \<and> n \<le> 90 \<or> n = 95 \<or> 97 \<le> n \<and> n \<le> 122 \<or>
     n \<in> {170, 178, 179, 181, 185, 186, 188, 189, 190} \<or> 192 \<le> n \<and> n \<noteq> 215 \<and> n \<noteq> 247)"

definition lower_char :: "char \<Rightarrow> char" where
  "lower_char c = (let n = ord c in
     if 65 \<le> n \<and> n \<le> 90 \<or> 192 \<le> n \<and> n \<le> 222 \<and> n \<noteq> 215 then char_of (n + 32) else c)"

definition upper_char :: "char \<Rightarrow> char" where
  "upper_char c = (let n = ord c in
     if 97 \<le> n \<and> n \<le> 122 \<or> 224 \<le> n \<and> n \<le> 254 \<and> n \<noteq> 247 then char_of (n - 32) else c)"

section \<open>Text\<close>

definition lower :: "string \<Rightarrow> string" where
  "lower s = map lower_char s"

definition upper :: "string \<Rightarrow> string" where
  "upper s = concat (map (\<lambda>c. if ord c = 223 then ''SS'' else [upper_char c]) s)"

definition casefold :: "string \<Rightarrow> string" where
  "casefold s = concat (map (\<lambda>c. if ord c = 223 then ''ss'' else [lower_char c]) s)"

definition strip :: "string \<Rightarrow> string" where
  "strip s = rev (dropWhile is_space (rev (dropWhile is_space s)))"

text \<open>\<open>str.split()\<close> with no argument: the maximal runs of non-space characters.\<close>

fun split_acc :: "string \<Rightarrow> string \<Rightarrow> string list" where
  "split_acc w [] = (if w = [] then [] else [rev w])"
| "split_acc w (c # cs) =
     (if is_space c then (if w = [] then split_acc [] cs else rev w # split_acc [] cs)
      else split_acc (c # w) cs)"

definition split_ws :: "string \<Rightarrow> string list" where
  "split_ws s = split_acc [] s"

fun join :: "string \<Rightarrow> string list \<Rightarrow> string" where
  "join sep [] = ''''"
| "join sep [w] = w"
| "join sep (w # v # ws) = w @ sep @ join sep (v # ws)"

definition norm_name :: "string \<Rightarrow> string" where
  "norm_name s = join '' '' (split_ws (casefold (strip s)))"


section \<open>Facts about the text operations\<close>

lemma ord_less_256 [simp]: "ord c < (256::nat)"
  by (metis of_char_of of_char_mod_256 mod_less_divisor zero_less_numeral)

lemma ord_lower_char:
  "ord (lower_char c) =
     (if 65 \<le> ord c \<and> ord c \<le> (90::nat) \<or> 192 \<le> ord c \<and> ord c \<le> 222 \<and> ord c \<noteq> 215
      then ord c + 32 else ord c)"
  by (auto simp: lower_char_def Let_def)

lemma is_space_lower_char [pystr]: "is_space (lower_char c) = is_space c"
  by (auto simp: is_space_def Let_def ord_lower_char)

definition folded :: "char \<Rightarrow> bool" where
  "folded c \<longleftrightarrow> ord c \<noteq> (223::nat) \<and> lower_char c = c"

lemma folded_iff:
  "folded c \<longleftrightarrow> ord c \<noteq> (223::nat) \<and>
     \<not> (65 \<le> ord c \<and> ord c \<le> (90::nat) \<or> 192 \<le> ord c \<and> ord c \<le> (222::nat) \<and> ord c \<noteq> (215::nat))"
proof -
  have "lower_char c = c \<longleftrightarrow> ord (lower_char c) = (ord c :: nat)"
    by (simp add: of_char_eq_iff)
  then show ?thesis by (simp add: folded_def ord_lower_char)
qed

lemma folded_lower_char: "ord c \<noteq> (223::nat) \<Longrightarrow> folded (lower_char c)"
  unfolding folded_iff ord_lower_char by presburger

lemma folded_casefold: "c \<in> set (casefold s) \<Longrightarrow> folded c"
proof -
  have ss: "folded (CHR ''s'')" by (simp add: folded_iff)
  assume "c \<in> set (casefold s)"
  then have "\<exists>d. c \<in> set (if ord d = (223::nat) then ''ss'' else [lower_char d])"
    unfolding casefold_def set_concat set_map by blast
  then obtain d where "c \<in> set (if ord d = (223::nat) then ''ss'' else [lower_char d])" ..
  then show ?thesis using ss folded_lower_char [of d] by (cases "ord d = (223::nat)") auto
qed

lemma casefold_folded: "(\<And>c. c \<in> set s \<Longrightarrow> folded c) \<Longrightarrow> casefold s = s"
  unfolding casefold_def by (induction s) (auto simp: folded_def)

lemma casefold_idem [pystr]: "casefold (casefold s) = casefold s"
  by (intro casefold_folded folded_casefold)

lemma casefold_append [pystr]: "casefold (s @ t) = casefold s @ casefold t"
  by (simp add: casefold_def)

lemma casefold_Nil [pystr]: "casefold [] = []" "casefold s = [] \<longleftrightarrow> s = []"
  by (cases s; simp add: casefold_def)+

definition word_list :: "string list \<Rightarrow> bool" where
  "word_list ws \<longleftrightarrow> (\<forall>w\<in>set ws. w \<noteq> [] \<and> (\<forall>c\<in>set w. \<not> is_space c))"

lemma word_list_split_acc: "\<forall>c\<in>set w. \<not> is_space c \<Longrightarrow> word_list (split_acc w s)"
proof (induction w s rule: split_acc.induct)
  case (1 w)
  then show ?case by (simp add: word_list_def)
next
  case (2 w c cs)
  then show ?case by (cases "is_space c"; cases "w = []"; simp add: word_list_def)
qed

lemma word_list_split_ws: "word_list (split_ws s)"
  by (simp add: split_ws_def word_list_split_acc)

lemma set_split_acc: "w \<in> set (split_acc v s) \<Longrightarrow> set w \<subseteq> set v \<union> set s"
  by (induction v s rule: split_acc.induct) (auto split: if_splits)

lemma split_acc_word:
  "\<forall>c\<in>set w. \<not> is_space c \<Longrightarrow> split_acc v (w @ s) = split_acc (rev w @ v) s"
  by (induction w arbitrary: v) auto

lemma split_ws_join: "word_list ws \<Longrightarrow> split_ws (join '' '' ws) = ws"
proof (induction "'' ''" ws rule: join.induct)
  case (2 w)
  then show ?case by (simp add: split_ws_def word_list_def split_acc_word [of w _ "[]", simplified])
next
  case (3 w v ws)
  have sp: "is_space CHR '' ''" by (simp add: is_space_def)
  from 3 have "\<forall>c\<in>set w. \<not> is_space c" "w \<noteq> []" "word_list (v # ws)"
    by (auto simp: word_list_def)
  then show ?case using 3 sp by (simp add: split_ws_def split_acc_word)
qed (simp add: split_ws_def)

lemma hd_join: "word_list (w # ws) \<Longrightarrow> hd (join sep (w # ws)) = hd w"
  by (cases ws) (auto simp: word_list_def)

lemma join_eq_Nil: "word_list ws \<Longrightarrow> join sep ws = [] \<longleftrightarrow> ws = []"
  by (cases "(sep, ws)" rule: join.cases) (auto simp: word_list_def)

lemma last_join: "word_list ws \<Longrightarrow> ws \<noteq> [] \<Longrightarrow> last (join sep ws) = last (last ws)"
proof (induction sep ws rule: join.induct)
  case (3 sep w v ws)
  then have "word_list (v # ws)" by (simp add: word_list_def)
  with 3 show ?case by (simp add: join_eq_Nil)
qed auto

lemma dropWhile_hd: "s = [] \<or> \<not> P (hd s) \<Longrightarrow> dropWhile P s = s"
  by (cases s) auto

lemma strip_id: "s = [] \<or> \<not> is_space (hd s) \<and> \<not> is_space (last s) \<Longrightarrow> strip s = s"
  unfolding strip_def by (auto simp: dropWhile_hd hd_rev)

lemma strip_Nil [simp]: "strip [] = []"
  by (simp add: strip_def)

lemma hd_dropWhile_not: "dropWhile P s \<noteq> [] \<Longrightarrow> \<not> P (hd (dropWhile P s))"
  by (rule hd_dropWhile)

lemma strip_ends: "strip s = [] \<or> \<not> is_space (hd (strip s)) \<and> \<not> is_space (last (strip s))"
proof -
  let ?t = "dropWhile is_space s"
  let ?u = "dropWhile is_space (rev ?t)"
  show ?thesis
  proof (cases "?u = []")
    case False
    then have l: "\<not> is_space (hd ?u)" by (rule hd_dropWhile)
    obtain p where "rev ?t = p @ ?u" by (metis takeWhile_dropWhile_id)
    then have "?t = rev ?u @ rev p" by (metis rev_append rev_rev_ident)
    with False have "hd (rev ?u) = hd ?t" and "?t \<noteq> []"
      by (metis hd_append2 rev_is_Nil_conv, metis False append_is_Nil_conv rev_is_Nil_conv)
    with l False show ?thesis
      by (simp add: strip_def last_rev hd_dropWhile)
  qed (simp add: strip_def)
qed

lemma strip_idem [simp]: "strip (strip s) = strip s"
  by (rule strip_id) (rule strip_ends)

lemma strip_join: "word_list ws \<Longrightarrow> strip (join '' '' ws) = join '' '' ws"
proof (rule strip_id, cases ws)
  case (Cons w vs)
  assume "word_list ws"
  then have "\<not> is_space (hd w)" "last ws \<in> set ws" "word_list ws"
    using Cons by (auto simp: word_list_def)
  moreover from this have "\<not> is_space (last (last ws))"
    by (auto simp: word_list_def)
  ultimately have "\<not> is_space (hd w)" "\<not> is_space (last (last ws))"
    by auto
  then show "join '' '' ws = [] \<or> \<not> is_space (hd (join '' '' ws)) \<and> \<not> is_space (last (join '' '' ws))"
    using \<open>word_list ws\<close> Cons by (simp add: hd_join last_join)
qed simp

text \<open>Normalising a name twice is normalising it once, so it can serve as a key.\<close>

lemma norm_name_idem [simp]: "norm_name (norm_name s) = norm_name s"
proof -
  let ?ws = "split_ws (casefold (strip s))"
  have ok: "word_list ?ws" by (rule word_list_split_ws)
  have "folded c" if "c \<in> set (join '' '' ws)" "\<And>w c. w \<in> set ws \<Longrightarrow> c \<in> set w \<Longrightarrow> folded c" for c ws
    using that
    by (induction "'' ''" ws rule: join.induct)
      (auto simp: folded_iff)
  then have "casefold (join '' '' ?ws) = join '' '' ?ws"
    using folded_casefold set_split_acc [of _ "[]"]
    by (intro casefold_folded) (fastforce simp: split_ws_def)
  then show ?thesis using ok by (simp add: norm_name_def strip_join split_ws_join)
qed

lemma norm_name_Nil [simp]: "norm_name [] = []"
  by (simp add: norm_name_def pystr split_ws_def)

section \<open>Ordered dictionaries\<close>

text \<open>
  A Python \<open>dict\<close> keeps the order of first insertion; \<open>AList.update\<close> overwrites in place
  and appends a new key.
\<close>

type_synonym ('k, 'v) dict = "('k \<times> 'v) list"

abbreviation dget :: "('k, 'v) dict \<Rightarrow> 'k \<Rightarrow> 'v option" where
  "dget \<equiv> map_of"

definition dkeys :: "('k, 'v) dict \<Rightarrow> 'k list" where
  "dkeys d = map fst d"

definition dict_of :: "('k \<times> 'v) list \<Rightarrow> ('k, 'v) dict" where
  "dict_of kvs = fold (\<lambda>(k, v). AList.update k v) kvs []"

text \<open>\<open>dict.fromkeys\<close> keeps the first occurrence of each element.\<close>

fun dedup_acc :: "'a list \<Rightarrow> 'a list \<Rightarrow> 'a list" where
  "dedup_acc seen [] = []"
| "dedup_acc seen (x # xs) =
     (if x \<in> set seen then dedup_acc seen xs else x # dedup_acc (x # seen) xs)"

definition dedup :: "'a list \<Rightarrow> 'a list" where
  "dedup xs = dedup_acc [] xs"

lemma set_dedup_acc: "set (dedup_acc seen xs) = set xs - set seen"
  by (induction seen xs rule: dedup_acc.induct) auto

lemma set_dedup [simp]: "set (dedup xs) = set xs"
  by (simp add: dedup_def set_dedup_acc)

lemma distinct_dedup [simp]: "distinct (dedup xs)"
proof -
  have "distinct (dedup_acc seen xs)" for seen :: "'a list"
    by (induction seen xs rule: dedup_acc.induct) (auto simp: set_dedup_acc)
  then show ?thesis by (simp add: dedup_def)
qed

lemma dedup_eq_Nil [simp]: "dedup xs = [] \<longleftrightarrow> xs = []"
  by (metis set_dedup set_empty)

lemma map_of_fold_update:
  "map_of (fold (\<lambda>(k, v). AList.update k v) kvs d) k =
     (case map_of (rev kvs) k of None \<Rightarrow> map_of d k | Some v \<Rightarrow> Some v)"
  by (induction kvs arbitrary: d) (auto simp: update_conv' map_add_def split: option.splits)

lemma dget_dict_of: "dget (dict_of kvs) k = map_of (rev kvs) k"
  by (simp add: dict_of_def map_of_fold_update split: option.splits)

lemma distinct_fold_update:
  "distinct (map fst d) \<Longrightarrow> distinct (map fst (fold (\<lambda>(k, v). AList.update k v) kvs d))"
  by (induction kvs arbitrary: d) (auto simp: distinct_update)

lemma distinct_dict_of [simp]: "distinct (dkeys (dict_of kvs))"
  unfolding dkeys_def dict_of_def by (rule distinct_fold_update) simp

lemma set_dkeys_dict_of: "set (dkeys (dict_of kvs)) = fst ` set kvs"
proof -
  have "set (map fst (fold (\<lambda>(k, v). AList.update k v) kvs d)) = fst ` set d \<union> fst ` set kvs" for d
  proof (induction kvs arbitrary: d)
    case (Cons kv kvs)
    have "fst ` set (AList.update (fst kv) (snd kv) d) = insert (fst kv) (fst ` set d)"
      using dom_update [of "fst kv" "snd kv" d] unfolding dom_map_of_conv_image_fst by simp
    with Cons show ?case by (simp add: case_prod_unfold)
  qed simp
  then show ?thesis by (simp add: dkeys_def dict_of_def)
qed

text \<open>\<open>dict.setdefault\<close>, and reading a dictionary with a default.\<close>

definition setdefault :: "'k \<Rightarrow> 'v \<Rightarrow> ('k, 'v) dict \<Rightarrow> 'v" where
  "setdefault k v d = (case dget d k of None \<Rightarrow> v | Some x \<Rightarrow> x)"

lemma setdefault_update [simp]:
  "setdefault k v (AList.update k' w d) = (if k = k' then w else setdefault k v d)"
  by (simp add: setdefault_def update_conv')

end
