(* ===== verification/PyDecimal.thy ===== *)
theory PyDecimal
  imports Prelude Complex_Main "HOL-Library.Code_Target_Nat"
begin

text \<open>
  Python's \<open>decimal.Decimal\<close> as the program uses it: a sign, a coefficient and an exponent, in
  the default context (28 significant digits, rounding half to even), with \<open>quantize\<close> to whole
  paisa, parsing and printing.  The infinities and the two kinds of NaN are values too, and an
  operation the context traps (\<open>InvalidOperation\<close>) is a value of \<open>exc\<close>.  The exponent limits of
  the context (999999 either way) are not modelled.

  The first part is the finite numbers, whose operations are total; the second lifts them to the
  special values.  The value of a finite number is a rational, \<open>val\<close>.
\<close>

named_theorems dec_val \<open>the value of an operation, where the result needs no rounding\<close>

section \<open>Finite decimals\<close>

datatype fdec = Dec (dneg: bool) (dcoef: nat) (dexp: int)

datatype rounding = Half_Even | Half_Up

definition sint_of :: "fdec \<Rightarrow> int" where
  "sint_of d = (if dneg d then - int (dcoef d) else int (dcoef d))"

text \<open>The integer \<open>n\<close> with \<open>d = n * 10 ^ e\<close>, for an exponent \<open>e\<close> not above that of \<open>d\<close>.\<close>

definition scaled :: "int \<Rightarrow> fdec \<Rightarrow> int" where
  "scaled e d = sint_of d * 10 ^ nat (dexp d - e)"

definition val :: "fdec \<Rightarrow> rat" where
  "val d = of_int (sint_of d) * 10 powi dexp d"

definition d_of_int :: "int \<Rightarrow> int \<Rightarrow> fdec" where
  "d_of_int n e = Dec (n < 0) (nat \<bar>n\<bar>) e"

abbreviation d_zero :: fdec where
  "d_zero \<equiv> Dec False 0 0"

abbreviation context_prec :: nat where
  "context_prec \<equiv> 28"

fun ndigits :: "nat \<Rightarrow> nat" where
  "ndigits n = (if n < 10 then 1 else Suc (ndigits (n div 10)))"

declare ndigits.simps [simp del]

definition div_round :: "rounding \<Rightarrow> nat \<Rightarrow> nat \<Rightarrow> nat" where
  "div_round r n m =
     (let q = n div m; t = n mod m in
      if m < 2 * t \<or> 2 * t = m \<and> (r = Half_Up \<or> odd q) then q + 1 else q)"

text \<open>Rounding a result to the precision of the context (\<open>_fix\<close>).\<close>

definition d_fix :: "fdec \<Rightarrow> fdec" where
  "d_fix d =
     (if ndigits (dcoef d) \<le> context_prec then d
      else let k = ndigits (dcoef d) - context_prec;
               q = div_round Half_Even (dcoef d) (10 ^ k)
           in if context_prec < ndigits q
              then Dec (dneg d) (q div 10) (dexp d + int k + 1)
              else Dec (dneg d) q (dexp d + int k))"

definition d_add :: "fdec \<Rightarrow> fdec \<Rightarrow> fdec" where
  "d_add a b =
     (let e = min (dexp a) (dexp b); n = scaled e a + scaled e b in
      d_fix (if n = 0 then Dec (dcoef a = 0 \<and> dcoef b = 0 \<and> dneg a \<and> dneg b) 0 e
             else d_of_int n e))"

definition d_copy_negate :: "fdec \<Rightarrow> fdec" where
  "d_copy_negate d = Dec (\<not> dneg d) (dcoef d) (dexp d)"

definition d_sub :: "fdec \<Rightarrow> fdec \<Rightarrow> fdec" where
  "d_sub a b = d_add a (d_copy_negate b)"

definition d_neg :: "fdec \<Rightarrow> fdec" where
  \<comment> \<open>the unary minus turns a zero into a positive zero\<close>
  "d_neg d = d_fix (Dec (dcoef d \<noteq> 0 \<and> \<not> dneg d) (dcoef d) (dexp d))"

definition d_abs :: "fdec \<Rightarrow> fdec" where
  "d_abs d = d_fix (Dec False (dcoef d) (dexp d))"

definition d_mul :: "fdec \<Rightarrow> fdec \<Rightarrow> fdec" where
  "d_mul a b = d_fix (Dec (dneg a \<noteq> dneg b) (dcoef a * dcoef b) (dexp a + dexp b))"

text \<open>
  Division keeps one digit more than the precision and marks an inexact quotient by bumping a last
  digit that is 0 or 5; an exact one is shortened towards the ideal exponent.
\<close>

fun d_shorten :: "nat \<Rightarrow> nat \<Rightarrow> nat \<times> nat" where
  "d_shorten 0 c = (c, 0)"
| "d_shorten (Suc k) c =
     (if c mod 10 = 0 then (let (c', j) = d_shorten k (c div 10) in (c', Suc j)) else (c, 0))"

definition d_div :: "fdec \<Rightarrow> fdec \<Rightarrow> fdec" where
  \<comment> \<open>the divisor is not zero\<close>
  "d_div a b =
     (let s = (dneg a \<noteq> dneg b); ideal = dexp a - dexp b in
      if dcoef a = 0 then Dec s 0 ideal
      else
        let shift = int (ndigits (dcoef b)) - int (ndigits (dcoef a)) + int context_prec + 1;
            n = dcoef a * 10 ^ nat shift; m = dcoef b * 10 ^ nat (- shift);
            q = n div m; e = ideal - shift
        in if n mod m \<noteq> 0 then d_fix (Dec s (if q mod 5 = 0 then q + 1 else q) e)
           else let (c, j) = d_shorten (nat shift) q in d_fix (Dec s c (e + int j)))"

definition d_le :: "fdec \<Rightarrow> fdec \<Rightarrow> bool" where
  "d_le a b \<longleftrightarrow> (let e = min (dexp a) (dexp b) in scaled e a \<le> scaled e b)"

definition d_lt :: "fdec \<Rightarrow> fdec \<Rightarrow> bool" where
  "d_lt a b \<longleftrightarrow> (let e = min (dexp a) (dexp b) in scaled e a < scaled e b)"

definition d_eq :: "fdec \<Rightarrow> fdec \<Rightarrow> bool" where
  \<comment> \<open>Python's \<open>==\<close>: equal values, whatever the exponents\<close>
  "d_eq a b \<longleftrightarrow> (let e = min (dexp a) (dexp b) in scaled e a = scaled e b)"

definition d_sum :: "fdec list \<Rightarrow> fdec" where
  \<comment> \<open>\<open>sum(xs, Decimal("0"))\<close>\<close>
  "d_sum ds = foldl d_add d_zero ds"

text \<open>
  \<open>quantize(Decimal("0.01"))\<close>: the nearest number with two decimal places; \<open>None\<close> is the trapped
  \<open>InvalidOperation\<close> of a result with more than 28 digits.
\<close>

definition d_rescale :: "rounding \<Rightarrow> fdec \<Rightarrow> fdec" where
  "d_rescale r d =
     (if - 2 \<le> dexp d then Dec (dneg d) (dcoef d * 10 ^ nat (dexp d + 2)) (- 2)
      else Dec (dneg d) (div_round r (dcoef d) (10 ^ nat (- 2 - dexp d))) (- 2))"

definition d_quantize :: "rounding \<Rightarrow> fdec \<Rightarrow> fdec option" where
  "d_quantize r d =
     (let q = d_rescale r d in if ndigits (dcoef q) \<le> context_prec then Some q else None)"

section \<open>Values of the operations\<close>

lemma dexp_d_of_int [simp]: "dexp (d_of_int n e) = e"
  by (simp add: d_of_int_def)

lemma sint_of_d_of_int [simp]: "sint_of (d_of_int n e) = n"
  by (simp add: d_of_int_def sint_of_def)

lemma dcoef_sint_of: "dcoef d = nat \<bar>sint_of d\<bar>"
  by (simp add: sint_of_def)

lemma val_scaled: "e \<le> dexp d \<Longrightarrow> val d = of_int (scaled e d) * 10 powi e"
proof -
  assume "e \<le> dexp d"
  then have "(10::rat) powi dexp d = 10 powi (e + int (nat (dexp d - e)))" by simp
  also have "\<dots> = 10 powi e * 10 powi int (nat (dexp d - e))"
    by (rule power_int_add) simp
  also have "\<dots> = 10 powi e * 10 ^ nat (dexp d - e)" by (simp only: power_int_of_nat)
  finally show ?thesis by (simp add: val_def scaled_def)
qed

lemma val_d_of_int [dec_val]: "val (d_of_int n e) = of_int n * 10 powi e"
  by (simp add: val_def)

lemma val_zero [simp, dec_val]: "val (Dec s 0 e) = 0"
  by (simp add: val_def sint_of_def)

lemma d_le_iff: "d_le a b \<longleftrightarrow> val a \<le> val b"
  by (simp add: d_le_def Let_def val_scaled [of "min (dexp a) (dexp b)"])

lemma d_lt_iff: "d_lt a b \<longleftrightarrow> val a < val b"
  by (simp add: d_lt_def Let_def val_scaled [of "min (dexp a) (dexp b)"])

lemma d_eq_iff: "d_eq a b \<longleftrightarrow> val a = val b"
  by (simp add: d_eq_def Let_def val_scaled [of "min (dexp a) (dexp b)"])

lemma val_eq_0_iff: "val d = 0 \<longleftrightarrow> dcoef d = 0"
  by (simp add: val_def sint_of_def)

lemma val_nonneg: "\<not> dneg d \<Longrightarrow> 0 \<le> val d"
  by (simp add: val_def sint_of_def)

lemma ndigits_le_iff: "0 < k \<Longrightarrow> ndigits n \<le> k \<longleftrightarrow> n < 10 ^ k"
proof (induction n arbitrary: k rule: ndigits.induct)
  case (1 n)
  show ?case
  proof (cases "n < 10")
    case True
    moreover have "(10::nat) \<le> 10 ^ k" using \<open>0 < k\<close> by (metis power_increasing One_nat_def Suc_leI one_le_numeral power_one_right)
    ultimately show ?thesis using \<open>0 < k\<close> by (simp add: ndigits.simps [of n])
  next
    case False
    then have "0 < n div 10" by simp
    show ?thesis
    proof (cases "k = 1")
      case True
      moreover have "1 \<le> ndigits (n div 10)" by (simp add: ndigits.simps [of "n div 10"])
      ultimately show ?thesis using False by (simp add: ndigits.simps [of n])
    next
      case k: False
      then obtain j where j: "k = Suc j" "0 < j" using \<open>0 < k\<close> by (cases k) auto
      then have "ndigits n \<le> k \<longleftrightarrow> n div 10 < 10 ^ j"
        using False "1.IH" by (simp add: ndigits.simps [of n])
      also have "\<dots> \<longleftrightarrow> n < 10 ^ k" using j by (simp add: div_less_iff_less_mult mult.commute)
      finally show ?thesis .
    qed
  qed
qed

lemma d_fix_id: "dcoef d < 10 ^ context_prec \<Longrightarrow> d_fix d = d"
  by (simp add: d_fix_def ndigits_le_iff)

lemma scaled_mono: "e \<le> e' \<Longrightarrow> e' \<le> dexp d \<Longrightarrow> \<bar>scaled e' d\<bar> \<le> \<bar>scaled e d\<bar>"
proof -
  assume "e \<le> e'" "e' \<le> dexp d"
  then have "nat (dexp d - e) = nat (dexp d - e') + nat (e' - e)" by simp
  then have "scaled e d = scaled e' d * 10 ^ nat (e' - e)"
    by (simp add: scaled_def power_add)
  moreover have "\<bar>scaled e' d\<bar> * 1 \<le> \<bar>scaled e' d\<bar> * 10 ^ nat (e' - e)"
    by (rule mult_left_mono) simp_all
  ultimately show ?thesis by (simp add: abs_mult)
qed

lemma d_add_exact:
  assumes e: "e \<le> dexp a" "e \<le> dexp b" and small: "\<bar>scaled e a + scaled e b\<bar> < 10 ^ context_prec"
  shows "val (d_add a b) = val a + val b" and "dexp (d_add a b) = min (dexp a) (dexp b)"
proof -
  let ?m = "min (dexp a) (dexp b)" and ?n = "scaled (min (dexp a) (dexp b)) a + scaled (min (dexp a) (dexp b)) b"
  have "nat (dexp d - e) = nat (dexp d - ?m) + nat (?m - e)" if "d = a \<or> d = b" for d
    using that e by auto
  then have "scaled e a + scaled e b = ?n * 10 ^ nat (?m - e)"
    by (simp add: scaled_def power_add algebra_simps)
  then have "\<bar>scaled e a + scaled e b\<bar> = \<bar>?n\<bar> * 10 ^ nat (?m - e)"
    by (simp add: abs_mult)
  moreover have "\<bar>?n\<bar> * 1 \<le> \<bar>?n\<bar> * 10 ^ nat (?m - e)" by (rule mult_left_mono) simp_all
  ultimately have "\<bar>?n\<bar> < 10 ^ context_prec" using small by linarith
  then have "nat \<bar>?n\<bar> < 10 ^ context_prec" by (simp add: nat_less_iff)
  then have fx: "d_add a b = (if ?n = 0 then Dec (dcoef a = 0 \<and> dcoef b = 0 \<and> dneg a \<and> dneg b) 0 ?m
      else d_of_int ?n ?m)"
    by (simp add: d_add_def Let_def d_fix_id d_of_int_def)
  then show "dexp (d_add a b) = ?m" by simp
  have "val (d_add a b) = of_int ?n * 10 powi ?m"
    using fx by (auto simp: val_d_of_int)
  then show "val (d_add a b) = val a + val b"
    by (simp add: val_scaled [of ?m] distrib_right)
qed

lemma val_copy_negate [simp, dec_val]: "val (d_copy_negate d) = - val d"
  by (simp add: val_def d_copy_negate_def sint_of_def)

lemma scaled_copy_negate [simp]: "scaled e (d_copy_negate d) = - scaled e d"
  by (simp add: scaled_def d_copy_negate_def sint_of_def)

lemma dexp_copy_negate [simp]: "dexp (d_copy_negate d) = dexp d"
  by (simp add: d_copy_negate_def)

lemma d_sub_exact:
  assumes "e \<le> dexp a" "e \<le> dexp b" "\<bar>scaled e a - scaled e b\<bar> < 10 ^ context_prec"
  shows "val (d_sub a b) = val a - val b" and "dexp (d_sub a b) = min (dexp a) (dexp b)"
  using d_add_exact [of e a "d_copy_negate b"] assms by (simp_all add: d_sub_def)

lemma val_abs: "dcoef d < 10 ^ context_prec \<Longrightarrow> val (d_abs d) = \<bar>val d\<bar>"
  by (simp add: d_abs_def d_fix_id val_def sint_of_def abs_mult)

lemma dneg_d_abs [simp]: "\<not> dneg (d_abs d)"
  by (simp add: d_abs_def d_fix_def Let_def)

lemma val_abs_nonneg: "0 \<le> val (d_abs d)"
  by (simp add: val_nonneg)

lemma val_neg: "dcoef d < 10 ^ context_prec \<Longrightarrow> val (d_neg d) = - val d"
  by (simp add: d_neg_def d_fix_id val_def sint_of_def)

subsection \<open>Sums\<close>

lemma d_sum_exact:
  assumes "e \<le> 0" "\<forall>d\<in>set ds. e \<le> dexp d" "(\<Sum>d\<leftarrow>ds. \<bar>scaled e d\<bar>) < 10 ^ context_prec"
  shows "val (d_sum ds) = (\<Sum>d\<leftarrow>ds. val d) \<and> e \<le> dexp (d_sum ds)"
proof -
  have "val (foldl d_add a ds) = val a + (\<Sum>d\<leftarrow>ds. val d) \<and> e \<le> dexp (foldl d_add a ds)"
    if "e \<le> dexp a" "\<forall>d\<in>set ds. e \<le> dexp d" "\<bar>scaled e a\<bar> + (\<Sum>d\<leftarrow>ds. \<bar>scaled e d\<bar>) < 10 ^ context_prec"
    for a ds using that
  proof (induction ds arbitrary: a)
    case (Cons d ds)
    have nn: "0 \<le> (\<Sum>d\<leftarrow>ds. \<bar>scaled e d\<bar>)" by (rule sum_list_nonneg) auto
    with Cons.prems have small: "\<bar>scaled e a + scaled e d\<bar> < 10 ^ context_prec" by auto
    have ex: "val (d_add a d) = val a + val d" "dexp (d_add a d) = min (dexp a) (dexp d)"
      using d_add_exact [OF _ _ small] Cons.prems by auto
    then have e': "e \<le> dexp (d_add a d)" using Cons.prems by simp
    have "of_int (scaled e (d_add a d)) * (10::rat) powi e = of_int (scaled e a + scaled e d) * 10 powi e"
      using ex(1) val_scaled [OF e'] val_scaled [of e a] val_scaled [of e d] Cons.prems
      by (simp add: distrib_right)
    then have "scaled e (d_add a d) = scaled e a + scaled e d"
      by (metis mult_right_cancel of_int_eq_iff power_int_not_zero zero_neq_numeral)
    then have "\<bar>scaled e (d_add a d)\<bar> + (\<Sum>d\<leftarrow>ds. \<bar>scaled e d\<bar>) < 10 ^ context_prec"
      using Cons.prems(3) by simp
    with Cons.IH [of "d_add a d"] e' Cons.prems ex show ?case by simp
  qed simp
  from this [of d_zero ds] assms show ?thesis by (simp add: d_sum_def scaled_def sint_of_def)
qed

subsection \<open>Rounding and quantizing\<close>

lemma div_round_exact [simp]: "m dvd n \<Longrightarrow> 0 < m \<Longrightarrow> div_round r n m = n div m"
  by (simp add: div_round_def Let_def)

lemma div_round_close:
  assumes "0 < m"
  shows "2 * n \<le> (2 * div_round r n m + 1) * m" and "2 * div_round r n m * m \<le> 2 * n + m"
proof -
  define q t where "q = n div m" and "t = n mod m"
  have n: "n = q * m + t" and lt: "t < m" using assms by (simp_all add: q_def t_def)
  have "2 * n \<le> (2 * div_round r n m + 1) * m \<and> 2 * div_round r n m * m \<le> 2 * n + m"
  proof (cases "m < 2 * t \<or> 2 * t = m \<and> (r = Half_Up \<or> odd q)")
    case True
    then have "div_round r n m = q + 1" by (simp add: div_round_def Let_def q_def t_def)
    moreover have "m \<le> 2 * t" using True by auto
    ultimately show ?thesis using lt by (simp add: n algebra_simps)
  next
    case False
    then have "div_round r n m = q" and "2 * t \<le> m"
      by (auto simp: div_round_def Let_def q_def t_def)
    then show ?thesis by (simp add: n algebra_simps)
  qed
  then show "2 * n \<le> (2 * div_round r n m + 1) * m" and "2 * div_round r n m * m \<le> 2 * n + m"
    by auto
qed

text \<open>A whole number of paisa: nothing is lost by keeping two decimal places.\<close>

definition whole_paisa :: "fdec \<Rightarrow> bool" where
  "whole_paisa d \<longleftrightarrow> - 2 \<le> dexp d \<or> 10 ^ nat (- 2 - dexp d) dvd dcoef d"

lemma dexp_d_rescale [simp]: "dexp (d_rescale r d) = - 2"
  by (simp add: d_rescale_def)

lemma dneg_d_rescale [simp]: "dneg (d_rescale r d) = dneg d"
  by (simp add: d_rescale_def)

lemma val_split:
  assumes "dexp d < - 2"
  shows "val d = of_int (sint_of d) / (100 * 10 ^ nat (- 2 - dexp d))"
proof -
  define k where "k = nat (- 2 - dexp d)"
  have e: "dexp d = - int (k + 2)" using assms by (simp add: k_def)
  have "(10::rat) powi (- int (k + 2)) = inverse (10 ^ (k + 2))"
    by (simp only: power_int_minus power_int_of_nat)
  also have "\<dots> = inverse (100 * 10 ^ k)" by (simp add: power_add)
  finally have "val d = of_int (sint_of d) / (100 * 10 ^ k)"
    by (simp only: val_def e divide_inverse)
  then show ?thesis by (simp only: k_def)
qed

lemma val_rescale_coef: "val (d_rescale r d) = of_int (sint_of (d_rescale r d)) / 100"
  by (simp add: val_def)

lemma val_d_rescale [dec_val]:
  assumes "whole_paisa d" shows "val (d_rescale r d) = val d"
proof (cases "- 2 \<le> dexp d")
  case True
  then have "d_rescale r d = Dec (dneg d) (dcoef d * 10 ^ nat (dexp d + 2)) (- 2)"
    by (simp add: d_rescale_def)
  moreover have "scaled (- 2) d = sint_of (Dec (dneg d) (dcoef d * 10 ^ nat (dexp d + 2)) (- 2))"
    by (simp add: scaled_def sint_of_def)
  ultimately show ?thesis using val_scaled [OF True] by (simp add: val_def)
next
  case False
  let ?m = "10 ^ nat (- 2 - dexp d) :: nat"
  from False assms obtain q where q: "dcoef d = ?m * q" by (auto simp: whole_paisa_def)
  then have "d_rescale r d = Dec (dneg d) q (- 2)" using False by (simp add: d_rescale_def)
  then have "val (d_rescale r d) = of_int (sint_of (Dec (dneg d) q (-2))) / 100"
    by (simp add: val_def)
  also have "\<dots> = val d"
    using False q by (simp add: val_split sint_of_def)
  finally show ?thesis .
qed

lemma d_rescale_close: "\<bar>val (d_rescale r d) - val d\<bar> \<le> 1 / 200"
proof (cases "- 2 \<le> dexp d")
  case True
  then show ?thesis by (simp add: val_d_rescale whole_paisa_def)
next
  case False
  define m :: nat where "m = 10 ^ nat (- 2 - dexp d)"
  define q where "q = div_round r (dcoef d) m"
  have m: "0 < m" by (simp add: m_def)
  have b1: "2 * dcoef d \<le> (2 * q + 1) * m" and b2: "2 * q * m \<le> 2 * dcoef d + m"
    unfolding q_def using div_round_close [OF m] by blast+
  have r: "d_rescale r d = Dec (dneg d) q (- 2)"
    using False by (simp add: d_rescale_def m_def q_def)
  have v1: "val (d_rescale r d) = (if dneg d then - 1 else 1) * (rat_of_nat q / 100)"
    unfolding val_rescale_coef by (simp add: r sint_of_def)
  have v2: "val d = (if dneg d then - 1 else 1) * (rat_of_nat (dcoef d) / (100 * rat_of_nat m))"
    using False by (simp add: val_split sint_of_def m_def)
  have c1: "2 * rat_of_nat (dcoef d) \<le> (2 * rat_of_nat q + 1) * rat_of_nat m"
    using of_nat_mono [OF b1, where 'a = rat] by (simp add: algebra_simps)
  have c2: "2 * rat_of_nat q * rat_of_nat m \<le> 2 * rat_of_nat (dcoef d) + rat_of_nat m"
    using of_nat_mono [OF b2, where 'a = rat] by simp
  have "\<bar>rat_of_nat q / 100 - rat_of_nat (dcoef d) / (100 * rat_of_nat m)\<bar> \<le> 1 / 200"
  proof -
    define z where "z = rat_of_nat (dcoef d) / rat_of_nat m"
    have M: "0 < rat_of_nat m" using m by simp
    have "z \<le> rat_of_nat q + 1 / 2"
      unfolding z_def pos_divide_le_eq [OF M] using c1 by (simp add: algebra_simps)
    moreover have "rat_of_nat q - 1 / 2 \<le> z"
      unfolding z_def pos_le_divide_eq [OF M] using c2 by (simp add: algebra_simps)
    ultimately have "rat_of_nat q / 100 - z / 100 \<le> 1 / 200" "z / 100 - rat_of_nat q / 100 \<le> 1 / 200"
      by (simp_all add: field_simps)
    then have "\<bar>rat_of_nat q / 100 - z / 100\<bar> \<le> 1 / 200" by linarith
    moreover have eq: "rat_of_nat (dcoef d) / (100 * rat_of_nat m) = z / 100" by (simp add: z_def)
    ultimately show ?thesis by (simp only: eq)
  qed
  then show ?thesis unfolding v1 v2 right_diff_distrib [symmetric] abs_mult by simp
qed

lemma d_quantize_Some:
  "d_quantize r d = Some q \<longleftrightarrow> q = d_rescale r d \<and> dcoef q < 10 ^ context_prec"
  by (auto simp: d_quantize_def Let_def ndigits_le_iff)

subsection \<open>Products and quotients\<close>

text \<open>A division whose quotient has few enough digits loses nothing.\<close>

lemma d_shorten_spec:
  "d_shorten k q = (c, j) \<Longrightarrow> q = c * 10 ^ j \<and> j \<le> k \<and> (j = k \<or> \<not> 10 dvd c)"
proof (induction k q arbitrary: c j rule: d_shorten.induct)
  case (2 k q)
  show ?case
  proof (cases "q mod 10 = 0")
    case True
    then obtain j' where j': "d_shorten k (q div 10) = (c, j')" "j = Suc j'"
      using "2.prems" by (auto split: prod.splits)
    have "q div 10 = c * 10 ^ j' \<and> j' \<le> k \<and> (j' = k \<or> \<not> 10 dvd c)"
      using "2.IH" [OF True j'(1)] .
    moreover have "q = 10 * (q div 10)" using True by auto
    ultimately show ?thesis using j'(2) by auto
  next
    case False
    then show ?thesis using "2.prems" by (auto simp: dvd_eq_mod_eq_0)
  qed
qed simp

lemma d_shorten_le:
  assumes "d_shorten k (c * 10 ^ i) = (c', j)" "i \<le> k"
  shows "c' \<le> c"
proof -
  have s: "c * 10 ^ i = c' * 10 ^ j" "j = k \<or> \<not> 10 dvd c'"
    using d_shorten_spec [OF assms(1)] by auto
  show ?thesis
  proof (cases "i \<le> j")
    case True
    then have "c' * 10 ^ (j - i) * 10 ^ i = c * 10 ^ i" using s(1) by (simp add: mult.assoc flip: power_add)
    then have "c = c' * 10 ^ (j - i)" by simp
    then show ?thesis by simp
  next
    case False
    then obtain m where m: "i = j + Suc m" by (auto simp: not_le less_iff_Suc_add)
    then have "c' * 10 ^ j = (c * 10 ^ Suc m) * 10 ^ j" using s(1) by (simp add: power_add)
    then have "c' = c * 10 ^ Suc m" by (simp only: mult_cancel2) simp
    then have "10 dvd c'" by simp
    then show ?thesis using s(2) False assms(2) by simp
  qed
qed

lemma d_div_exact:
  assumes b: "dcoef b \<noteq> 0" and small: "dcoef a < 10 ^ context_prec"
    and q: "dcoef a * 10 ^ k = c * dcoef b" "c < 10 ^ context_prec"
    and k: "k + ndigits (dcoef a) \<le> Suc context_prec + ndigits (dcoef b)"
  shows "val (d_div a b) = val a / val b"
proof (cases "dcoef a = 0")
  case True
  then show ?thesis by (simp add: d_div_def val_def sint_of_def)
next
  case False
  define sh where "sh = ndigits (dcoef b) + Suc context_prec - ndigits (dcoef a)"
  have shift: "int (ndigits (dcoef b)) - int (ndigits (dcoef a)) + int context_prec + 1 = int sh"
    using k by (simp add: sh_def)
  have le: "k \<le> sh" using k by (simp add: sh_def)
  have "dcoef a * 10 ^ sh = dcoef a * 10 ^ k * 10 ^ (sh - k)"
    using le by (simp add: mult.assoc flip: power_add)
  also have "\<dots> = (c * 10 ^ (sh - k)) * dcoef b" by (simp add: q(1))
  finally have n: "dcoef a * 10 ^ sh = (c * 10 ^ (sh - k)) * dcoef b" .
  obtain c' j where sj: "d_shorten sh (c * 10 ^ (sh - k)) = (c', j)" by fastforce
  have "c' \<le> c" using d_shorten_le [OF sj] by simp
  then have fx: "d_fix (Dec s c' e) = Dec s c' e" for s e using q(2) by (simp add: d_fix_id)
  have d: "d_div a b = Dec (dneg a \<noteq> dneg b) c' (dexp a - dexp b - int sh + int j)"
    using False b unfolding d_div_def Let_def shift
    by (simp add: n sj fx)
  have c': "c' * 10 ^ j * dcoef b = dcoef a * 10 ^ sh"
    using d_shorten_spec [OF sj] n by simp
  have r: "rat_of_nat c' * 10 ^ j * rat_of_nat (dcoef b) = rat_of_nat (dcoef a) * 10 ^ sh"
    using arg_cong [OF c', of rat_of_nat] by simp
  have p: "(10::rat) powi (dexp a - dexp b - int sh + int j) = 10 powi dexp a / 10 powi dexp b / 10 ^ sh * 10 ^ j"
    by (simp add: power_int_add power_int_diff)
  have v: "rat_of_nat c' * 10 powi (dexp a - dexp b - int sh + int j) =
      rat_of_nat (dcoef a) * 10 powi dexp a / (rat_of_nat (dcoef b) * 10 powi dexp b)"
    unfolding p using r b by (simp add: field_simps)
  then show ?thesis by (simp add: d val_def sint_of_def)
qed

lemma d_div_100:
  assumes "dcoef a < 10 ^ context_prec"
  shows "val (d_div a (Dec False 100 0)) = val a / 100"
proof -
  have "ndigits (dcoef a) \<le> context_prec" using assms by (simp add: ndigits_le_iff)
  then show ?thesis
    using d_div_exact [of "Dec False 100 0" a 2 "dcoef a"] assms
    by (simp add: ndigits.simps [of 100] ndigits.simps [of 10] ndigits.simps [of 1]  val_def sint_of_def)
qed

lemma d_div_2:
  assumes "dcoef a * 5 < 10 ^ context_prec"
  shows "val (d_div a (Dec False 2 0)) = val a / 2"
proof -
  have "dcoef a < 10 ^ context_prec" using assms by simp
  then have "ndigits (dcoef a) \<le> context_prec" by (simp add: ndigits_le_iff)
  then show ?thesis
    using d_div_exact [of "Dec False 2 0" a 1 "dcoef a * 5"] assms
    by (simp add: ndigits.simps [of 2] val_def sint_of_def)
qed

lemma d_mul_exact: "dcoef a * dcoef b < 10 ^ context_prec \<Longrightarrow> val (d_mul a b) = val a * val b"
  by (simp add: d_mul_def d_fix_id val_def sint_of_def power_int_add)

text \<open>Rules to evaluate operations on literal numbers.\<close>

lemma d_shorten_numeral:
  "d_shorten (numeral k) c =
     (if c mod 10 = 0 then (let (c', j) = d_shorten (pred_numeral k) (c div 10) in (c', Suc j)) else (c, 0))"
  by (simp only: numeral_eq_Suc d_shorten.simps)

lemma d_shorten_one: "d_shorten (Suc 0) c = (if c mod 10 = 0 then (c div 10, 1) else (c, 0))"
  by simp

lemmas dec_eval = d_shorten_numeral d_shorten_one ndigits.simps d_fix_def d_div_def d_add_def d_of_int_def
  scaled_def sint_of_def d_rescale_def d_quantize_def div_round_def d_mul_def d_abs_def d_neg_def
  d_sub_def d_copy_negate_def d_le_def d_lt_def d_eq_def d_sum_def

section \<open>Special values\<close>

datatype dec = Fin fdec | Infi bool | QNaN | SNaN

datatype dec_exc = Invalid_Operation

text \<open>An operation of the context: a value, or the trapped condition.\<close>

type_synonym 'a trap = "dec_exc + 'a"

definition is_nan :: "dec \<Rightarrow> bool" where
  "is_nan x \<longleftrightarrow> x = QNaN \<or> x = SNaN"

fun nan_result :: "dec \<Rightarrow> dec \<Rightarrow> dec trap" where
  "nan_result SNaN _ = Inl Invalid_Operation"
| "nan_result _ SNaN = Inl Invalid_Operation"
| "nan_result _ _ = Inr QNaN"

fun dec_abs :: "dec \<Rightarrow> dec trap" where
  "dec_abs (Fin d) = Inr (Fin (d_abs d))"
| "dec_abs (Infi _) = Inr (Infi False)"
| "dec_abs x = nan_result x x"

fun dec_neg :: "dec \<Rightarrow> dec trap" where
  "dec_neg (Fin d) = Inr (Fin (d_neg d))"
| "dec_neg (Infi s) = Inr (Infi (\<not> s))"
| "dec_neg x = nan_result x x"

fun dec_add :: "dec \<Rightarrow> dec \<Rightarrow> dec trap" where
  "dec_add (Fin a) (Fin b) = Inr (Fin (d_add a b))"
| "dec_add (Infi s) (Infi t) = (if s = t then Inr (Infi s) else Inl Invalid_Operation)"
| "dec_add (Infi s) (Fin _) = Inr (Infi s)"
| "dec_add (Fin _) (Infi t) = Inr (Infi t)"
| "dec_add x y = nan_result x y"

fun dec_sub :: "dec \<Rightarrow> dec \<Rightarrow> dec trap" where
  "dec_sub x (Fin b) = dec_add x (Fin (d_copy_negate b))"
| "dec_sub x (Infi t) = dec_add x (Infi (\<not> t))"
| "dec_sub x y = nan_result x y"

fun dec_mul :: "dec \<Rightarrow> dec \<Rightarrow> dec trap" where
  "dec_mul (Fin a) (Fin b) = Inr (Fin (d_mul a b))"
| "dec_mul (Infi s) (Infi t) = Inr (Infi (s \<noteq> t))"
| "dec_mul (Infi s) (Fin b) = (if dcoef b = 0 then Inl Invalid_Operation else Inr (Infi (s \<noteq> dneg b)))"
| "dec_mul (Fin a) (Infi t) = (if dcoef a = 0 then Inl Invalid_Operation else Inr (Infi (dneg a \<noteq> t)))"
| "dec_mul x y = nan_result x y"

fun dec_div_fin :: "dec \<Rightarrow> fdec \<Rightarrow> dec trap" where
  \<comment> \<open>division by a finite number other than zero\<close>
  "dec_div_fin (Fin a) b = Inr (Fin (d_div a b))"
| "dec_div_fin (Infi s) b = Inr (Infi (s \<noteq> dneg b))"
| "dec_div_fin x b = nan_result x x"

fun dec_quantize :: "rounding \<Rightarrow> dec \<Rightarrow> dec trap" where
  "dec_quantize r (Fin d) =
     (case d_quantize r d of Some q \<Rightarrow> Inr (Fin q) | None \<Rightarrow> Inl Invalid_Operation)"
| "dec_quantize r (Infi _) = Inl Invalid_Operation"
| "dec_quantize r x = nan_result x x"

text \<open>Comparisons: the ordered ones trap on any NaN, equality on a signalling one.\<close>

fun dec_lt :: "dec \<Rightarrow> dec \<Rightarrow> bool trap" where
  "dec_lt (Fin a) (Fin b) = Inr (d_lt a b)"
| "dec_lt (Fin _) (Infi t) = Inr (\<not> t)"
| "dec_lt (Infi s) (Fin _) = Inr s"
| "dec_lt (Infi s) (Infi t) = Inr (s \<and> \<not> t)"
| "dec_lt _ _ = Inl Invalid_Operation"

fun dec_le :: "dec \<Rightarrow> dec \<Rightarrow> bool trap" where
  "dec_le (Fin a) (Fin b) = Inr (d_le a b)"
| "dec_le (Fin _) (Infi t) = Inr (\<not> t)"
| "dec_le (Infi s) (Fin _) = Inr s"
| "dec_le (Infi s) (Infi t) = Inr (s \<or> \<not> t)"
| "dec_le _ _ = Inl Invalid_Operation"

fun dec_eq :: "dec \<Rightarrow> dec \<Rightarrow> bool trap" where
  "dec_eq SNaN _ = Inl Invalid_Operation"
| "dec_eq _ SNaN = Inl Invalid_Operation"
| "dec_eq (Fin a) (Fin b) = Inr (d_eq a b)"
| "dec_eq (Infi s) (Infi t) = Inr (s = t)"
| "dec_eq _ _ = Inr False"

fun dec_truthy :: "dec \<Rightarrow> bool" where
  \<comment> \<open>\<open>bool(d)\<close>: everything but a zero\<close>
  "dec_truthy (Fin d) \<longleftrightarrow> dcoef d \<noteq> 0"
| "dec_truthy _ \<longleftrightarrow> True"

section \<open>Reading and printing\<close>

fun nat_str :: "nat \<Rightarrow> string" where
  "nat_str n = (if n < 10 then [char_of (48 + n)] else nat_str (n div 10) @ [char_of (48 + n mod 10)])"

declare nat_str.simps [simp del]

definition digits_val :: "string \<Rightarrow> nat" where
  "digits_val s = foldl (\<lambda>a c. 10 * a + (ord c - 48)) 0 s"

text \<open>Decimal digits with \<open>k\<close> of them after the point.\<close>

definition point_str :: "string \<Rightarrow> nat \<Rightarrow> string" where
  "point_str ds k =
     (if k = 0 then ds
      else if length ds \<le> k then ''0.'' @ replicate (k - length ds) CHR ''0'' @ ds
      else take (length ds - k) ds @ ''.'' @ drop (length ds - k) ds)"

definition sign_str :: "bool \<Rightarrow> string" where
  "sign_str s = (if s then ''-'' else '''')"

text \<open>\<open>str\<close> of a number quantized to two places.\<close>

definition paisa_str :: "fdec \<Rightarrow> string" where
  "paisa_str d = sign_str (dneg d) @ point_str (nat_str (dcoef d)) 2"

text \<open>\<open>format(d, "f")\<close>: no exponent, and no digits forced.\<close>

definition plain_str :: "fdec \<Rightarrow> string" where
  "plain_str d = sign_str (dneg d) @
     (if 0 < dexp d
      then (if dcoef d = 0 then ''0'' else nat_str (dcoef d) @ replicate (nat (dexp d)) CHR ''0'')
      else point_str (nat_str (dcoef d)) (nat (- dexp d)))"

definition split_sign :: "string \<Rightarrow> bool \<times> string" where
  "split_sign t =
     (case t of [] \<Rightarrow> (False, [])
      | c # cs \<Rightarrow> if c = CHR ''-'' then (True, cs) else if c = CHR ''+'' then (False, cs) else (False, t))"

definition parse_exponent :: "string \<Rightarrow> int option" where
  "parse_exponent t =
     (case t of [] \<Rightarrow> Some 0
      | c # cs \<Rightarrow>
          let (s, ds) = split_sign cs in
          if (c = CHR ''e'' \<or> c = CHR ''E'') \<and> ds \<noteq> [] \<and> list_all is_dec_digit ds
          then Some (if s then - int (digits_val ds) else int (digits_val ds)) else None)"

definition parse_number :: "bool \<Rightarrow> string \<Rightarrow> fdec option" where
  "parse_number s t =
     (let ip = takeWhile is_dec_digit t; r = dropWhile is_dec_digit t;
          (fp, r') = (case r of [] \<Rightarrow> ([], [])
                      | c # cs \<Rightarrow> if c = CHR ''.''
                          then (takeWhile is_dec_digit cs, dropWhile is_dec_digit cs) else ([], r))
      in if ip = [] \<and> fp = [] then None
         else map_option (\<lambda>x. Dec s (digits_val (ip @ fp)) (x - int (length fp))) (parse_exponent r'))"

text \<open>\<open>Decimal(text)\<close>: \<open>None\<close> is the \<open>InvalidOperation\<close> of a text that is no number.\<close>

definition dec_of_string :: "string \<Rightarrow> dec option" where
  "dec_of_string text =
     (let (s, r) = split_sign (filter (\<lambda>c. c \<noteq> CHR ''_'') (strip text)); l = lower r in
      if l = ''inf'' \<or> l = ''infinity'' then Some (Infi s)
      else if take 3 l = ''nan'' \<and> list_all is_dec_digit (drop 3 l) then Some QNaN
      else if take 4 l = ''snan'' \<and> list_all is_dec_digit (drop 4 l) then Some SNaN
      else map_option Fin (parse_number s r))"

lemma digits_val_snoc: "digits_val (s @ [c]) = 10 * digits_val s + (ord c - 48)"
  by (simp add: digits_val_def)

lemma ord_digit_char [simp]: "n < 10 \<Longrightarrow> ord (char_of (48 + n)) = (48 + n :: nat)"
  by simp

lemma is_dec_digit_char: "n < 10 \<Longrightarrow> is_dec_digit (char_of (48 + n :: nat))"
  by (simp add: is_dec_digit_def)

lemma nat_str_digits: "list_all is_dec_digit (nat_str n) \<and> nat_str n \<noteq> []"
proof (induction n rule: nat_str.induct)
  case (1 n)
  then show ?case by (simp add: is_dec_digit_char nat_str.simps [of n])
qed

lemma digits_val_nat_str [simp]: "digits_val (nat_str n) = n"
proof (induction n rule: nat_str.induct)
  case (1 n)
  show ?case
  proof (cases "n < 10")
    case True
    then show ?thesis using digits_val_snoc [of "[]"]
      by (subst nat_str.simps) (simp add: digits_val_def)
  next
    case False
    then show ?thesis using 1 by (subst nat_str.simps) (simp add: digits_val_snoc)
  qed
qed

lemma digits_val_zeros: "digits_val (replicate k CHR ''0'' @ s) = digits_val s"
  by (induction k) (simp_all add: digits_val_def)

lemma point_str_2:
  "\<exists>ip fp. point_str (nat_str c) 2 = ip @ ''.'' @ fp \<and> list_all is_dec_digit ip \<and>
     list_all is_dec_digit fp \<and> ip \<noteq> [] \<and> length fp = 2 \<and> digits_val (ip @ fp) = c"
proof (cases "length (nat_str c) \<le> 2")
  case True
  let ?fp = "replicate (2 - length (nat_str c)) CHR ''0'' @ nat_str c"
  have "list_all is_dec_digit ''0''" by (simp add: is_dec_digit_def)
  moreover have "list_all is_dec_digit ?fp"
    using nat_str_digits [of c] by (auto simp: list_all_iff is_dec_digit_def)
  moreover have "digits_val (''0'' @ ?fp) = c"
    using digits_val_zeros [of "Suc (2 - length (nat_str c))" "nat_str c"] by simp
  moreover have "point_str (nat_str c) 2 = ''0'' @ ''.'' @ ?fp" using True by (simp add: point_str_def)
  ultimately show ?thesis using True by (intro exI [of _ "''0''"] exI [of _ ?fp]) simp
next
  case False
  let ?k = "length (nat_str c) - 2"
  have "list_all is_dec_digit (take ?k (nat_str c) @ drop ?k (nat_str c))"
    using nat_str_digits [of c] by simp
  then have "list_all is_dec_digit (take ?k (nat_str c))" "list_all is_dec_digit (drop ?k (nat_str c))"
    by (simp_all only: list_all_append)
  moreover have "point_str (nat_str c) 2 = take ?k (nat_str c) @ ''.'' @ drop ?k (nat_str c)"
    using False by (simp add: point_str_def)
  ultimately show ?thesis using False
    by (intro exI [of _ "take ?k (nat_str c)"] exI [of _ "drop ?k (nat_str c)"]) auto
qed

lemma parse_number_parts:
  assumes "list_all is_dec_digit ip" "list_all is_dec_digit fp" "ip \<noteq> []"
  shows "parse_number s (ip @ ''.'' @ fp) = Some (Dec s (digits_val (ip @ fp)) (- int (length fp)))"
proof -
  have dot: "\<not> is_dec_digit CHR ''.''" by (simp add: is_dec_digit_def)
  have w: "takeWhile is_dec_digit (ip @ ''.'' @ fp) = ip" "dropWhile is_dec_digit (ip @ ''.'' @ fp) = ''.'' @ fp"
    using assms dot by (simp_all add: list_all_iff takeWhile_append dropWhile_append)
  have f: "takeWhile is_dec_digit fp = fp" "dropWhile is_dec_digit fp = []"
    using assms(2) by (induction fp) simp_all
  show ?thesis unfolding parse_number_def w Let_def
    using f assms by (simp add: parse_exponent_def del: dropWhile_eq_Nil_conv takeWhile_eq_all_conv)
qed

lemma is_dec_digit_no_alpha: "is_dec_digit c \<Longrightarrow> lower_char c = c \<and> c \<notin> {CHR ''i'', CHR ''n'', CHR ''s'', CHR ''-'', CHR ''+'', CHR ''_''} \<and> \<not> is_space c"
  by (auto simp: is_dec_digit_def is_space_def lower_char_def Let_def)

text \<open>A printed amount reads back as the number that was printed.\<close>

lemma dec_of_paisa_str:
  assumes "dexp d = - 2"
  shows "dec_of_string (paisa_str d) = Some (Fin d)"
proof -
  obtain ip fp where p: "point_str (nat_str (dcoef d)) 2 = ip @ ''.'' @ fp"
    and dig: "list_all is_dec_digit ip" "list_all is_dec_digit fp"
    and ne: "ip \<noteq> []" "length fp = 2" and v: "digits_val (ip @ fp) = dcoef d"
    using point_str_2 by blast
  let ?t = "ip @ ''.'' @ fp"
  obtain i0 ips where i0: "ip = i0 # ips" using ne(1) by (cases ip) auto
  have "last fp \<in> set fp" using ne(2) by (intro last_in_set) fastforce
  then have nsp: "\<not> is_space (last fp)" "fp \<noteq> []"
    using dig(2) is_dec_digit_no_alpha ne(2) unfolding list_all_iff by (blast, fastforce)
  have i0d: "lower_char i0 = i0" "i0 \<notin> {CHR ''i'', CHR ''n'', CHR ''s'', CHR ''-'', CHR ''+'', CHR ''_''}" "\<not> is_space i0"
  proof -
    have "is_dec_digit i0" using dig(1) by (simp add: i0)
    from is_dec_digit_no_alpha [OF this]
    show "lower_char i0 = i0" "i0 \<notin> {CHR ''i'', CHR ''n'', CHR ''s'', CHR ''-'', CHR ''+'', CHR ''_''}" "\<not> is_space i0"
      by blast+
  qed
  have "strip (sign_str b @ ?t) = sign_str b @ ?t" for b
    using nsp i0d by (intro strip_id) (auto simp: i0 sign_str_def is_space_def)
  moreover have "CHR ''_'' \<notin> set ip" "CHR ''_'' \<notin> set fp"
    using dig by (auto simp: list_all_iff is_dec_digit_def)
  then have "filter (\<lambda>c. c \<noteq> CHR ''_'') ip = ip" "filter (\<lambda>c. c \<noteq> CHR ''_'') fp = fp"
    by (auto intro: filter_True)
  then have "filter (\<lambda>c. c \<noteq> CHR ''_'') (sign_str b @ ?t) = sign_str b @ ?t" for b
    by (simp add: sign_str_def)
  moreover have "split_sign (sign_str b @ ?t) = (b, ?t)" for b
    using i0d by (simp add: split_sign_def sign_str_def i0)
  moreover have "parse_number (dneg d) ?t = Some (Dec (dneg d) (dcoef d) (- 2))"
    using parse_number_parts [OF dig ne(1)] v ne(2) by simp
  ultimately show ?thesis using i0d assms
    by (simp add: dec_of_string_def paisa_str_def p i0 lower_def Let_def) (cases d; simp)
qed


end
