(* ===== verification/Contracts.thy ===== *)
theory Contracts
  imports PyDecimal
begin

text \<open>
  The shapes every stage shares: the enumerations of \<open>app/pipeline/entities.py\<close> and
  \<open>app/pipeline/contracts.py\<close>, the error envelope, and the exceptions of
  \<open>app/core/errors.py\<close>.  Code that raises returns a value of \<open>exc + 'a\<close>.  The texts meant for
  a reader (\<open>message\<close>, \<open>raw\<close>, the title and detail of a problem) are left out.
\<close>

section \<open>Enumerations\<close>

datatype entity_type = UNIT | GROUP | STOCK_ITEM | LEDGER | VOUCHER

fun entity_value :: "entity_type \<Rightarrow> string" where
  "entity_value UNIT = ''unit''"
| "entity_value GROUP = ''group''"
| "entity_value STOCK_ITEM = ''stock_item''"
| "entity_value LEDGER = ''ledger''"
| "entity_value VOUCHER = ''voucher''"

datatype tally_action = CREATE | ALTER

fun action_value :: "tally_action \<Rightarrow> string" where
  "action_value CREATE = ''Create''"
| "action_value ALTER = ''Alter''"

datatype stage_name = PARSE | PROFILE | MAP | VALIDATE | RESOLVE | CONVERT | PUSH

datatype severity = Sev_Error | Sev_Warning | Sev_Info

datatype error_code =
    EMPTY_FILE | FILE_TOO_LARGE | UNSUPPORTED_FORMAT | PARSE_FAILED
  | REQUIRED_MISSING | NAME_TOO_LONG | BAD_UNIT_NAME | DUPLICATE_IN_FILE | UNKNOWN_GROUP
  | UNKNOWN_UNIT | BAD_DECIMAL | BAD_GSTIN | BAD_HSN | BAD_PAN | GROUP_CYCLE
  | BAD_DATE | VOUCHER_UNBALANCED | UNKNOWN_VOUCHER_TYPE | VOUCHER_CONFLICT | INVENTORY_MISMATCH
  | DUP_CONFLICT | UNRESOLVED_REFERENCE
  | TALLY_LINEERROR | BRIDGE_OFFLINE | WRONG_COMPANY | TALLY_UNREACHABLE
  | VALUE_NOT_ALLOWED | MISSING_COLUMN | VALIDATION_ERROR

fun code_str :: "error_code \<Rightarrow> string" where
  "code_str EMPTY_FILE = ''empty_file''"
| "code_str FILE_TOO_LARGE = ''file_too_large''"
| "code_str UNSUPPORTED_FORMAT = ''unsupported_format''"
| "code_str PARSE_FAILED = ''parse_failed''"
| "code_str REQUIRED_MISSING = ''required_missing''"
| "code_str NAME_TOO_LONG = ''name_too_long''"
| "code_str BAD_UNIT_NAME = ''bad_unit_name''"
| "code_str DUPLICATE_IN_FILE = ''duplicate_in_file''"
| "code_str UNKNOWN_GROUP = ''unknown_group''"
| "code_str UNKNOWN_UNIT = ''unknown_unit''"
| "code_str BAD_DECIMAL = ''bad_decimal''"
| "code_str BAD_GSTIN = ''bad_gstin''"
| "code_str BAD_HSN = ''bad_hsn''"
| "code_str BAD_PAN = ''bad_pan''"
| "code_str GROUP_CYCLE = ''group_cycle''"
| "code_str BAD_DATE = ''bad_date''"
| "code_str VOUCHER_UNBALANCED = ''voucher_unbalanced''"
| "code_str UNKNOWN_VOUCHER_TYPE = ''unknown_voucher_type''"
| "code_str VOUCHER_CONFLICT = ''voucher_conflict''"
| "code_str INVENTORY_MISMATCH = ''inventory_mismatch''"
| "code_str DUP_CONFLICT = ''dup_conflict''"
| "code_str UNRESOLVED_REFERENCE = ''unresolved_reference''"
| "code_str TALLY_LINEERROR = ''tally_lineerror''"
| "code_str BRIDGE_OFFLINE = ''bridge_offline''"
| "code_str WRONG_COMPANY = ''wrong_company''"
| "code_str TALLY_UNREACHABLE = ''tally_unreachable''"
| "code_str VALUE_NOT_ALLOWED = ''value_not_allowed''"
| "code_str MISSING_COLUMN = ''missing_column''"
| "code_str VALIDATION_ERROR = ''validation_error''"

section \<open>Error envelopes and stage results\<close>

record envelope =
  e_code :: error_code
  e_severity :: severity
  e_stage :: stage_name
  e_entity :: "entity_type option"
  e_row :: "nat option"
  e_column :: "string option"
  e_target :: "string option"
  e_suggestion :: "string option"

definition is_error :: "envelope \<Rightarrow> bool" where
  "is_error e \<longleftrightarrow> e_severity e = Sev_Error"

definition is_warning :: "envelope \<Rightarrow> bool" where
  "is_warning e \<longleftrightarrow> e_severity e = Sev_Warning"

text \<open>An envelope about one column of one row, as the \<open>_err\<close> helpers of the stages build it.\<close>

definition field_err ::
    "entity_type \<Rightarrow> nat option \<Rightarrow> string \<Rightarrow> error_code \<Rightarrow> stage_name \<Rightarrow> severity \<Rightarrow> envelope" where
  "field_err ent row col code stg sev =
     \<lparr>e_code = code, e_severity = sev, e_stage = stg, e_entity = Some ent, e_row = row,
      e_column = Some col, e_target = Some col, e_suggestion = None\<rparr>"

record stage_result =
  r_ok :: bool
  r_stage :: stage_name
  r_errors :: "envelope list"
  r_stats :: "(string, nat) dict"

section \<open>Exceptions\<close>

datatype app_class =
    Unauthorized | Forbidden | Conflict | JobNotFound | NotFound | InvalidEntityType | InvalidState
  | BadRequest | PayloadTooLarge | UnsupportedMedia | UnprocessableData | TooManyJobs
  | TooManyRequests | ServiceUnavailable

fun status_code :: "app_class \<Rightarrow> nat" where
  "status_code Unauthorized = 401"
| "status_code Forbidden = 403"
| "status_code Conflict = 409"
| "status_code JobNotFound = 404"
| "status_code NotFound = 404"
| "status_code InvalidEntityType = 422"
| "status_code InvalidState = 409"
| "status_code BadRequest = 400"
| "status_code PayloadTooLarge = 413"
| "status_code UnsupportedMedia = 415"
| "status_code UnprocessableData = 422"
| "status_code TooManyJobs = 429"
| "status_code TooManyRequests = 429"
| "status_code ServiceUnavailable = 503"

fun default_code :: "app_class \<Rightarrow> string" where
  "default_code Unauthorized = ''unauthorized''"
| "default_code Forbidden = ''forbidden''"
| "default_code Conflict = ''conflict''"
| "default_code JobNotFound = ''job_not_found''"
| "default_code NotFound = ''not_found''"
| "default_code InvalidEntityType = ''invalid_entity_type''"
| "default_code InvalidState = ''invalid_state''"
| "default_code BadRequest = ''bad_request''"
| "default_code PayloadTooLarge = code_str FILE_TOO_LARGE"
| "default_code UnsupportedMedia = code_str UNSUPPORTED_FORMAT"
| "default_code UnprocessableData = ''unprocessable_data''"
| "default_code TooManyJobs = ''too_many_jobs''"
| "default_code TooManyRequests = ''rate_limited''"
| "default_code ServiceUnavailable = ''service_unavailable''"

record app_error =
  a_class :: app_class
  a_code :: string
  a_errors :: "envelope list"

definition app_error_new :: "app_class \<Rightarrow> string option \<Rightarrow> envelope list \<Rightarrow> app_error" where
  "app_error_new cls code errs =
     \<lparr>a_class = cls, a_code = (case code of None \<Rightarrow> default_code cls | Some c \<Rightarrow> c), a_errors = errs\<rparr>"

record problem =
  p_status :: nat
  p_code :: string
  p_errors :: "envelope list"

definition to_problem :: "app_error \<Rightarrow> problem" where
  "to_problem a = \<lparr>p_status = status_code (a_class a), p_code = a_code a, p_errors = a_errors a\<rparr>"

text \<open>
  What code can raise: Python's \<open>ValueError\<close> (with the validation errors of the model classes,
  which derive from it), the arithmetic errors, \<open>AttributeError\<close>, \<open>KeyError\<close> and \<open>OSError\<close>, the
  errors of the database, of tokens, of the response parser, the object store and the bridge relay,
  and the application's own.
\<close>

datatype exc =
    ValueError | InvalidOperation | OverflowError | AttributeError | KeyError | OSError | IntegrityError | PyJWTError | XMLSecurityError
  | ObjectNotFound | ClientError | BridgeNotConnected | BridgeOffline | AppErr app_error

type_synonym 'a res = "exc + 'a"

definition raise_app :: "app_class \<Rightarrow> string \<Rightarrow> 'a res" where
  "raise_app cls code = Inl (AppErr (app_error_new cls (Some code) []))"

definition rbind :: "'a res \<Rightarrow> ('a \<Rightarrow> 'b res) \<Rightarrow> 'b res" where
  "rbind m f = (case m of Inl e \<Rightarrow> Inl e | Inr x \<Rightarrow> f x)"

definition of_trap :: "'a trap \<Rightarrow> 'a res" where
  "of_trap m = (case m of Inl _ \<Rightarrow> Inl InvalidOperation | Inr x \<Rightarrow> Inr x)"

lemma rbind_simps [simp]: "rbind (Inl e) f = Inl e" "rbind (Inr x) f = f x"
  by (simp_all add: rbind_def)

lemma of_trap_simps [simp]: "of_trap (Inl e) = Inl InvalidOperation" "of_trap (Inr x) = Inr x"
  by (simp_all add: of_trap_def)

lemma rbind_Inr: "rbind m f = Inr y \<longleftrightarrow> (\<exists>x. m = Inr x \<and> f x = Inr y)"
  by (cases m) auto

lemma rbind_split: "P (rbind m f) \<longleftrightarrow> (\<forall>e. m = Inl e \<longrightarrow> P (Inl e)) \<and> (\<forall>x. m = Inr x \<longrightarrow> P (f x))"
  by (cases m) auto

lemma of_trap_Inr: "of_trap m = Inr y \<longleftrightarrow> m = Inr y"
  by (cases m) auto

text \<open>A loop over a list whose body can raise, threading a state.\<close>

fun foldM :: "('a \<Rightarrow> 's \<Rightarrow> 's res) \<Rightarrow> 'a list \<Rightarrow> 's \<Rightarrow> 's res" where
  "foldM f [] s = Inr s"
| "foldM f (x # xs) s = rbind (f x s) (foldM f xs)"

lemma foldM_append: "foldM f (xs @ ys) s = rbind (foldM f xs s) (foldM f ys)"
  by (induction xs arbitrary: s) (auto split: rbind_split)

lemma foldM_invariant:
  assumes "foldM f xs s = Inr t" "P s"
    and "\<And>x s t. x \<in> set xs \<Longrightarrow> P s \<Longrightarrow> f x s = Inr t \<Longrightarrow> P t"
  shows "P t"
  using assms
proof (induction xs arbitrary: s)
  case (Cons x xs)
  from Cons.prems(1) obtain u where u: "f x s = Inr u" "foldM f xs u = Inr t"
    by (auto simp: rbind_Inr)
  have "P u" using Cons.prems(2) Cons.prems(3) [of x s u] u(1) by simp
  then show ?case using Cons.IH [OF u(2)] Cons.prems(3) by (meson list.set_intros(2))
qed simp

text \<open>Numbering from 1, as \<open>enumerate(xs, start=1)\<close> does.\<close>

definition enumerate1 :: "'a list \<Rightarrow> (nat \<times> 'a) list" where
  "enumerate1 xs = zip [1..<Suc (length xs)] xs"

section \<open>Code that records envelopes and may raise\<close>

text \<open>
  A function that appends to a list of envelopes while it runs, and may raise: a result and the
  list, which keeps what was recorded before an exception.  \<open>lcatch\<close> is \<open>except ValueError\<close>.
\<close>

type_synonym 'a logged = "envelope list \<Rightarrow> 'a res \<times> envelope list"

definition lret :: "'a \<Rightarrow> 'a logged" where
  "lret x es = (Inr x, es)"

definition llift :: "'a res \<Rightarrow> 'a logged" where
  "llift m es = (m, es)"

definition llog :: "envelope \<Rightarrow> unit logged" where
  "llog e es = (Inr (), es @ [e])"

definition lbind :: "'a logged \<Rightarrow> ('a \<Rightarrow> 'b logged) \<Rightarrow> 'b logged" where
  "lbind m f es = (case m es of (Inl x, es') \<Rightarrow> (Inl x, es') | (Inr a, es') \<Rightarrow> f a es')"

definition lcatch :: "'a logged \<Rightarrow> 'a logged \<Rightarrow> 'a logged" where
  "lcatch m h es =
     (case m es of
        (Inl x, es') \<Rightarrow> if x = ValueError then h es' else (Inl x, es')
      | (Inr a, es') \<Rightarrow> (Inr a, es'))"

definition lfail :: "envelope \<Rightarrow> 'a option logged" where
  \<comment> \<open>record an envelope and return \<open>None\<close>\<close>
  "lfail e = lbind (llog e) (\<lambda>_. lret None)"

definition ltry :: "'a res \<Rightarrow> 'b logged \<Rightarrow> ('a \<Rightarrow> 'b logged) \<Rightarrow> 'b logged" where
  \<comment> \<open>\<open>try: x = m; except ValueError: h\<close>, and on with \<open>k x\<close>, where \<open>h\<close> leaves the function\<close>
  "ltry m h k es =
     (case m of Inr x \<Rightarrow> k x es | Inl e \<Rightarrow> if e = ValueError then h es else (Inl e, es))"

fun lfold :: "('a \<Rightarrow> 's \<Rightarrow> 's logged) \<Rightarrow> 'a list \<Rightarrow> 's \<Rightarrow> 's logged" where
  "lfold f [] s = lret s"
| "lfold f (x # xs) s = lbind (f x s) (lfold f xs)"

lemmas logged_defs = lret_def llift_def llog_def lbind_def lcatch_def lfail_def ltry_def

lemma lret_Inr [simp]: "lret x es = (Inr y, es') \<longleftrightarrow> y = x \<and> es' = es"
  by (auto simp: lret_def)

lemma llift_Inr [simp]: "llift m es = (Inr y, es') \<longleftrightarrow> m = Inr y \<and> es' = es"
  by (auto simp: llift_def)

lemma llog_Inr [simp]: "llog e es = (Inr y, es') \<longleftrightarrow> es' = es @ [e]"
  by (auto simp: llog_def)

lemma lbind_Inr: "lbind m f es = (Inr y, es') \<longleftrightarrow> (\<exists>x es1. m es = (Inr x, es1) \<and> f x es1 = (Inr y, es'))"
  by (auto simp: lbind_def split: prod.splits sum.splits)

lemma lfail_Inr [simp]: "lfail e es = (Inr y, es') \<longleftrightarrow> y = None \<and> es' = es @ [e]"
  by (auto simp: lfail_def lbind_Inr)

lemma lcatch_Inr:
  "lcatch m h es = (Inr y, es') \<longleftrightarrow>
     m es = (Inr y, es') \<or> (\<exists>es1. m es = (Inl ValueError, es1) \<and> h es1 = (Inr y, es'))"
  by (auto simp: lcatch_def split: prod.splits sum.splits)

lemma ltry_Inr:
  "ltry m h k es = (Inr y, es') \<longleftrightarrow>
     (\<exists>x. m = Inr x \<and> k x es = (Inr y, es')) \<or> m = Inl ValueError \<and> h es = (Inr y, es')"
  by (auto simp: ltry_def split: sum.splits)

lemma lfold_invariant:
  assumes "lfold f xs s es = (Inr t, es')" "P s es"
    and "\<And>x s es t es'. x \<in> set xs \<Longrightarrow> P s es \<Longrightarrow> f x s es = (Inr t, es') \<Longrightarrow> P t es'"
  shows "P t es'"
  using assms
proof (induction xs arbitrary: s es)
  case (Cons x xs)
  from Cons.prems(1) obtain u es1 where u: "f x s es = (Inr u, es1)" "lfold f xs u es1 = (Inr t, es')"
    by (auto simp: lbind_Inr)
  have "P u es1" using Cons.prems(2) Cons.prems(3) [of x s es u es1] u(1) by simp
  then show ?case using Cons.IH [OF u(2)] Cons.prems(3) by (meson list.set_intros(2))
qed simp

text \<open>What a function records: it appends envelopes that all satisfy a predicate.\<close>

definition logs :: "(envelope \<Rightarrow> bool) \<Rightarrow> 'a logged \<Rightarrow> bool" where
  "logs P m \<longleftrightarrow> (\<forall>es. \<exists>d. snd (m es) = es @ d \<and> (\<forall>e\<in>set d. P e))"

lemma logsD: "logs P m \<Longrightarrow> m es = (r, es') \<Longrightarrow> \<exists>d. es' = es @ d \<and> (\<forall>e\<in>set d. P e)"
  unfolding logs_def by (metis snd_conv)

named_theorems logs_intros \<open>rules to show what a function records\<close>

lemma logs_lret [logs_intros]: "logs P (lret x)"
  by (simp add: logs_def lret_def)

lemma logs_llift [logs_intros]: "logs P (llift m)"
  by (simp add: logs_def llift_def)

lemma logs_llog [logs_intros]: "P e \<Longrightarrow> logs P (llog e)"
  by (simp add: logs_def llog_def)

lemma logs_lbind [logs_intros]:
  assumes "logs P m" "\<And>x. logs P (f x)" shows "logs P (lbind m f)"
  unfolding logs_def
proof
  fix es
  obtain r es1 where m: "m es = (r, es1)" by fastforce
  obtain d where d: "es1 = es @ d" "\<forall>e\<in>set d. P e" using logsD [OF assms(1) m] by blast
  show "\<exists>d. snd (lbind m f es) = es @ d \<and> (\<forall>e\<in>set d. P e)"
  proof (cases r)
    case (Inl x)
    then show ?thesis using d m by (simp add: lbind_def)
  next
    case (Inr x)
    obtain q es2 where f: "f x es1 = (q, es2)" by fastforce
    obtain d' where "es2 = es1 @ d'" "\<forall>e\<in>set d'. P e" using logsD [OF assms(2) f] by blast
    then show ?thesis using d m f Inr by (intro exI [of _ "d @ d'"]) (auto simp: lbind_def)
  qed
qed

lemma logs_lcatch [logs_intros]:
  assumes "logs P m" "logs P h" shows "logs P (lcatch m h)"
  unfolding logs_def
proof
  fix es
  obtain r es1 where m: "m es = (r, es1)" by fastforce
  obtain q es2 where h: "h es1 = (q, es2)" by fastforce
  obtain d where d: "es1 = es @ d" "\<forall>e\<in>set d. P e" using logsD [OF assms(1) m] by blast
  obtain d' where d': "es2 = es1 @ d'" "\<forall>e\<in>set d'. P e" using logsD [OF assms(2) h] by blast
  show "\<exists>d. snd (lcatch m h es) = es @ d \<and> (\<forall>e\<in>set d. P e)"
    using m h d d' by (cases r) (auto simp: lcatch_def intro: exI [of _ "d @ d'"])
qed

lemma logs_lfail [logs_intros]: "P e \<Longrightarrow> logs P (lfail e)"
  unfolding lfail_def by (intro logs_intros)

lemma logs_ltry [logs_intros]:
  assumes "logs P h" "\<And>x. logs P (k x)" shows "logs P (ltry m h k)"
  using assms by (cases m) (auto simp: logs_def ltry_def)

lemma logs_lfold [logs_intros]: "(\<And>x s. logs P (f x s)) \<Longrightarrow> logs P (lfold f xs s)"
  by (induction xs arbitrary: s) (auto intro: logs_intros)

lemma logs_cases [logs_intros]:
  "(b \<Longrightarrow> logs P m) \<Longrightarrow> (\<not> b \<Longrightarrow> logs P n) \<Longrightarrow> logs P (if b then m else n)"
  "(x = None \<Longrightarrow> logs P m) \<Longrightarrow> (\<And>y. x = Some y \<Longrightarrow> logs P (g y)) \<Longrightarrow>
     logs P (case x of None \<Rightarrow> m | Some y \<Rightarrow> g y)"
  "(ys = [] \<Longrightarrow> logs P m) \<Longrightarrow> (\<And>z zs. ys = z # zs \<Longrightarrow> logs P (h z zs)) \<Longrightarrow>
     logs P (case ys of [] \<Rightarrow> m | z # zs \<Rightarrow> h z zs)"
  "(\<And>u w. p = (u, w) \<Longrightarrow> logs P (k u w)) \<Longrightarrow> logs P (case p of (u, w) \<Rightarrow> k u w)"
  "logs P (l v) \<Longrightarrow> logs P (let z = v in l z)"
  "logs P m \<Longrightarrow> logs P n \<Longrightarrow> logs P (case b of True \<Rightarrow> m | False \<Rightarrow> n)"
  by (auto split: option.split list.split prod.split bool.split)

lemma logs_mono: "logs P m \<Longrightarrow> (\<And>e. P e \<Longrightarrow> Q e) \<Longrightarrow> logs Q m"
  unfolding logs_def by metis

text \<open>An invariant of a loop that may mention the elements done so far.\<close>

lemma lfold_prefix:
  assumes "lfold f xs s es = (Inr t, es')" "P [] s es"
    and "\<And>ys x zs s es t es'. xs = ys @ x # zs \<Longrightarrow> P ys s es \<Longrightarrow> f x s es = (Inr t, es') \<Longrightarrow> P (ys @ [x]) t es'"
  shows "P xs t es'"
proof -
  have "P (us @ vs) t es'" if "lfold f vs s es = (Inr t, es')" "P us s es" "xs = us @ vs" for us vs s es
    using that
  proof (induction vs arbitrary: us s es)
    case (Cons v vs)
    from Cons.prems(1) obtain u es1 where u: "f v s es = (Inr u, es1)" "lfold f vs u es1 = (Inr t, es')"
      by (auto simp: lbind_Inr)
    have "P (us @ [v]) u es1" using assms(3) [OF Cons.prems(3,2) u(1)] .
    then show ?case using Cons.IH [OF u(2) \<open>P (us @ [v]) u es1\<close>] Cons.prems(3) by simp
  qed simp
  from this [OF assms(1,2)] show ?thesis by simp
qed

text \<open>
  Evaluation at a concrete input, head first: the continuation of a step is not touched before the
  step has been evaluated.
\<close>

lemma logged_eval:
  "lbind (lret x) f = f x" "lbind (llift (Inr x)) f = f x" "lbind (llift (Inl y)) f = llift (Inl y)"
  "lbind (lbind m g) f = lbind m (\<lambda>x. lbind (g x) f)"
  "lbind (llog ev) k [] = k () [ev]" "lbind (llog ev) k (e # es) = k () (e # es @ [ev])"
  "lbind (lfail ev) h [] = h None [ev]" "lbind (lfail ev) h (e # es) = h None (e # es @ [ev])"
  "lfail ev [] = (Inr None, [ev])" "lfail ev (e # es) = (Inr None, e # es @ [ev])"
  "ltry (Inr x) q f = f x" "ltry (Inl ValueError) q f = q"
  "lfold w [] s = lret s" "lfold w (z # zs) s = lbind (w z s) (lfold w zs)"
  "lret x [] = (Inr x, [])" "lret x (e # es) = (Inr x, e # es)"
  "llift v [] = (v, [])" "llift v (e # es) = (v, e # es)"
  by (auto simp: logged_defs fun_eq_iff split: prod.split sum.split)

lemma eval_congs:
  "m = m' \<Longrightarrow> lbind m f = lbind m' f" "v = v' \<Longrightarrow> ltry v h k = ltry v' h k"
  "v = v' \<Longrightarrow> rbind v g = rbind v' g" "x = x' \<Longrightarrow> Let x w = Let x' w"
  by simp_all

lemma logs_prefix: "logs P m \<Longrightarrow> m es = (x, es') \<Longrightarrow> set es \<subseteq> set es'"
  by (drule (1) logsD) auto

lemma logs_any: "logs P m \<Longrightarrow> logs (\<lambda>_. True) m"
  by (erule logs_mono) simp

end
