(* ===== verification/Entities.thy ===== *)
theory Entities
  imports Contracts
begin

text \<open>
  The canonical masters and the voucher of \<open>app/pipeline/entities.py\<close>.  The common fields of the
  masters are a record that the records of the four master kinds extend.  A field the source
  declares \<open>Decimal\<close> holds a finite number: the model classes refuse the infinities and NaN, and
  \<open>finite\<close> is that check.
\<close>

section \<open>Dates\<close>

datatype date = Date (d_year: nat) (d_month: nat) (d_day: nat)

instantiation date :: linorder
begin

definition less_eq_date :: "date \<Rightarrow> date \<Rightarrow> bool" where
  "less_eq_date a b \<longleftrightarrow> d_year a < d_year b \<or> d_year a = d_year b \<and>
     (d_month a < d_month b \<or> d_month a = d_month b \<and> d_day a \<le> d_day b)"

definition less_date :: "date \<Rightarrow> date \<Rightarrow> bool" where
  "less_date a b \<longleftrightarrow> d_year a < d_year b \<or> d_year a = d_year b \<and>
     (d_month a < d_month b \<or> d_month a = d_month b \<and> d_day a < d_day b)"

instance
  by standard (auto simp: less_eq_date_def less_date_def intro: date.expand)

end

text \<open>Decimal digits padded with zeros to a width.\<close>

definition zfill :: "nat \<Rightarrow> string \<Rightarrow> string" where
  "zfill w s = replicate (w - length s) CHR ''0'' @ s"

definition fmt_date :: "date \<Rightarrow> string" where
  \<comment> \<open>\<open>strftime("%Y%m%d")\<close>\<close>
  "fmt_date d = zfill 4 (nat_str (d_year d)) @ zfill 2 (nat_str (d_month d)) @ zfill 2 (nat_str (d_day d))"

definition isoformat :: "date \<Rightarrow> string" where
  "isoformat d = zfill 4 (nat_str (d_year d)) @ ''-'' @ zfill 2 (nat_str (d_month d)) @ ''-'' @
     zfill 2 (nat_str (d_day d))"

section \<open>Masters\<close>

record master_base =
  m_source_row :: "nat option"
  m_name :: string
  m_action :: tally_action
  m_guid :: "string option"
  m_master_id :: "string option"
  m_alter_id :: "string option"
  m_old_name :: "string option"

record unit_master = master_base +
  u_is_simple :: bool
  u_decimal_places :: int
  u_base_units :: "string option"
  u_additional_units :: "string option"
  u_conversion :: "fdec option"

record group_master = master_base +
  g_parent :: string
  g_is_revenue :: "bool option"
  g_is_deemed_positive :: "bool option"
  g_is_billwise :: "bool option"
  g_affects_gross_profit :: "bool option"

record ledger_master = master_base +
  l_parent :: string
  l_opening_balance :: fdec
  l_opening_is_debit :: bool
  l_gst_registration_type :: "string option"
  l_gstin :: "string option"
  l_state :: "string option"
  l_country :: "string option"
  l_is_billwise :: "bool option"
  l_mailing_name :: "string option"
  l_address_lines :: "string list"
  l_pincode :: "string option"
  l_email :: "string option"
  l_phone :: "string option"
  l_credit_limit :: "fdec option"

record stock_item = master_base +
  i_parent :: string
  i_base_units :: string
  i_category :: "string option"
  i_description :: "string option"
  i_opening_qty :: "fdec option"
  i_opening_rate :: "fdec option"
  i_opening_value :: "fdec option"
  i_hsn_code :: "string option"
  i_gst_applicable :: bool

datatype master =
  MUnit unit_master | MGroup group_master | MItem stock_item | MLedger ledger_master

text \<open>The validator of \<open>name\<close> and that of \<open>ledger_name\<close>: stripped, and not empty.\<close>

definition strip_name :: "string \<Rightarrow> string res" where
  "strip_name v = (let s = strip v in if s = '''' then Inl ValueError else Inr s)"

fun finite_dec :: "dec \<Rightarrow> fdec res" where
  "finite_dec (Fin d) = Inr d"
| "finite_dec _ = Inl ValueError"

definition finite_opt :: "dec option \<Rightarrow> fdec option res" where
  "finite_opt x = (case x of None \<Rightarrow> Inr None | Some d \<Rightarrow> rbind (finite_dec d) (\<lambda>f. Inr (Some f)))"

section \<open>Vouchers\<close>

record voucher_line =
  vl_ledger :: string
  vl_is_debit :: bool
  vl_amount :: fdec
  vl_source_row :: "nat option"
  vl_stock_item :: "string option"
  vl_quantity :: "fdec option"
  vl_rate :: "fdec option"
  vl_unit :: "string option"

text \<open>A truthy optional string: present and not empty.\<close>

definition truthy :: "string option \<Rightarrow> bool" where
  "truthy s \<longleftrightarrow> (case s of None \<Rightarrow> False | Some t \<Rightarrow> t \<noteq> [])"

definition is_inventory :: "voucher_line \<Rightarrow> bool" where
  "is_inventory li \<longleftrightarrow> truthy (vl_stock_item li)"

text \<open>\<open>VoucherLine(...)\<close>: the field checks, then the validators of the name and the amount.\<close>

definition mk_line ::
    "string \<Rightarrow> bool \<Rightarrow> dec \<Rightarrow> nat option \<Rightarrow> string option \<Rightarrow> dec option \<Rightarrow> dec option \<Rightarrow>
     string option \<Rightarrow> voucher_line res" where
  "mk_line ledger dr amt src item qty rate un =
     rbind (strip_name ledger) (\<lambda>nm.
     rbind (finite_dec amt) (\<lambda>a.
     rbind (finite_opt qty) (\<lambda>q.
     rbind (finite_opt rate) (\<lambda>r.
       Inr \<lparr>vl_ledger = nm, vl_is_debit = dr, vl_amount = d_abs a, vl_source_row = src,
            vl_stock_item = item, vl_quantity = q, vl_rate = r, vl_unit = un\<rparr>))))"

abbreviation mk_ledger_line :: "string \<Rightarrow> bool \<Rightarrow> dec \<Rightarrow> nat option \<Rightarrow> voucher_line res" where
  "mk_ledger_line ledger dr amt src \<equiv> mk_line ledger dr amt src None None None None"

record voucher =
  v_type :: string
  v_date :: date
  v_lines :: "voucher_line list"
  v_action :: tally_action
  v_narration :: "string option"
  v_reference :: "string option"
  v_party_ledger :: "string option"
  v_party_gstin :: "string option"
  v_guid :: "string option"
  v_master_id :: "string option"
  v_source_row :: "nat option"

definition debit_total :: "voucher \<Rightarrow> fdec" where
  "debit_total v = d_sum (map vl_amount (filter vl_is_debit (v_lines v)))"

definition credit_total :: "voucher \<Rightarrow> fdec" where
  "credit_total v = d_sum (map vl_amount (filter (\<lambda>li. \<not> vl_is_debit li) (v_lines v)))"

definition is_balanced :: "voucher \<Rightarrow> bool" where
  "is_balanced v \<longleftrightarrow> 2 \<le> length (v_lines v) \<and> d_lt d_zero (debit_total v) \<and>
     d_eq (debit_total v) (credit_total v)"

section \<open>Facts\<close>

text \<open>A line never carries a negative amount nor a blank ledger, whatever it was built from.\<close>

definition line_wf :: "voucher_line \<Rightarrow> bool" where
  "line_wf li \<longleftrightarrow> \<not> dneg (vl_amount li) \<and> vl_ledger li \<noteq> [] \<and> strip (vl_ledger li) = vl_ledger li"

lemma strip_name_Inr: "strip_name v = Inr s \<longleftrightarrow> s = strip v \<and> s \<noteq> []"
  by (auto simp: strip_name_def Let_def)

lemma finite_dec_Inr: "finite_dec x = Inr d \<longleftrightarrow> x = Fin d"
  by (cases x) auto

lemma mk_line_Inr:
  assumes "mk_line ledger dr amt src item qty rate un = Inr li"
  shows "\<exists>a. amt = Fin a \<and> vl_amount li = d_abs a \<and> vl_is_debit li = dr \<and>
    vl_ledger li = strip ledger \<and> vl_stock_item li = item \<and> line_wf li"
  using assms by (auto simp: mk_line_def rbind_Inr strip_name_Inr finite_dec_Inr line_wf_def)

text \<open>The sum of the signed values of the lines, debits positive.\<close>

definition net_value :: "voucher_line list \<Rightarrow> rat" where
  "net_value ls = (\<Sum>li\<leftarrow>ls. if vl_is_debit li then val (vl_amount li) else - val (vl_amount li))"

lemma net_value_split:
  "net_value ls = (\<Sum>d\<leftarrow>map vl_amount (filter vl_is_debit ls). val d) -
     (\<Sum>d\<leftarrow>map vl_amount (filter (\<lambda>li. \<not> vl_is_debit li) ls). val d)"
  by (induction ls) (auto simp: net_value_def)

text \<open>
  Small enough for exact totals: amounts with at most \<open>k\<close> decimal places that together stay
  below 28 digits.
\<close>

definition exact_lines :: "nat \<Rightarrow> voucher_line list \<Rightarrow> bool" where
  "exact_lines k ls \<longleftrightarrow> (\<forall>li\<in>set ls. - int k \<le> dexp (vl_amount li)) \<and>
     (\<Sum>li\<leftarrow>ls. \<bar>scaled (- int k) (vl_amount li)\<bar>) < 10 ^ context_prec"

lemma exact_lines_filter:
  assumes "exact_lines k ls"
  shows "val (d_sum (map vl_amount (filter P ls))) = (\<Sum>d\<leftarrow>map vl_amount (filter P ls). val d)"
proof -
  have "(\<Sum>li\<leftarrow>filter P ls. f li) \<le> (\<Sum>li\<leftarrow>ls. f li)" if "\<And>x. 0 \<le> f x" for f :: "voucher_line \<Rightarrow> int"
    using that by (induction ls) (auto simp: add_increasing)
  from this [of "\<lambda>li. \<bar>scaled (- int k) (vl_amount li)\<bar>"]
  have "(\<Sum>d\<leftarrow>map vl_amount (filter P ls). \<bar>scaled (- int k) d\<bar>) < 10 ^ context_prec"
    using assms by (simp add: exact_lines_def comp_def)
  then show ?thesis
    using d_sum_exact [of "- int k" "map vl_amount (filter P ls)"] assms
    by (simp add: exact_lines_def)
qed

lemma balanced_net_value:
  "exact_lines k (v_lines v) \<Longrightarrow> is_balanced v \<Longrightarrow> net_value (v_lines v) = 0"
  by (simp add: is_balanced_def debit_total_def credit_total_def d_eq_iff net_value_split
      exact_lines_filter)

end
