(* ===== verification/Coercion.thy ===== *)
theory Coercion
  imports Entities
begin

text \<open>
  \<open>app/pipeline/coercion.py\<close>: from the cells of an upload to typed values, and from one mapped
  row to a canonical master.  A cell is what a data frame hands out: a missing key or null, text, a
  number (kept as the text Python prints for it), or a date.  Parsing of a date's text is the data
  frame library's; it is the parameter \<open>to_datetime\<close> (day first, text), \<open>None\<close> where it raises or
  returns a null.
\<close>

section \<open>Cells and rows\<close>

datatype cell = CNone | CNA | CStr string | CNum string | CDate date string

type_synonym row = "string \<rightharpoonup> cell"

type_synonym date_parser = "bool \<Rightarrow> string \<Rightarrow> date option"

definition rget :: "row \<Rightarrow> string \<Rightarrow> cell" where
  "rget r k = (case r k of None \<Rightarrow> CNone | Some c \<Rightarrow> c)"

fun py_str :: "cell \<Rightarrow> string" where
  "py_str CNone = ''None''"
| "py_str CNA = ''nan''"
| "py_str (CStr s) = s"
| "py_str (CNum s) = s"
| "py_str (CDate d s) = s"

section \<open>Single values\<close>

definition nullish :: "string list" where
  "nullish = ['''', ''na'', ''n/a'', ''nan'', ''none'', ''null'', ''nil'', ''-'', ''--'']"

definition true_tokens :: "string list" where
  "true_tokens = [''yes'', ''y'', ''true'', ''t'', ''1'', ''on'']"

definition false_tokens :: "string list" where
  "false_tokens = [''no'', ''n'', ''false'', ''f'', ''0'', ''off'']"

definition is_blank :: "cell \<Rightarrow> bool" where
  "is_blank c \<longleftrightarrow> c = CNone \<or> c = CNA \<or> lower (strip (py_str c)) \<in> set nullish"

definition coerce_str :: "cell \<Rightarrow> string option" where
  "coerce_str c = (if is_blank c then None else Some (strip (py_str c)))"

definition coerce_bool :: "cell \<Rightarrow> bool option res" where
  "coerce_bool c =
     (if is_blank c then Inr None
      else let token = lower (strip (py_str c)) in
        if token \<in> set true_tokens then Inr (Some True)
        else if token \<in> set false_tokens then Inr (Some False)
        else Inl ValueError)"

text \<open>
  The two patterns the amounts are cleaned with.  A word pattern \<open>\b(w1|w2|...)\b\.?\<close> without
  regard to case deletes a maximal run of word characters that is one of the words, and a dot after
  it; the currency pattern deletes the symbols too.  \<open>prev\<close> tells whether the character before is
  a word character.
\<close>

definition is_currency_symbol :: "char \<Rightarrow> bool" where
  "is_currency_symbol c \<longleftrightarrow> (ord c :: nat) \<in> {8377, 36, 8364, 163, 165}"

definition currency_words :: "string list" where
  "currency_words = [''rs'', ''inr'', ''usd'', ''eur'']"

definition drcr_words :: "string list" where
  "drcr_words = [''dr'', ''cr'', ''debit'', ''credit'']"

definition drop_dot :: "string \<Rightarrow> string" where
  "drop_dot s = (case s of [] \<Rightarrow> [] | c # cs \<Rightarrow> if c = CHR ''.'' then cs else s)"

lemma length_drop_dot: "length (drop_dot s) \<le> length s"
  by (auto simp: drop_dot_def split: list.splits)

function sub_words :: "(char \<Rightarrow> bool) \<Rightarrow> string list \<Rightarrow> bool \<Rightarrow> string \<Rightarrow> string" where
  "sub_words sy ws prev [] = []"
| "sub_words sy ws prev (c # cs) =
     (if sy c then sub_words sy ws False cs
      else if \<not> prev \<and> is_word c \<and> lower (takeWhile is_word (c # cs)) \<in> set ws
      then let r = dropWhile is_word cs in
           sub_words sy ws (drop_dot r = r) (drop_dot r)
      else c # sub_words sy ws (is_word c) cs)"
  by pat_completeness auto
termination
  by (relation "measure (\<lambda>(_, _, _, s). length s)")
    (auto intro!: le_imp_less_Suc intro: order_trans [OF length_drop_dot] length_dropWhile_le)

definition strip_currency :: "string \<Rightarrow> string" where
  "strip_currency s = sub_words is_currency_symbol currency_words False s"

definition strip_drcr :: "string \<Rightarrow> string" where
  "strip_drcr s = sub_words (\<lambda>_. False) drcr_words False s"

text \<open>\<open>_DRCR_SUFFIX.search\<close>: the first such word, in lower case.\<close>

fun find_word :: "string list \<Rightarrow> bool \<Rightarrow> string \<Rightarrow> string option" where
  "find_word ws prev [] = None"
| "find_word ws prev (c # cs) =
     (let w = lower (takeWhile is_word (c # cs)) in
      if \<not> prev \<and> is_word c \<and> w \<in> set ws then Some w else find_word ws (is_word c) cs)"

definition starts_with :: "string \<Rightarrow> string \<Rightarrow> bool" where
  "starts_with p s \<longleftrightarrow> take (length p) s = p"

fun is_infix :: "string \<Rightarrow> string \<Rightarrow> bool" where
  \<comment> \<open>\<open>m in s\<close>\<close>
  "is_infix m [] \<longleftrightarrow> m = []"
| "is_infix m (c # cs) \<longleftrightarrow> starts_with m (c # cs) \<or> is_infix m cs"

definition ends_with :: "string \<Rightarrow> string \<Rightarrow> bool" where
  "ends_with p s \<longleftrightarrow> length p \<le> length s \<and> drop (length s - length p) s = p"

definition coerce_decimal_text :: "string \<Rightarrow> dec option res" where
  "coerce_decimal_text raw =
     (let t0 = strip raw;
          paren = starts_with ''('' t0 \<and> ends_with '')'' t0;
          t1 = (if paren then tl (butlast t0) else t0);
          t2 = strip_drcr (strip_currency t1);
          t3 = strip (filter (\<lambda>c. c \<notin> {CHR '','', CHR ''_'', CHR '' ''}) t2);
          neg1 = (if ends_with ''-'' t3 then \<not> paren else paren);
          t4 = (if ends_with ''-'' t3 then butlast t3 else t3);
          t5 = (if starts_with ''+'' t4 then tl t4 else t4);
          neg2 = (if starts_with ''-'' t5 then \<not> neg1 else neg1);
          t6 = (if starts_with ''-'' t5 then tl t5 else t5)
      in if t6 = '''' \<or> t6 = ''.'' then Inr None
         else case dec_of_string t6 of
             None \<Rightarrow> Inl ValueError
           | Some m \<Rightarrow> if neg2 then rbind (of_trap (dec_neg m)) (\<lambda>d. Inr (Some d)) else Inr (Some m))"

definition coerce_decimal :: "cell \<Rightarrow> dec option res" where
  "coerce_decimal c =
     (if is_blank c then Inr None
      else case c of
          CNum s \<Rightarrow> (case dec_of_string s of None \<Rightarrow> Inl ValueError | Some d \<Rightarrow> Inr (Some d))
        | _ \<Rightarrow> coerce_decimal_text (py_str c))"

text \<open>The prefix test \<open>^\d{4}-\d{1,2}-\d{1,2}\<close>.\<close>

definition iso_date_prefix :: "string \<Rightarrow> bool" where
  "iso_date_prefix s \<longleftrightarrow>
     (let y = takeWhile is_dec_digit s; r = dropWhile is_dec_digit s;
          m = takeWhile is_dec_digit (tl r); q = dropWhile is_dec_digit (tl r);
          d = takeWhile is_dec_digit (tl q)
      in length y = 4 \<and> starts_with ''-'' r \<and> length m \<in> {1, 2} \<and> starts_with ''-'' q \<and> d \<noteq> [])"

definition coerce_date :: "date_parser \<Rightarrow> cell \<Rightarrow> date option res" where
  "coerce_date to_datetime c =
     (if is_blank c then Inr None
      else case c of
          CDate d s \<Rightarrow> Inr (Some d)
        | _ \<Rightarrow>
          let text = strip (py_str c); dayfirst = \<not> iso_date_prefix text in
          (case to_datetime dayfirst text of None \<Rightarrow> Inl ValueError | Some d \<Rightarrow> Inr (Some d)))"

definition drcr_of_token :: "string option \<Rightarrow> bool option" where
  "drcr_of_token t =
     (case t of None \<Rightarrow> None
      | Some s \<Rightarrow> if lower s \<in> {''dr'', ''debit'', ''d''} then Some True
                   else if lower s \<in> {''cr'', ''credit'', ''c''} then Some False else None)"

definition drcr_of_amount :: "cell \<Rightarrow> bool option" where
  "drcr_of_amount c =
     (case c of
        CStr s \<Rightarrow> map_option (\<lambda>w. w \<in> {''dr'', ''debit''}) (find_word drcr_words False s)
      | _ \<Rightarrow> None)"

definition coerce_amount_drcr :: "cell \<Rightarrow> cell \<Rightarrow> (dec \<times> bool) option res" where
  "coerce_amount_drcr amount drcr =
     rbind (coerce_decimal amount) (\<lambda>parsed.
       case parsed of
         None \<Rightarrow> Inr None
       | Some p \<Rightarrow>
         let explicit = (case drcr_of_token (coerce_str drcr) of
                           Some b \<Rightarrow> Some b | None \<Rightarrow> drcr_of_amount amount) in
         rbind (case explicit of Some b \<Rightarrow> Inr b
                | None \<Rightarrow> of_trap (dec_le (Fin d_zero) p)) (\<lambda>is_debit.
         rbind (of_trap (dec_abs p)) (\<lambda>a. Inr (Some (a, is_debit)))))"


section \<open>Rows to masters\<close>

definition row_err :: "entity_type \<Rightarrow> nat option \<Rightarrow> string \<Rightarrow> error_code \<Rightarrow> envelope" where
  "row_err ent row col code = field_err ent row col code CONVERT Sev_Error"

definition row_action :: "row \<Rightarrow> tally_action" where
  "row_action r =
     (case coerce_str (rget r ''_action'') of
        Some d \<Rightarrow> if lower d = ''alter'' then ALTER else CREATE
      | None \<Rightarrow> CREATE)"

text \<open>
  The helpers \<open>num\<close> and \<open>flag\<close> record an envelope for a bad cell and go on with a null.
\<close>

definition num_field :: "entity_type \<Rightarrow> nat option \<Rightarrow> row \<Rightarrow> string \<Rightarrow> dec option logged" where
  "num_field ent src r f =
     lcatch (llift (coerce_decimal (rget r f))) (lfail (row_err ent src f BAD_DECIMAL))"

definition flag_field :: "entity_type \<Rightarrow> nat option \<Rightarrow> row \<Rightarrow> string \<Rightarrow> bool option logged" where
  "flag_field ent src r f =
     lcatch (llift (coerce_bool (rget r f))) (lfail (row_err ent src f VALUE_NOT_ALLOWED))"

definition common_fields :: "string \<Rightarrow> nat option \<Rightarrow> row \<Rightarrow> master_base" where
  "common_fields name src r =
     \<lparr>m_source_row = src, m_name = name, m_action = row_action r,
      m_guid = coerce_str (rget r ''guid''), m_master_id = None, m_alter_id = None,
      m_old_name = coerce_str (rget r ''old_name'')\<rparr>"

text \<open>\<open>int(d)\<close>: truncation; the infinities overflow, a NaN is no value.\<close>

fun dec_trunc :: "dec \<Rightarrow> int res" where
  "dec_trunc (Fin d) =
     Inr (if 0 \<le> dexp d then sint_of d * 10 ^ nat (dexp d)
          else (if dneg d then - 1 else 1) * int (dcoef d div 10 ^ nat (- dexp d)))"
| "dec_trunc (Infi _) = Inl OverflowError"
| "dec_trunc _ = Inl ValueError"

definition or_else :: "string option \<Rightarrow> string \<Rightarrow> string" where
  "or_else s d = (case s of None \<Rightarrow> d | Some t \<Rightarrow> t)"

definition unit_of_row :: "string \<Rightarrow> nat option \<Rightarrow> row \<Rightarrow> master option logged" where
  "unit_of_row name src r =
     lbind (num_field UNIT src r ''decimal_places'') (\<lambda>dp.
     lbind (llift (case dp of None \<Rightarrow> Inr 0 | Some d \<Rightarrow> dec_trunc d)) (\<lambda>places.
     lbind (num_field UNIT src r ''conversion'') (\<lambda>conv.
     lbind (llift (finite_opt conv)) (\<lambda>c.
       lret (Some (MUnit (master_base.extend (common_fields name src r)
         (unit_master.fields (coerce_str (rget r ''base_units'') = None) places
                (coerce_str (rget r ''base_units''))
                (coerce_str (rget r ''additional_units'')) c))))))))"

definition group_of_row :: "string \<Rightarrow> nat option \<Rightarrow> row \<Rightarrow> master option logged" where
  "group_of_row name src r =
     lbind (flag_field GROUP src r ''is_revenue'') (\<lambda>rev.
     lbind (flag_field GROUP src r ''is_deemed_positive'') (\<lambda>pos.
     lbind (flag_field GROUP src r ''is_billwise'') (\<lambda>bill.
       lret (Some (MGroup (master_base.extend (common_fields name src r)
         (group_master.fields (or_else (coerce_str (rget r ''parent'')) ''Primary'') rev
                pos bill None)))))))"

definition ledger_of_row :: "string \<Rightarrow> nat option \<Rightarrow> row \<Rightarrow> master option logged" where
  "ledger_of_row name src r =
     (case coerce_str (rget r ''parent'') of
        None \<Rightarrow> lfail (row_err LEDGER src ''parent'' REQUIRED_MISSING)
      | Some parent \<Rightarrow>
          lbind (llift (coerce_amount_drcr (rget r ''opening_balance'') (rget r ''opening_balance_drcr''))) (\<lambda>ob.
          lbind (flag_field LEDGER src r ''is_billwise'') (\<lambda>bill.
          lbind (num_field LEDGER src r ''credit_limit'') (\<lambda>limit.
          lbind (llift (case ob of None \<Rightarrow> Inr d_zero | Some (b, _) \<Rightarrow> finite_dec b)) (\<lambda>opening.
          lbind (llift (finite_opt limit)) (\<lambda>credit.
            lret (Some (MLedger (master_base.extend (common_fields name src r)
              (ledger_master.fields parent opening
                (case ob of None \<Rightarrow> True | Some (_, dr) \<Rightarrow> dr)
                (coerce_str (rget r ''gst_registration_type''))
                (coerce_str (rget r ''gstin'')) (coerce_str (rget r ''state''))
                (Some ''India'') bill (coerce_str (rget r ''mailing_name'')) []
                (coerce_str (rget r ''pincode'')) (coerce_str (rget r ''email''))
                (coerce_str (rget r ''phone'')) credit))))))))))"

definition item_of_row :: "string \<Rightarrow> nat option \<Rightarrow> row \<Rightarrow> master option logged" where
  "item_of_row name src r =
     (case coerce_str (rget r ''base_units'') of
        None \<Rightarrow> lfail (row_err STOCK_ITEM src ''base_units'' REQUIRED_MISSING)
      | Some base \<Rightarrow>
          lbind (num_field STOCK_ITEM src r ''opening_qty'') (\<lambda>qty.
          lbind (num_field STOCK_ITEM src r ''opening_rate'') (\<lambda>rate.
          lbind (num_field STOCK_ITEM src r ''opening_value'') (\<lambda>value.
          lbind (flag_field STOCK_ITEM src r ''gst_applicable'') (\<lambda>gst.
          lbind (llift (finite_opt qty)) (\<lambda>q.
          lbind (llift (finite_opt rate)) (\<lambda>rt.
          lbind (llift (finite_opt value)) (\<lambda>vl.
            lret (Some (MItem (master_base.extend (common_fields name src r)
              (stock_item.fields (or_else (coerce_str (rget r ''parent'')) ''Primary'') base
                None None q rt vl (coerce_str (rget r ''hsn'')) (gst = Some True)))))))))))))"

definition row_to_master :: "entity_type \<Rightarrow> row \<Rightarrow> nat option \<Rightarrow> master option logged" where
  "row_to_master ent r src =
     (case coerce_str (rget r ''name'') of
        None \<Rightarrow> lfail (row_err ent src ''name'' REQUIRED_MISSING)
      | Some name \<Rightarrow>
          lcatch
            (case ent of
               UNIT \<Rightarrow> unit_of_row name src r
             | GROUP \<Rightarrow> group_of_row name src r
             | LEDGER \<Rightarrow> ledger_of_row name src r
             | STOCK_ITEM \<Rightarrow> item_of_row name src r
             | VOUCHER \<Rightarrow> llift (Inl ValueError))
            (lfail (row_err ent src ''name'' VALIDATION_ERROR)))"

section \<open>Facts\<close>

lemma or_else_simps [simp]: "or_else None d = d" "or_else (Some x) d = x"
  by (simp_all add: or_else_def)

lemma coerce_str_strip: "coerce_str c = Some s \<Longrightarrow> strip s = s \<and> s \<noteq> []"
  by (auto simp: coerce_str_def is_blank_def nullish_def lower_def split: if_splits)

lemma blank_CNone [simp]: "is_blank CNone" "coerce_str CNone = None"
  by (simp_all add: is_blank_def coerce_str_def)

end
