(* ===== verification/Gst.thy ===== *)
theory Gst
  imports Coercion
begin

text \<open>
  \<open>app/pipeline/gst.py\<close>: place of supply and the split of the goods and services tax.  The
  amount \<open>compute_gst\<close> is given is a decimal, the rate a cell of the upload.
\<close>

section \<open>States\<close>

definition state_codes :: "(string, string) dict" where
  "state_codes =
     [(''01'', ''Jammu and Kashmir''), (''02'', ''Himachal Pradesh''), (''03'', ''Punjab''),
      (''04'', ''Chandigarh''), (''05'', ''Uttarakhand''), (''06'', ''Haryana''), (''07'', ''Delhi''),
      (''08'', ''Rajasthan''), (''09'', ''Uttar Pradesh''), (''10'', ''Bihar''), (''11'', ''Sikkim''),
      (''12'', ''Arunachal Pradesh''), (''13'', ''Nagaland''), (''14'', ''Manipur''),
      (''15'', ''Mizoram''), (''16'', ''Tripura''), (''17'', ''Meghalaya''), (''18'', ''Assam''),
      (''19'', ''West Bengal''), (''20'', ''Jharkhand''), (''21'', ''Odisha''),
      (''22'', ''Chhattisgarh''), (''23'', ''Madhya Pradesh''), (''24'', ''Gujarat''),
      (''25'', ''Daman and Diu''), (''26'', ''Dadra and Nagar Haveli''), (''27'', ''Maharashtra''),
      (''28'', ''Andhra Pradesh''), (''29'', ''Karnataka''), (''30'', ''Goa''), (''31'', ''Lakshadweep''),
      (''32'', ''Kerala''), (''33'', ''Tamil Nadu''), (''34'', ''Puducherry''),
      (''35'', ''Andaman and Nicobar Islands''), (''36'', ''Telangana''), (''37'', ''Andhra Pradesh''),
      (''38'', ''Ladakh'')]"

definition state_abbrevs :: "(string, string) dict" where
  "state_abbrevs =
     [(''jk'', ''Jammu and Kashmir''), (''hp'', ''Himachal Pradesh''), (''pb'', ''Punjab''),
      (''ch'', ''Chandigarh''), (''uk'', ''Uttarakhand''), (''ua'', ''Uttarakhand''),
      (''hr'', ''Haryana''), (''dl'', ''Delhi''), (''rj'', ''Rajasthan''), (''up'', ''Uttar Pradesh''),
      (''br'', ''Bihar''), (''sk'', ''Sikkim''), (''ar'', ''Arunachal Pradesh''), (''nl'', ''Nagaland''),
      (''mn'', ''Manipur''), (''mz'', ''Mizoram''), (''tr'', ''Tripura''), (''ml'', ''Meghalaya''),
      (''as'', ''Assam''), (''wb'', ''West Bengal''), (''jh'', ''Jharkhand''), (''od'', ''Odisha''),
      (''or'', ''Odisha''), (''cg'', ''Chhattisgarh''), (''mp'', ''Madhya Pradesh''),
      (''gj'', ''Gujarat''), (''mh'', ''Maharashtra''), (''ka'', ''Karnataka''), (''ga'', ''Goa''),
      (''kl'', ''Kerala''), (''tn'', ''Tamil Nadu''), (''py'', ''Puducherry''), (''tg'', ''Telangana''),
      (''ts'', ''Telangana''), (''ap'', ''Andhra Pradesh''), (''la'', ''Ladakh'')]"

definition gstin_len :: nat where
  "gstin_len = 15"

definition state_names :: "string list" where
  "state_names = dedup (map snd state_codes @ map snd state_abbrevs)"

text \<open>An argument that is \<open>None\<close> counts as the empty text.\<close>

definition normalize_state :: "string option \<Rightarrow> string" where
  "normalize_state value =
     (let s = join '' '' (split_ws (strip (or_else value ''''))); key = casefold s in
      if s = '''' then ''''
      else if list_all is_digit s then or_else (dget state_codes (zfill 2 s)) s
      else if length key = 2 \<and> dget state_abbrevs key \<noteq> None then the (dget state_abbrevs key)
      else or_else (find (\<lambda>nm. key = casefold nm) state_names) key)"

definition state_from_gstin :: "string option \<Rightarrow> string" where
  "state_from_gstin gstin =
     (let g = upper (strip (or_else gstin '''')) in
      if length g = gstin_len \<and> list_all is_digit (take 2 g)
      then or_else (dget state_codes (take 2 g)) '''' else '''')"

definition is_intra_state :: "string option \<Rightarrow> string option \<Rightarrow> bool option" where
  "is_intra_state buyer_state home_state =
     (let b = normalize_state buyer_state; h = normalize_state home_state in
      if b = '''' \<or> h = '''' then None else Some (b = h))"

section \<open>The tax split\<close>

text \<open>\<open>_dec\<close> of a decimal prints and reads it back; of a cell it reads the text without commas.\<close>

definition gst_dec :: "cell \<Rightarrow> dec option" where
  "gst_dec c = dec_of_string (strip (filter (\<lambda>x. x \<noteq> CHR '','') (py_str c)))"

record gst_breakup =
  b_taxable :: dec
  b_rate :: dec
  b_intra :: bool
  b_cgst :: dec
  b_sgst :: dec
  b_igst :: dec

definition total_tax :: "gst_breakup \<Rightarrow> dec trap" where
  "total_tax b = (case dec_add (b_cgst b) (b_sgst b) of Inl e \<Rightarrow> Inl e | Inr s \<Rightarrow> dec_add s (b_igst b))"

definition gst_components :: "gst_breakup \<Rightarrow> (string \<times> dec) list" where
  "gst_components b =
     (if b_intra b
      then (if dec_truthy (b_cgst b) then [(''CGST'', b_cgst b)] else []) @
           (if dec_truthy (b_sgst b) then [(''SGST'', b_sgst b)] else [])
      else if dec_truthy (b_igst b) then [(''IGST'', b_igst b)] else [])"

definition gst_total :: "dec \<Rightarrow> dec \<Rightarrow> dec res" where
  "gst_total amt rate =
     rbind (of_trap (dec_mul amt rate)) (\<lambda>p.
     rbind (of_trap (dec_div_fin p (Dec False 100 0))) (\<lambda>q. of_trap (dec_quantize Half_Up q)))"

definition compute_gst :: "dec \<Rightarrow> cell \<Rightarrow> bool \<Rightarrow> gst_breakup option res" where
  "compute_gst taxable rate_pct intra =
     (case gst_dec rate_pct of
        None \<Rightarrow> Inr None
      | Some rate \<Rightarrow>
          rbind (of_trap (dec_lt rate (Fin d_zero))) (\<lambda>neg.
            if neg then Inr None
            else
              rbind (of_trap (dec_abs taxable)) (\<lambda>amt.
              rbind (gst_total amt rate) (\<lambda>total.
                if intra
                then
                  rbind (of_trap (dec_div_fin total (Dec False 2 0))) (\<lambda>half.
                  rbind (of_trap (dec_quantize Half_Up half)) (\<lambda>cgst.
                  rbind (of_trap (dec_sub total cgst)) (\<lambda>sgst.
                    Inr (Some \<lparr>b_taxable = amt, b_rate = rate, b_intra = True, b_cgst = cgst,
                               b_sgst = sgst, b_igst = Fin d_zero\<rparr>))))
                else Inr (Some \<lparr>b_taxable = amt, b_rate = rate, b_intra = False,
                                b_cgst = Fin d_zero, b_sgst = Fin d_zero, b_igst = total\<rparr>)))))"

text \<open>The rounded tax on a finite amount at a finite rate, as \<open>gst_total\<close> computes it.\<close>

definition tax_total :: "fdec \<Rightarrow> fdec \<Rightarrow> fdec" where
  "tax_total amt rate = d_rescale Half_Up (d_div (d_mul (d_abs amt) rate) (Dec False 100 0))"

section \<open>Facts about states\<close>

lemma is_digit_lower_char: "is_digit (lower_char c) = is_digit c"
  unfolding is_digit_def is_dec_digit_def ord_lower_char by auto

lemma casefold_space: "is_space c \<Longrightarrow> casefold [c] = [c]"
  by (auto simp: casefold_def is_space_def lower_char_def Let_def)

lemma casefold_no_space: "\<forall>c\<in>set w. \<not> is_space c \<Longrightarrow> \<forall>c\<in>set (casefold w). \<not> is_space c"
proof (induction w)
  case (Cons a w)
  have "\<not> is_space CHR ''s''" by (simp add: is_space_def)
  with Cons show ?case by (simp add: casefold_def is_space_lower_char)
qed (simp add: casefold_def)

lemma word_list_casefold: "word_list ws \<Longrightarrow> word_list (map casefold ws)"
proof -
  assume w: "word_list ws"
  have "casefold v \<noteq> [] \<and> (\<forall>c\<in>set (casefold v). \<not> is_space c)" if "v \<in> set ws" for v
    using casefold_no_space [of v] w that by (simp add: word_list_def pystr)
  then show ?thesis by (simp add: word_list_def)
qed

lemma casefold_join: "casefold (join '' '' ws) = join '' '' (map casefold ws)"
proof (induction "'' ''" ws rule: join.induct)
  case (3 w v ws)
  have "casefold '' '' = '' ''" by (rule casefold_space) (simp add: is_space_def)
  then have "casefold (CHR '' '' # t) = CHR '' '' # casefold t" for t
    using casefold_append [of "'' ''" t] by simp
  with 3 show ?case by (simp add: pystr)
qed (simp_all add: pystr)

lemma words_casefold:
  "join '' '' (split_ws (strip (casefold (join '' '' (split_ws s))))) = casefold (join '' '' (split_ws s))"
  using word_list_casefold [OF word_list_split_ws [of s]]
  by (simp add: casefold_join strip_join split_ws_join)

lemma digits_casefold: "list_all is_digit (casefold s) \<Longrightarrow> list_all is_digit s"
proof (induction s)
  case (Cons c s)
  have "\<not> is_digit CHR ''s''" by (simp add: is_digit_def is_dec_digit_def)
  with Cons show ?case by (auto simp: casefold_def is_digit_lower_char split: if_splits)
qed simp

lemma state_names_distinct: "distinct (map casefold state_names)"
  by code_simp

lemma state_names_clean:
  "list_all (\<lambda>nm. join '' '' (split_ws (strip nm)) = nm \<and> \<not> list_all is_digit nm \<and> length (casefold nm) \<noteq> 2) state_names"
  by code_simp

lemma find_distinct:
  "distinct (map f xs) \<Longrightarrow> x \<in> set xs \<Longrightarrow> find (\<lambda>y. f x = f y) xs = Some x"
  by (induction xs) (auto, metis image_eqI)

lemma state_names_fixed: "nm \<in> set state_names \<Longrightarrow> normalize_state (Some nm) = nm"
proof -
  assume nm: "nm \<in> set state_names"
  then have c: "join '' '' (split_ws (strip nm)) = nm" "\<not> list_all is_digit nm" "length (casefold nm) \<noteq> 2"
    using state_names_clean by (simp_all add: list_all_iff)
  have "nm \<noteq> []" using c(2) by auto
  then show ?thesis
    using c find_distinct [OF state_names_distinct nm] by (simp add: normalize_state_def Let_def)
qed

text \<open>The words of an argument, and what can become of them.\<close>

abbreviation words_of :: "string option \<Rightarrow> string" where
  "words_of v \<equiv> join '' '' (split_ws (strip (or_else v '''')))"

lemma normalize_state_text:
  "words_of v = s \<Longrightarrow> normalize_state v =
     (if s = '''' then ''''
      else if list_all is_digit s then or_else (dget state_codes (zfill 2 s)) s
      else if length (casefold s) = 2 \<and> dget state_abbrevs (casefold s) \<noteq> None then the (dget state_abbrevs (casefold s))
      else or_else (find (\<lambda>nm. casefold s = casefold nm) state_names) (casefold s))"
  unfolding normalize_state_def Let_def by (simp only:)

lemma normalize_state_cases:
  obtains (name) "normalize_state v \<in> set state_names"
  | (blank) "normalize_state v = ''''"
  | (digits) "list_all is_digit (words_of v)" "normalize_state v = words_of v"
      "dget state_codes (zfill 2 (words_of v)) = None"
  | (other) "\<not> list_all is_digit (words_of v)" "normalize_state v = casefold (words_of v)" "words_of v \<noteq> ''''"
      "\<not> (length (casefold (words_of v)) = 2 \<and> dget state_abbrevs (casefold (words_of v)) \<noteq> None)"
      "find (\<lambda>nm. casefold (words_of v) = casefold nm) state_names = None"
proof -
  define s where "s = words_of v"
  have n: "set state_names = snd ` set state_codes \<union> snd ` set state_abbrevs"
    by (simp add: state_names_def)
  have f: "find P state_names = Some nm \<Longrightarrow> nm \<in> set state_names" for P nm
    using find_Some_iff [of P state_names nm] nth_mem by metis
  have a: "dget d k = Some nm \<Longrightarrow> nm \<in> snd ` set d" for d :: "(string, string) dict" and k nm
    by (force dest: map_of_SomeD)
  note v = normalize_state_text [of v s, OF s_def [symmetric]]
  show thesis
  proof (cases "s = [] \<or> list_all is_digit s")
    case True
    then show ?thesis
      using v a [of state_codes "zfill 2 s"] n blank name digits unfolding s_def [symmetric]
      by (cases "s = []"; cases "dget state_codes (zfill 2 s)") auto
  next
    case False
    show ?thesis
    proof (cases "length (casefold s) = 2 \<and> dget state_abbrevs (casefold s) \<noteq> None")
      case True
      then obtain nm where "dget state_abbrevs (casefold s) = Some nm" by auto
      with True False v a [OF this] n show ?thesis by (intro name) simp
    next
      case F2: False
      show ?thesis
      proof (cases "find (\<lambda>nm. casefold s = casefold nm) state_names")
        case None
        have "normalize_state v = casefold s" unfolding v if_not_P [OF F2] None using False by simp
        with other None False F2 show ?thesis unfolding s_def [symmetric] by blast
      next
        case (Some nm)
        have "normalize_state v = nm" unfolding v if_not_P [OF F2] Some using False by simp
        with f [OF Some] show ?thesis by (intro name) simp
      qed
    qed
  qed
qed

lemma normalize_state_idem: "normalize_state (Some (normalize_state v)) = normalize_state v"
proof (cases v rule: normalize_state_cases)
  case name
  then show ?thesis by (rule state_names_fixed)
next
  case blank
  then show ?thesis by (simp add: normalize_state_def split_ws_def)
next
  case digits
  have "words_of (Some (words_of v)) = words_of v"
    by (simp add: strip_join split_ws_join word_list_split_ws)
  then show ?thesis using digits by (simp add: normalize_state_def)
next
  case other
  have "\<not> list_all is_digit (casefold (words_of v))" using other(1) digits_casefold by blast
  moreover have "casefold (words_of v) \<noteq> ''''" using other(3) by (simp add: pystr)
  moreover have w: "words_of (Some (casefold (words_of v))) = casefold (words_of v)"
    by (simp add: words_casefold)
  ultimately have "normalize_state (Some (casefold (words_of v))) =
      or_else (find (\<lambda>nm. casefold (words_of v) = casefold nm) state_names) (casefold (words_of v))"
    unfolding normalize_state_text [OF w] casefold_idem if_not_P [OF other(4)]
    by simp
  then show ?thesis unfolding other(2,5) by simp
qed

lemma is_intra_state_normalized:
  "is_intra_state (Some (normalize_state b)) (Some (normalize_state h)) = is_intra_state b h"
  by (simp add: is_intra_state_def normalize_state_idem)

section \<open>Facts about the split\<close>

lemma val_paisa: "dexp d = - 2 \<Longrightarrow> val d = of_int (sint_of d) / 100"
  by (simp add: val_def)

lemma d_sub_paisa:
  assumes "dexp a = - 2" "dexp b = - 2" "\<bar>sint_of a - sint_of b\<bar> < 10 ^ context_prec"
  shows "dexp (d_sub a b) = - 2" "val (d_sub a b) = of_int (sint_of a - sint_of b) / 100"
    "sint_of (d_sub a b) = sint_of a - sint_of b"
proof -
  have "\<bar>scaled (- 2) a - scaled (- 2) b\<bar> < 10 ^ context_prec" using assms by (simp add: scaled_def)
  from d_sub_exact [OF _ _ this] assms
  show d: "dexp (d_sub a b) = - 2" and v: "val (d_sub a b) = of_int (sint_of a - sint_of b) / 100"
    by (simp_all add: val_paisa diff_divide_distrib)
  show "sint_of (d_sub a b) = sint_of a - sint_of b" using val_paisa [OF d] v by simp
qed

text \<open>Rounding half of a number of paisa: within half a paisa of the half.\<close>

lemma half_paisa:
  assumes "dexp t = - 2" "dcoef t * 5 < 10 ^ context_prec"
  defines "h \<equiv> d_rescale Half_Up (d_div t (Dec False 2 0))"
  shows "\<bar>2 * sint_of h - sint_of t\<bar> \<le> 1" and "dcoef h \<le> dcoef t + 1"
proof -
  have v: "val (d_div t (Dec False 2 0)) = of_int (sint_of t) / 200"
    using d_div_2 [OF assms(2)] assms(1) by (simp add: val_paisa)
  have "\<bar>val h - of_int (sint_of t) / 200\<bar> \<le> 1 / 200"
    unfolding h_def v [symmetric] by (rule d_rescale_close)
  then have c: "\<bar>of_int (sint_of h) / 100 - of_int (sint_of t) / 200\<bar> \<le> (1 / 200 :: rat)"
    by (simp add: h_def val_paisa)
  then have "\<bar>2 * rat_of_int (sint_of h) - rat_of_int (sint_of t)\<bar> \<le> 1" by linarith
  then have "\<bar>rat_of_int (2 * sint_of h - sint_of t)\<bar> \<le> rat_of_int 1" by simp
  then show "\<bar>2 * sint_of h - sint_of t\<bar> \<le> 1" by (simp only: of_int_abs [symmetric] of_int_le_iff)
  then show "dcoef h \<le> dcoef t + 1" by (simp add: dcoef_sint_of)
qed

lemma gst_total_Fin:
  assumes "gst_total (Fin a) (Fin r) = Inr x"
  shows "x = Fin (d_rescale Half_Up (d_div (d_mul a r) (Dec False 100 0)))"
    and "dcoef (d_rescale Half_Up (d_div (d_mul a r) (Dec False 100 0))) < 10 ^ context_prec"
  using assms by (auto simp: gst_total_def of_trap_def d_quantize_Some split: option.splits sum.splits)

lemma gst_cases:
  assumes "compute_gst (Fin t) c intra = Inr (Some b)" "gst_dec c = Some (Fin r)"
  obtains (intra) "intra" "b_intra b"
      "b_cgst b = Fin (d_rescale Half_Up (d_div (tax_total t r) (Dec False 2 0)))"
      "b_sgst b = Fin (d_sub (tax_total t r) (d_rescale Half_Up (d_div (tax_total t r) (Dec False 2 0))))"
      "b_igst b = Fin d_zero"
  | (inter) "\<not> intra" "\<not> b_intra b" "b_cgst b = Fin d_zero" "b_sgst b = Fin d_zero" "b_igst b = Fin (tax_total t r)"
proof -
  from assms obtain x where x: "gst_total (Fin (d_abs t)) (Fin r) = Inr x"
    by (auto simp: compute_gst_def rbind_Inr split: if_splits)
  with gst_total_Fin have x': "x = Fin (tax_total t r)" by (simp add: tax_total_def)
  show thesis
  proof (cases intra)
    case True
    with assms x x' show thesis
      by (intro intra)
        (auto simp: compute_gst_def rbind_Inr of_trap_def d_quantize_Some d_sub_def split: if_splits option.splits sum.splits)
  next
    case False
    with assms x x' show thesis
      by (intro inter) (auto simp: compute_gst_def rbind_Inr split: if_splits)
  qed
qed

lemma compute_gst_rate_nonneg:
  "compute_gst t c intra = Inr (Some b) \<Longrightarrow> gst_dec c = Some (Fin r) \<Longrightarrow> 0 \<le> val r"
  by (auto simp: compute_gst_def rbind_Inr of_trap_def d_lt_iff split: if_splits)

lemma tax_total_nonneg: "0 \<le> val r \<Longrightarrow> 0 \<le> sint_of (tax_total t r)"
proof -
  assume r: "0 \<le> val r"
  have dv: "dneg (d_div a (Dec False 100 0)) = dneg a" for a
    by (simp add: d_div_def d_fix_def Let_def split: prod.splits)
  have "dneg (tax_total t r) = dneg r"
    by (simp add: tax_total_def d_rescale_def dv d_mul_def d_fix_def Let_def)
  moreover have "dneg r \<Longrightarrow> dcoef r = 0" using r val_nonneg [of "d_copy_negate r"]
    by (metis d_copy_negate_def fdec.sel(1) neg_0_le_iff_le order_antisym val_copy_negate val_eq_0_iff)
  moreover have "dcoef r = 0 \<Longrightarrow> dcoef (tax_total t r) = 0"
    by (simp add: tax_total_def d_mul_def d_fix_def ndigits.simps [of 0] d_div_def d_rescale_def div_round_def)
  ultimately show ?thesis by (auto simp: sint_of_def)
qed

lemma gst_split:
  assumes "compute_gst (Fin t) c intra = Inr (Some b)" "gst_dec c = Some (Fin r)"
    and small: "dcoef (tax_total t r) * 5 < 10 ^ context_prec"
  obtains cg sg ig where "b_cgst b = Fin cg" "b_sgst b = Fin sg" "b_igst b = Fin ig"
    "val cg + val sg + val ig = val (tax_total t r)"
    "0 \<le> val cg" "0 \<le> val sg" "0 \<le> val ig"
    "intra \<Longrightarrow> val ig = 0 \<and> \<bar>val cg - val sg\<bar> \<le> 1 / 100"
    "\<not> intra \<Longrightarrow> val cg = 0 \<and> val sg = 0"
proof -
  let ?t = "tax_total t r"
  have t: "dexp ?t = - 2" by (simp add: tax_total_def)
  have tn: "0 \<le> sint_of ?t"
    using assms compute_gst_rate_nonneg tax_total_nonneg by blast
  from assms(1,2) show thesis
  proof (cases rule: gst_cases)
    case intra
    let ?h = "d_rescale Half_Up (d_div ?t (Dec False 2 0))"
    have h: "\<bar>2 * sint_of ?h - sint_of ?t\<bar> \<le> 1" by (rule half_paisa [OF t small])
    have tb: "\<bar>sint_of ?t\<bar> < 10 ^ context_prec" using small tn by (simp add: dcoef_sint_of)
    then have "\<bar>sint_of ?t - sint_of ?h\<bar> < 10 ^ context_prec" using h tn by linarith
    note s = d_sub_paisa [OF t _ this, simplified]
    have hv: "val ?h = of_int (sint_of ?h) / 100" by (rule val_paisa) simp
    define i j where "i = sint_of ?h" and "j = sint_of ?t"
    have vh: "val ?h = of_int i / 100" and vt: "val ?t = of_int j / 100"
      and vs: "val (d_sub ?t ?h) = of_int (j - i) / 100"
      using hv val_paisa [OF t] s(2) by (simp_all add: i_def j_def)
    have ij: "0 \<le> i" "i \<le> j" "- 1 \<le> 2 * i - j" "2 * i - j \<le> 1"
      using h tn unfolding i_def j_def by linarith+
    then have "\<bar>rat_of_int (i - (j - i))\<bar> \<le> rat_of_int 1"
      unfolding of_int_abs [symmetric] of_int_le_iff by linarith
    then have "\<bar>val ?h - val (d_sub ?t ?h)\<bar> \<le> 1 / 100"
      unfolding vh vs diff_divide_distrib [symmetric] of_int_diff [symmetric] by simp
    moreover have "0 \<le> val ?h" "0 \<le> val (d_sub ?t ?h)" "val ?h + val (d_sub ?t ?h) + val d_zero = val ?t"
      unfolding vh vs vt using ij by (simp_all flip: add_divide_distrib of_int_add)
    ultimately show thesis using intra by (intro that [of ?h "d_sub ?t ?h" d_zero]) simp_all
  next
    case inter
    then show thesis using val_paisa [OF t] tn by (intro that [of d_zero d_zero ?t]) auto
  qed
qed

text \<open>The total is the tax to the nearest paisa, where the product fits the precision.\<close>

lemma tax_total_close:
  assumes "dcoef t * dcoef r < 10 ^ context_prec" "dcoef t < 10 ^ context_prec"
  shows "\<bar>val (tax_total t r) - \<bar>val t\<bar> * val r / 100\<bar> \<le> 1 / 200"
proof -
  have a: "d_abs t = Dec False (dcoef t) (dexp t)" using assms(2) by (simp add: d_abs_def d_fix_id)
  have m: "val (d_mul (d_abs t) r) = \<bar>val t\<bar> * val r" "dcoef (d_mul (d_abs t) r) < 10 ^ context_prec"
    using assms d_mul_exact [of "d_abs t" r] val_abs [of t] by (simp_all add: a d_mul_def d_fix_id)
  from d_div_100 [OF m(2)] m(1)
  have "val (d_div (d_mul (d_abs t) r) (Dec False 100 0)) = \<bar>val t\<bar> * val r / 100" by simp
  then show ?thesis unfolding tax_total_def by (metis d_rescale_close)
qed

lemmas gst_eval = compute_gst_def gst_total_def total_tax_def dec_eval tax_total_def

lemma d_add_paisa:
  assumes "\<bar>sint_of a + sint_of b\<bar> < 10 ^ context_prec" "dexp a = - 2" "dexp b = - 2"
  shows "val (d_add a b) = val a + val b" "dexp (d_add a b) = - 2"
  using d_add_exact [of "- 2" a b] assms by (simp_all add: scaled_def)

lemma total_tax_val:
  assumes "compute_gst (Fin t) c intra = Inr (Some b)" "gst_dec c = Some (Fin r)"
    and small: "dcoef (tax_total t r) * 5 < 10 ^ context_prec"
  shows "\<exists>s. total_tax b = Inr (Fin s) \<and> val s = val (tax_total t r)"
proof -
  let ?t = "tax_total t r"
  have t: "dexp ?t = - 2" by (simp add: tax_total_def)
  have tn: "0 \<le> sint_of ?t"
    using assms compute_gst_rate_nonneg tax_total_nonneg by blast
  have tb: "\<bar>sint_of ?t\<bar> < 10 ^ context_prec" using small tn by (simp add: dcoef_sint_of)
  have z: "val (d_add x d_zero) = val x" if "dexp x = - 2" "\<bar>sint_of x\<bar> < 10 ^ context_prec" for x
    using d_add_exact [of "- 2" x d_zero] that by (simp add: scaled_def sint_of_def)
  have z': "val (d_add d_zero x) = val x" "dexp (d_add d_zero x) = - 2" if "dexp x = - 2" "\<bar>sint_of x\<bar> < 10 ^ context_prec" for x
    using d_add_exact [of "- 2" d_zero x] that by (simp_all add: scaled_def sint_of_def)
  from assms(1,2) show ?thesis
  proof (cases rule: gst_cases)
    case intra
    let ?h = "d_rescale Half_Up (d_div ?t (Dec False 2 0))"
    have h: "\<bar>2 * sint_of ?h - sint_of ?t\<bar> \<le> 1" by (rule half_paisa [OF t small])
    then have "\<bar>sint_of ?t - sint_of ?h\<bar> < 10 ^ context_prec" using tn tb by linarith
    note s = d_sub_paisa [OF t _ this, simplified]
    have sum: "\<bar>sint_of ?h + sint_of (d_sub ?t ?h)\<bar> < 10 ^ context_prec" using s(3) tb by simp
    note a = d_add_paisa [OF sum _ s(1), simplified]
    have v: "val (d_add ?h (d_sub ?t ?h)) = val ?t"
      using a(1) s(2) val_paisa [of ?h] val_paisa [OF t] by (simp add: diff_divide_distrib)
    then have "sint_of (d_add ?h (d_sub ?t ?h)) = sint_of ?t"
      using val_paisa [OF a(2)] val_paisa [OF t] by simp
    then have "val (d_add (d_add ?h (d_sub ?t ?h)) d_zero) = val ?t"
      using z [OF a(2)] tb v by simp
    then show ?thesis using intra by (simp add: total_tax_def)
  next
    case inter
    have "d_add d_zero d_zero = d_zero" by (simp add: dec_eval)
    then show ?thesis using inter z' [OF t tb] by (simp add: total_tax_def)
  qed
qed

section \<open>Properties\<close>

text \<open>
  C30: Wherever \<open>compute_gst\<close> returns a split of a finite amount (below a fifth of the precision),
  its components are finite and not negative and add up, to the paisa, to the tax it rounded to;
  within a state the central and the state tax differ by at most one paisa and there is no
  integrated tax, across states there is only the integrated tax.
\<close>

theorem gst_components_sum:
  assumes "compute_gst (Fin t) c intra = Inr (Some b)" "gst_dec c = Some (Fin r)"
    and "dcoef (tax_total t r) * 5 < 10 ^ context_prec"
  shows "\<exists>cg sg ig. b_cgst b = Fin cg \<and> b_sgst b = Fin sg \<and> b_igst b = Fin ig \<and>
    val cg + val sg + val ig = val (tax_total t r) \<and> 0 \<le> val cg \<and> 0 \<le> val sg \<and> 0 \<le> val ig \<and>
    (if intra then val ig = 0 \<and> \<bar>val cg - val sg\<bar> \<le> 1 / 100 else val cg = 0 \<and> val sg = 0)"
  using assms by (rule gst_split) auto

theorem gst_components_sum_witness:
  "\<exists>b cg sg. compute_gst (Fin (Dec False 10005 (- 2))) (CStr ''18'') True = Inr (Some b) \<and>
     b_cgst b = Fin cg \<and> b_sgst b = Fin sg \<and> \<bar>val cg - val sg\<bar> \<le> 1 / 100"
proof -
  let ?b = "\<lparr>b_taxable = Fin (Dec False 10005 (- 2)), b_rate = Fin (Dec False 18 0), b_intra = True,
    b_cgst = Fin (Dec False 901 (- 2)), b_sgst = Fin (Dec False 900 (- 2)), b_igst = Fin d_zero\<rparr>"
  have r: "gst_dec (CStr ''18'') = Some (Fin (Dec False 18 0))"
    by code_simp
  have c: "compute_gst (Fin (Dec False 10005 (- 2))) (CStr ''18'') True = Inr (Some ?b)"
    using r by (simp add: gst_eval)
  have "dcoef (tax_total (Dec False 10005 (- 2)) (Dec False 18 0)) * 5 < 10 ^ context_prec"
    by (simp add: gst_eval)
  from gst_components_sum [OF c r this] c show ?thesis by auto
qed

text \<open>
  The tax charged, as \<open>total_tax\<close> adds it up from the components, is the exact tax on the
  amount at the rate to within half a paisa.
\<close>

theorem gst_tax_rounded:
  assumes "compute_gst (Fin t) c intra = Inr (Some b)" "gst_dec c = Some (Fin r)"
    and "dcoef t * dcoef r < 10 ^ context_prec" "dcoef t < 10 ^ context_prec"
    and "dcoef (tax_total t r) * 5 < 10 ^ context_prec"
  shows "\<exists>s. total_tax b = Inr (Fin s) \<and> \<bar>val s - \<bar>val t\<bar> * val r / 100\<bar> \<le> 1 / 200"
  using total_tax_val [OF assms(1,2,5)] tax_total_close [OF assms(3,4)] by auto

text \<open>
  Normalising a state is idempotent, so the place-of-supply test gives the same answer on
  raw and on normalised states; it does not depend on the order of the two, and it is undecided
  exactly when one of them is blank.
\<close>

theorem place_of_supply:
  "normalize_state (Some (normalize_state v)) = normalize_state v \<and>
   is_intra_state (Some (normalize_state b)) (Some (normalize_state h)) = is_intra_state b h \<and>
   is_intra_state b h = is_intra_state h b \<and>
   (is_intra_state b h = None) = (normalize_state b = [] \<or> normalize_state h = [])"
  by (simp add: normalize_state_idem is_intra_state_normalized) (auto simp: is_intra_state_def Let_def)

end
