(* ===== verification/Vouchers.thy ===== *)
theory Vouchers
  imports Gst "HOL-Library.Sublist"
begin

text \<open>
  \<open>app/pipeline/voucher.py\<close>: from the rows of a voucher file, one line of a voucher per row, to
  balanced vouchers.  Validation and generation share these functions, so the two cannot diverge.
\<close>

section \<open>One line\<close>

definition refund_markers :: "string list" where
  "refund_markers =
     [''refund'', ''return'', ''credit note'', ''creditnote'', ''reversal'', ''chargeback'', ''cancel'']"

definition v_err :: "nat \<Rightarrow> string \<Rightarrow> error_code \<Rightarrow> stage_name \<Rightarrow> severity \<Rightarrow> envelope" where
  "v_err r col code stg sev = field_err VOUCHER (Some r) col code stg sev"

definition line_amount :: "row \<Rightarrow> nat \<Rightarrow> stage_name \<Rightarrow> (dec \<times> bool) option logged" where
  "line_amount r src stg =
     (let debit_raw = rget r ''debit''; credit_raw = rget r ''credit'';
          has_debit = \<not> is_blank debit_raw; has_credit = \<not> is_blank credit_raw
      in if has_debit \<or> has_credit
         then
           if has_debit \<and> has_credit then lfail (v_err src ''debit'' VALIDATION_ERROR stg Sev_Error)
           else
             let col = (if has_debit then ''debit'' else ''credit'') in
             ltry (coerce_decimal (if has_debit then debit_raw else credit_raw))
               (lfail (v_err src col BAD_DECIMAL stg Sev_Error))
               (\<lambda>mag. case mag of
                  None \<Rightarrow> lfail (v_err src col REQUIRED_MISSING stg Sev_Error)
                | Some m \<Rightarrow>
                    lbind (llift (of_trap (dec_eq m (Fin d_zero)))) (\<lambda>z.
                      if z then lfail (v_err src col REQUIRED_MISSING stg Sev_Error)
                      else lbind (llift (of_trap (dec_abs m))) (\<lambda>a. lret (Some (a, has_debit)))))
         else
           ltry (coerce_amount_drcr (rget r ''amount'') (rget r ''dr_cr''))
             (lfail (v_err src ''amount'' BAD_DECIMAL stg Sev_Error))
             (\<lambda>ad. case ad of
                None \<Rightarrow> lfail (v_err src ''amount'' REQUIRED_MISSING stg Sev_Error)
              | Some (m, dr) \<Rightarrow>
                  lbind (llift (of_trap (dec_eq m (Fin d_zero)))) (\<lambda>z.
                    if z then lfail (v_err src ''amount'' REQUIRED_MISSING stg Sev_Error)
                    else lret (Some (m, dr)))))"

text \<open>The helper \<open>_dec\<close>: \<open>None\<close> is its marker for a cell that is no number.\<close>

definition inventory_dec :: "row \<Rightarrow> nat \<Rightarrow> stage_name \<Rightarrow> string \<Rightarrow> dec option option logged" where
  "inventory_dec r src stg f =
     ltry (coerce_decimal (rget r f)) (lfail (v_err src f BAD_DECIMAL stg Sev_Error)) (\<lambda>x. lret (Some x))"

definition reconcile_rate :: "dec \<Rightarrow> dec \<Rightarrow> dec \<Rightarrow> bool res" where
  \<comment> \<open>does quantity times rate differ from the amount by more than a paisa?\<close>
  "reconcile_rate qty rate amount =
     rbind (of_trap (dec_abs qty)) (\<lambda>q.
     rbind (of_trap (dec_abs rate)) (\<lambda>r.
     rbind (of_trap (dec_mul q r)) (\<lambda>p.
     rbind (of_trap (dec_quantize Half_Even p)) (\<lambda>expected.
     rbind (of_trap (dec_abs amount)) (\<lambda>a.
     rbind (of_trap (dec_sub expected a)) (\<lambda>d.
     rbind (of_trap (dec_abs d)) (\<lambda>ad.
       of_trap (dec_lt (Fin (Dec False 1 (- 2))) ad))))))))"

definition inventory_fields :: "row \<Rightarrow> nat \<Rightarrow> dec \<Rightarrow> stage_name \<Rightarrow> (dec \<times> dec option) option logged" where
  "inventory_fields r src amount stg =
     lbind (inventory_dec r src stg ''quantity'') (\<lambda>qty.
     lbind (inventory_dec r src stg ''rate'') (\<lambda>rate.
       case (qty, rate) of
         (Some q, Some rt) \<Rightarrow>
           (case q of
              None \<Rightarrow> lfail (v_err src ''quantity'' INVENTORY_MISMATCH stg Sev_Error)
            | Some qd \<Rightarrow>
                lbind (llift (of_trap (dec_le qd (Fin d_zero)))) (\<lambda>nonpos.
                  if nonpos then lfail (v_err src ''quantity'' INVENTORY_MISMATCH stg Sev_Error)
                  else
                    case rt of
                      None \<Rightarrow> lret (Some (qd, None))
                    | Some rd \<Rightarrow>
                        lbind (llift (reconcile_rate qd rd amount)) (\<lambda>off.
                        lbind (if off then llog (v_err src ''amount'' INVENTORY_MISMATCH stg Sev_Warning)
                               else lret ()) (\<lambda>_.
                          lret (Some (qd, Some rd))))))
       | _ \<Rightarrow> lret None))"

section \<open>Grouping the lines\<close>

record vgroup =
  gr_vnum :: string
  gr_first_row :: nat
  gr_dates :: "date list"
  gr_vtypes :: "string list"
  gr_parties :: "string list"
  gr_narration :: "string option"
  gr_lines :: "voucher_line list"
  gr_gstins :: "string list"
  gr_ttypes :: "string list"
  gr_gst_mode :: bool

type_synonym groups = "(string, vgroup) dict"

definition new_group :: "string \<Rightarrow> nat \<Rightarrow> vgroup" where
  "new_group vnum i =
     \<lparr>gr_vnum = vnum, gr_first_row = i, gr_dates = [], gr_vtypes = [], gr_parties = [],
      gr_narration = None, gr_lines = [], gr_gstins = [], gr_ttypes = [], gr_gst_mode = False\<rparr>"

definition opt_list :: "'a option \<Rightarrow> 'a list" where
  "opt_list x = (case x of None \<Rightarrow> [] | Some y \<Rightarrow> [y])"

text \<open>The first of two optional texts that is there: Python's \<open>or\<close> on them.\<close>

definition first_of :: "string option \<Rightarrow> string option \<Rightarrow> string option" where
  "first_of x y = (if truthy x then x else y)"

text \<open>The header candidates of a row: dates, types, parties and the first narration.\<close>

definition header_dates :: "date_parser \<Rightarrow> row \<Rightarrow> nat \<Rightarrow> stage_name \<Rightarrow> date list logged" where
  "header_dates pd r i stg =
     (if is_blank (rget r ''date'') then lret []
      else ltry (coerce_date pd (rget r ''date''))
             (lbind (llog (v_err i ''date'' BAD_DATE stg Sev_Error)) (\<lambda>_. lret []))
             (\<lambda>d. lret (opt_list d)))"

definition add_header :: "row \<Rightarrow> date list \<Rightarrow> vgroup \<Rightarrow> vgroup" where
  "add_header r dates g =
     g\<lparr>gr_dates := gr_dates g @ dates,
       gr_vtypes := gr_vtypes g @ opt_list (coerce_str (rget r ''voucher_type'')),
       gr_parties := gr_parties g @ opt_list (coerce_str (rget r ''party_ledger'')),
       gr_narration := (if gr_narration g = None then coerce_str (rget r ''narration'') else gr_narration g),
       gr_gstins := gr_gstins g @ opt_list (coerce_str (rget r ''party_gstin'')),
       gr_ttypes := gr_ttypes g @ opt_list (coerce_str (rget r ''transaction_type''))\<rparr>"

text \<open>The tax legs of a row that carries a rate; the flag tells that a split was computed.\<close>

definition tax_lines :: "row \<Rightarrow> nat \<Rightarrow> dec \<times> bool \<Rightarrow> stage_name \<Rightarrow> (bool \<times> voucher_line list) logged" where
  "tax_lines r i amount stg =
     (if is_blank (rget r ''gst_rate'') then lret (False, [])
      else
        let buyer_state = first_of (coerce_str (rget r ''shipping_state''))
                            (Some (state_from_gstin (coerce_str (rget r ''party_gstin''))))
        in case is_intra_state buyer_state (coerce_str (rget r ''home_state'')) of
            None \<Rightarrow>
              lbind (llog (v_err i ''gst_rate'' VALIDATION_ERROR stg Sev_Warning)) (\<lambda>_. lret (False, []))
          | Some intra \<Rightarrow>
              lbind (llift (compute_gst (fst amount) (rget r ''gst_rate'') intra)) (\<lambda>breakup.
                case breakup of
                  None \<Rightarrow>
                    lbind (llog (v_err i ''gst_rate'' BAD_DECIMAL stg Sev_Error)) (\<lambda>_. lret (False, []))
                | Some b \<Rightarrow>
                    lbind (llift (foldM (\<lambda>(suffix, tax) ls.
                        rbind (mk_ledger_line (''Output '' @ suffix) (snd amount) tax (Some i)) (\<lambda>l.
                          Inr (ls @ [l]))) (gst_components b) [])) (\<lambda>ls. lret (True, ls))))"

text \<open>The rest of the loop body, once the row has a number, a ledger and an amount.\<close>

definition record_line ::
    "date_parser \<Rightarrow> stage_name \<Rightarrow> nat \<Rightarrow> row \<Rightarrow> string \<Rightarrow> string \<Rightarrow> dec \<times> bool \<Rightarrow>
     string option \<Rightarrow> dec option \<Rightarrow> dec option \<Rightarrow> groups \<Rightarrow> groups logged" where
  "record_line pd stg i r vnum ledger amount item qty rate gs =
     lbind (header_dates pd r i stg) (\<lambda>dates.
       let g = add_header r dates (setdefault (norm_name vnum) (new_group vnum i) gs);
           unit_val = (if item = None then None else coerce_str (rget r ''unit''))
       in
       lbind (if item \<noteq> None \<and> unit_val = None
              then llog (v_err i ''unit'' INVENTORY_MISMATCH stg Sev_Error) else lret ()) (\<lambda>_.
       lbind (llift (mk_line ledger (snd amount) (fst amount) (Some i) item qty rate unit_val)) (\<lambda>l.
       lbind (tax_lines r i amount stg) (\<lambda>(gst, legs).
         lret (AList.update (norm_name vnum)
           (g\<lparr>gr_lines := gr_lines g @ [l] @ legs, gr_gst_mode := gr_gst_mode g \<or> gst\<rparr>) gs)))))"

definition voucher_number :: "row \<Rightarrow> string option" where
  "voucher_number r = first_of (coerce_str (rget r ''order_id'')) (coerce_str (rget r ''voucher_number''))"

definition add_row :: "date_parser \<Rightarrow> stage_name \<Rightarrow> nat \<times> row \<Rightarrow> groups \<Rightarrow> groups logged" where
  "add_row pd stg ir gs =
     (let (i, r) = ir in
      case voucher_number r of
        None \<Rightarrow> lbind (llog (v_err i ''voucher_number'' REQUIRED_MISSING stg Sev_Error)) (\<lambda>_. lret gs)
      | Some vnum \<Rightarrow>
        (case coerce_str (rget r ''ledger_name'') of
           None \<Rightarrow> lbind (llog (v_err i ''ledger_name'' REQUIRED_MISSING stg Sev_Error)) (\<lambda>_. lret gs)
         | Some ledger \<Rightarrow>
           lbind (line_amount r i stg) (\<lambda>amount.
             case amount of
               None \<Rightarrow> lret gs
             | Some am \<Rightarrow>
               (case coerce_str (rget r ''stock_item'') of
                  None \<Rightarrow> record_line pd stg i r vnum ledger am None None None gs
                | Some item \<Rightarrow>
                  lbind (inventory_fields r i (fst am) stg) (\<lambda>qr.
                    case qr of
                      None \<Rightarrow> lret gs
                    | Some (qty, rate) \<Rightarrow>
                        record_line pd stg i r vnum ledger am (Some item) (Some qty) rate gs)))))"

section \<open>Finishing the groups\<close>

definition dr_sum :: "voucher_line list \<Rightarrow> fdec" where
  "dr_sum ls = d_sum (map vl_amount (filter vl_is_debit ls))"

definition cr_sum :: "voucher_line list \<Rightarrow> fdec" where
  "cr_sum ls = d_sum (map vl_amount (filter (\<lambda>l. \<not> vl_is_debit l) ls))"

definition d_099 :: fdec where
  "d_099 = Dec False 99 (- 2)"

text \<open>The leg of the party that balances a group with computed tax.\<close>

definition party_leg :: "bool \<Rightarrow> string option \<Rightarrow> nat \<Rightarrow> voucher_line list \<Rightarrow> voucher_line list res" where
  "party_leg gst_mode party src ls =
     (case party of
        None \<Rightarrow> Inr ls
      | Some p \<Rightarrow>
          let bal = d_sub (cr_sum ls) (dr_sum ls) in
          if gst_mode \<and> d_lt d_099 (d_abs bal)
          then rbind (mk_ledger_line p (d_lt d_zero bal) (Fin (d_abs bal)) (Some src)) (\<lambda>l. Inr (ls @ [l]))
          else Inr ls)"

definition round_off :: "nat \<Rightarrow> voucher_line list \<Rightarrow> voucher_line list res" where
  "round_off src ls =
     (let diff = d_sub (dr_sum ls) (cr_sum ls) in
      if d_lt d_zero (d_abs diff) \<and> d_le (d_abs diff) d_099
      then rbind (mk_ledger_line ''Round Off'' (d_lt diff d_zero) (Fin (d_abs diff)) (Some src))
             (\<lambda>l. Inr (ls @ [l]))
      else Inr ls)"

definition flip_side :: "voucher_line \<Rightarrow> voucher_line" where
  "flip_side l = l\<lparr>vl_is_debit := \<not> vl_is_debit l\<rparr>"

definition is_refund :: "string list \<Rightarrow> bool" where
  "is_refund ttypes \<longleftrightarrow> list_ex (\<lambda>t. list_ex (\<lambda>m. is_infix m (norm_name t)) refund_markers) ttypes"

definition refund_narration :: "string \<Rightarrow> string option \<Rightarrow> string" where
  "refund_narration vnum narr =
     (let tag = ''Refund of order '' @ vnum in
      case narr of None \<Rightarrow> tag | Some n \<Rightarrow> if n = '''' then tag else tag @ ''. '' @ n)"

text \<open>The legs of a finished voucher: the group's lines, the party's leg, the rounding, the reversal.\<close>

definition final_lines :: "vgroup \<Rightarrow> string option \<Rightarrow> bool \<Rightarrow> voucher_line list res" where
  "final_lines g party refund =
     rbind (party_leg (gr_gst_mode g) party (gr_first_row g) (gr_lines g)) (\<lambda>ls.
     rbind (round_off (gr_first_row g) ls) (\<lambda>ls'.
       Inr (if refund \<and> gr_gst_mode g then map flip_side ls' else ls')))"

definition finalize_group :: "stage_name \<Rightarrow> vgroup \<Rightarrow> voucher option logged" where
  "finalize_group stg g =
     (let src = gr_first_row g; dates = dedup (gr_dates g); vtypes = dedup (gr_vtypes g) in
      case dates of
        [] \<Rightarrow> lfail (v_err src ''date'' REQUIRED_MISSING stg Sev_Error)
      | vdate # others \<Rightarrow>
        if others \<noteq> [] then lfail (v_err src ''date'' VOUCHER_CONFLICT stg Sev_Error)
        else case vtypes of
          [] \<Rightarrow> lfail (v_err src ''voucher_type'' REQUIRED_MISSING stg Sev_Error)
        | vt # _ \<Rightarrow>
          if 1 < length (dedup (map norm_name vtypes))
          then lfail (v_err src ''voucher_type'' VOUCHER_CONFLICT stg Sev_Error)
          else
            let refund = is_refund (gr_ttypes g);
                vtype = (if refund then ''Credit Note'' else vt);
                narr = (if refund then Some (refund_narration (gr_vnum g) (gr_narration g)) else gr_narration g);
                party = (case gr_parties g of [] \<Rightarrow> None | p # _ \<Rightarrow> Some p)
            in
            lbind (if 1 < length (dedup (map norm_name (gr_parties g)))
                   then llog (v_err src ''party_ledger'' VOUCHER_CONFLICT stg Sev_Warning) else lret ()) (\<lambda>_.
            lbind (llift (final_lines g party refund)) (\<lambda>ls.
              let v = \<lparr>v_type = vtype, v_date = vdate, v_lines = ls, v_action = CREATE, v_narration = narr,
                       v_reference = Some (gr_vnum g), v_party_ledger = party,
                       v_party_gstin = find (\<lambda>x. length (strip x) = 15) (gr_gstins g), v_guid = None,
                       v_master_id = None, v_source_row = Some src\<rparr>
              in if is_balanced v then lret (Some v)
                 else lfail (v_err src ''amount'' VOUCHER_UNBALANCED stg Sev_Error))))"

definition finalize :: "stage_name \<Rightarrow> groups \<Rightarrow> voucher list logged" where
  "finalize stg gs =
     lfold (\<lambda>(_, g) vs. lbind (finalize_group stg g) (\<lambda>v. lret (vs @ opt_list v))) gs []"

definition rows_to_vouchers :: "date_parser \<Rightarrow> stage_name \<Rightarrow> row list \<Rightarrow> voucher list logged" where
  "rows_to_vouchers pd stg rows =
     lbind (lfold (add_row pd stg) (enumerate1 rows) []) (finalize stg)"

section \<open>What is recorded\<close>

text \<open>An error about a row, and the functions that either return something or record one.\<close>

definition row_error :: "nat \<Rightarrow> envelope \<Rightarrow> bool" where
  "row_error i e \<longleftrightarrow> is_error e \<and> e_row e = Some i"

lemma row_error_v_err [simp]: "row_error i (v_err j col code stg Sev_Error) \<longleftrightarrow> i = j"
  by (auto simp: row_error_def v_err_def field_err_def is_error_def)

lemma logs_row:
  "logs (\<lambda>e. e_row e = Some i) (line_amount r i stg)"
  "logs (\<lambda>e. e_row e = Some i) (inventory_fields r i a stg)"
  "logs (\<lambda>e. e_row e = Some i) (header_dates pd r i stg)"
  "logs (\<lambda>e. e_row e = Some i) (tax_lines r i am stg)"
  unfolding line_amount_def inventory_fields_def inventory_dec_def header_dates_def tax_lines_def
  by (intro logs_intros; simp add: v_err_def field_err_def)+

lemma logs_add_row: "logs (\<lambda>e. e_row e = Some (fst ir)) (add_row pd stg ir gs)"
  unfolding add_row_def record_line_def
  by (intro logs_intros logs_row; simp add: v_err_def field_err_def logs_row)

lemma logs_finalize_group: "logs (\<lambda>e. e_row e = Some (gr_first_row g)) (finalize_group stg g)"
  unfolding finalize_group_def
  by (intro logs_intros; simp add: v_err_def field_err_def)

lemma logs_finalize: "logs (\<lambda>_. True) (finalize stg gs)"
  unfolding finalize_def
  by (auto intro!: logs_intros logs_mono [OF logs_finalize_group] simp: case_prod_unfold)

lemma line_amount_None:
  "line_amount r i stg es = (Inr None, es') \<Longrightarrow> \<exists>e\<in>set es'. row_error i e"
  by (auto simp: line_amount_def Let_def ltry_Inr lbind_Inr split: if_splits option.splits)

lemma inventory_dec_None:
  "inventory_dec r i stg f es = (Inr None, es') \<Longrightarrow> \<exists>e\<in>set es'. row_error i e"
  by (auto simp: inventory_dec_def ltry_Inr)

lemma logs_inventory_dec: "logs (\<lambda>_. True) (inventory_dec r i stg f)"
  unfolding inventory_dec_def by (intro logs_intros TrueI)

lemma inventory_fields_None:
  "inventory_fields r i a stg es = (Inr None, es') \<Longrightarrow> \<exists>e\<in>set es'. row_error i e"
proof -
  assume "inventory_fields r i a stg es = (Inr None, es')"
  then obtain q es1 rt es2 where q: "inventory_dec r i stg ''quantity'' es = (Inr q, es1)"
    and rt: "inventory_dec r i stg ''rate'' es1 = (Inr rt, es2)"
    and c: "(case (q, rt) of
         (Some q, Some rt) \<Rightarrow>
           (case q of
              None \<Rightarrow> lfail (v_err i ''quantity'' INVENTORY_MISMATCH stg Sev_Error)
            | Some qd \<Rightarrow>
                lbind (llift (of_trap (dec_le qd (Fin d_zero)))) (\<lambda>nonpos.
                  if nonpos then lfail (v_err i ''quantity'' INVENTORY_MISMATCH stg Sev_Error)
                  else
                    case rt of
                      None \<Rightarrow> lret (Some (qd, None))
                    | Some rd \<Rightarrow>
                        lbind (llift (reconcile_rate qd rd a)) (\<lambda>off.
                        lbind (if off then llog (v_err i ''amount'' INVENTORY_MISMATCH stg Sev_Warning)
                               else lret ()) (\<lambda>_.
                          lret (Some (qd, Some rd))))))
       | _ \<Rightarrow> lret None) es2 = (Inr None, es')"
    unfolding inventory_fields_def lbind_Inr by blast
  show ?thesis
  proof (cases "q = None \<or> rt = None")
    case True
    then have "es' = es2" using c by (cases q; cases rt) auto
    with True q rt inventory_dec_None logsD [OF logs_inventory_dec rt] show ?thesis
      by (metis Un_iff set_append)
  next
    case False
    with c show ?thesis by (auto simp: lbind_Inr split: option.splits if_splits)
  qed
qed

section \<open>The lines of a group\<close>

definition line_of_row :: "nat \<Rightarrow> voucher_line \<Rightarrow> bool" where
  "line_of_row i l \<longleftrightarrow> line_wf l \<and> vl_source_row l = Some i"

lemma mk_line_src: "mk_line nm dr a src item q rt u = Inr l \<Longrightarrow> vl_source_row l = src"
  by (auto simp: mk_line_def rbind_Inr)

lemma mk_line_of_row: "mk_line nm dr a (Some i) item q rt u = Inr l \<Longrightarrow> line_of_row i l"
  using mk_line_Inr [of nm dr a "Some i" item q rt u l]
  by (auto simp: line_of_row_def mk_line_src)

lemma tax_lines_rows:
  "tax_lines r i am stg es = (Inr (b, ls), es') \<Longrightarrow> \<forall>l\<in>set ls. line_of_row i l"
proof -
  have "foldM (\<lambda>(suffix, tax) ls. rbind (mk_ledger_line (''Output '' @ suffix) (snd am) tax (Some i)) (\<lambda>l. Inr (ls @ [l])))
      cs [] = Inr ls' \<Longrightarrow> \<forall>l\<in>set ls'. line_of_row i l" for cs ls'
    by (erule foldM_invariant, simp, clarsimp simp: rbind_Inr, elim disjE)
      (drule mk_line_of_row, simp, auto)
  then show "tax_lines r i am stg es = (Inr (b, ls), es') \<Longrightarrow> \<forall>l\<in>set ls. line_of_row i l"
    by (auto simp: tax_lines_def Let_def lbind_Inr split: if_splits option.splits)
qed

lemma record_line_Inr:
  assumes "record_line pd stg i r vnum ledger am item qty rate gs es = (Inr gs', es')"
  defines "g0 \<equiv> setdefault (norm_name vnum) (new_group vnum i) gs"
  shows "\<exists>g' new. gs' = AList.update (norm_name vnum) g' gs \<and> gr_vnum g' = gr_vnum g0 \<and>
    gr_first_row g' = gr_first_row g0 \<and> gr_lines g' = gr_lines g0 @ new \<and> new \<noteq> [] \<and>
    (\<forall>l\<in>set new. line_of_row i l)"
proof -
  from assms(1) obtain dates l gst legs es2 es3 where
      l: "mk_line ledger (snd am) (fst am) (Some i) item qty rate
           (if item = None then None else coerce_str (rget r ''unit'')) = Inr l"
    and legs: "tax_lines r i am stg es2 = (Inr (gst, legs), es3)"
    and gs': "gs' = AList.update (norm_name vnum)
      ((add_header r dates g0)\<lparr>gr_lines := gr_lines (add_header r dates g0) @ [l] @ legs,
        gr_gst_mode := gr_gst_mode (add_header r dates g0) \<or> gst\<rparr>) gs"
    unfolding record_line_def Let_def g0_def [symmetric] by (auto simp: lbind_Inr)
  show ?thesis unfolding gs'
    using mk_line_of_row [OF l] tax_lines_rows [OF legs]
    by (intro exI [of _ "(add_header r dates g0)\<lparr>gr_lines := gr_lines (add_header r dates g0) @ [l] @ legs,
        gr_gst_mode := gr_gst_mode (add_header r dates g0) \<or> gst\<rparr>"] exI [of _ "l # legs"])
      (simp add: add_header_def)
qed

text \<open>
  The groups after the rows \<open>done\<close>: keyed by the normalised voucher number, never empty, holding
  well-formed lines of those rows; and every row done is in a group of its number or has an error.
\<close>

definition group_ok :: "(nat \<times> row) list \<Rightarrow> string \<Rightarrow> vgroup \<Rightarrow> bool" where
  "group_ok rs k g \<longleftrightarrow> k = norm_name (gr_vnum g) \<and> gr_lines g \<noteq> [] \<and>
     (\<forall>l\<in>set (gr_lines g). \<exists>i\<in>fst ` set rs. line_of_row i l) \<and>
     (\<exists>r. (gr_first_row g, r) \<in> set rs \<and> map_option norm_name (voucher_number r) = Some k)"

definition row_done :: "groups \<Rightarrow> envelope list \<Rightarrow> nat \<Rightarrow> row \<Rightarrow> bool" where
  "row_done gs es i r \<longleftrightarrow> (\<exists>e\<in>set es. row_error i e) \<or>
     (\<exists>k g. map_option norm_name (voucher_number r) = Some k \<and> dget gs k = Some g \<and>
        (\<exists>l\<in>set (gr_lines g). vl_source_row l = Some i))"

definition groups_ok :: "(nat \<times> row) list \<Rightarrow> groups \<Rightarrow> envelope list \<Rightarrow> bool" where
  "groups_ok rs gs es \<longleftrightarrow> distinct (map fst gs) \<and> (\<forall>(k, g)\<in>set gs. group_ok rs k g) \<and>
     (\<forall>(i, r)\<in>set rs. row_done gs es i r)"

lemma group_ok_mono: "group_ok rs k g \<Longrightarrow> set rs \<subseteq> set rs' \<Longrightarrow> group_ok rs' k g"
  unfolding group_ok_def by blast

lemma row_done_mono: "row_done gs es i r \<Longrightarrow> set es \<subseteq> set es' \<Longrightarrow> row_done gs es' i r"
  unfolding row_done_def by blast

lemma set_update_dict: "distinct (map fst gs) \<Longrightarrow>
  set (AList.update k v gs) = insert (k, v) {x \<in> set gs. fst x \<noteq> k}"
  by (induction gs) (auto simp: image_iff)

lemma groups_ok_skip:
  "groups_ok rs gs es \<Longrightarrow> set es \<subseteq> set es' \<Longrightarrow> \<exists>e\<in>set es'. row_error i e \<Longrightarrow> groups_ok (rs @ [(i, r)]) gs es'"
  unfolding groups_ok_def by (auto simp: row_done_def intro: group_ok_mono row_done_mono)

lemma groups_ok_add:
  assumes ok: "groups_ok rs gs es" and es: "set es \<subseteq> set es'"
    and k: "voucher_number r = Some vnum" "k = norm_name vnum"
    and g': "gr_vnum g' = gr_vnum g0" "gr_first_row g' = gr_first_row g0" "gr_lines g' = gr_lines g0 @ new"
    and g0: "g0 = setdefault k (new_group vnum i) gs"
    and new: "new \<noteq> []" "\<forall>l\<in>set new. line_of_row i l"
  shows "groups_ok (rs @ [(i, r)]) (AList.update k g' gs) es'"
proof -
  have d: "distinct (map fst gs)" using ok by (simp add: groups_ok_def)
  have go: "group_ok (rs @ [(i, r)]) k g'"
  proof (cases "dget gs k")
    case None
    then have "g0 = new_group vnum i" by (simp add: g0 setdefault_def)
    then show ?thesis using g' new k by (auto simp: group_ok_def new_group_def line_of_row_def)
  next
    case (Some g)
    then have "group_ok rs k g" "g0 = g"
      using ok map_of_SomeD [OF Some] by (auto simp: groups_ok_def g0 setdefault_def)
    then show ?thesis using g' new by (auto simp: group_ok_def)
  qed
  have other: "row_done (AList.update k g' gs) es' j q" if "row_done gs es j q" for j q
  proof -
    have "\<exists>l\<in>set (gr_lines g'). vl_source_row l = Some j"
      if "dget gs k = Some g" "l \<in> set (gr_lines g)" "vl_source_row l = Some j" for g l
      using that g' g0 by (auto simp: setdefault_def)
    then show ?thesis using that es unfolding row_done_def update_conv'
      by (auto; metis)
  qed
  have "row_done (AList.update k g' gs) es' i r"
    using k new g'(3) by (cases new) (auto simp: row_done_def update_conv' line_of_row_def)
  then show ?thesis using ok d go other
    unfolding groups_ok_def set_update_dict [OF d]
    by (auto simp: distinct_update intro: group_ok_mono)
qed

lemma logs_record_line: "logs (\<lambda>e. e_row e = Some i) (record_line pd stg i r vnum ledger am item q rt gs)"
  unfolding record_line_def by (intro logs_intros logs_row; simp add: v_err_def field_err_def logs_row)

lemma record_line_step:
  assumes "record_line pd stg i r vnum ledger am item q rt gs es = (Inr gs', es')"
    and "voucher_number r = Some vnum" "groups_ok rs gs es0" "set es0 \<subseteq> set es"
  shows "groups_ok (rs @ [(i, r)]) gs' es'"
proof -
  from record_line_Inr [OF assms(1)] obtain g' new where
    "gs' = AList.update (norm_name vnum) g' gs"
    "gr_vnum g' = gr_vnum (setdefault (norm_name vnum) (new_group vnum i) gs)"
    "gr_first_row g' = gr_first_row (setdefault (norm_name vnum) (new_group vnum i) gs)"
    "gr_lines g' = gr_lines (setdefault (norm_name vnum) (new_group vnum i) gs) @ new" "new \<noteq> []"
    "\<forall>l\<in>set new. line_of_row i l"
    by blast
  moreover have "set es0 \<subseteq> set es'"
    using logs_prefix [OF logs_record_line assms(1)] assms(4) by blast
  ultimately show ?thesis using groups_ok_add [OF assms(3) _ assms(2) refl] by simp
qed

lemma add_row_step:
  assumes step: "add_row pd stg (i, r) gs es = (Inr gs', es')" and ok: "groups_ok rs gs es"
  shows "groups_ok (rs @ [(i, r)]) gs' es'"
proof (cases "voucher_number r")
  case None
  then show ?thesis using step ok by (auto simp: add_row_def lbind_Inr intro!: groups_ok_skip [OF ok])
next
  case vnum: (Some vnum)
  show ?thesis
  proof (cases "coerce_str (rget r ''ledger_name'')")
    case None
    then show ?thesis using step vnum ok by (auto simp: add_row_def lbind_Inr intro!: groups_ok_skip [OF ok])
  next
    case ledger: (Some ledger)
    from step vnum ledger obtain am es1 where am: "line_amount r i stg es = (Inr am, es1)"
      and rest: "(case am of
               None \<Rightarrow> lret gs
             | Some am \<Rightarrow>
               (case coerce_str (rget r ''stock_item'') of
                  None \<Rightarrow> record_line pd stg i r vnum ledger am None None None gs
                | Some item \<Rightarrow>
                  lbind (inventory_fields r i (fst am) stg) (\<lambda>qr.
                    case qr of
                      None \<Rightarrow> lret gs
                    | Some (qty, rate) \<Rightarrow>
                        record_line pd stg i r vnum ledger am (Some item) (Some qty) rate gs))) es1 = (Inr gs', es')"
      by (auto simp: add_row_def lbind_Inr)
    have es1: "set es \<subseteq> set es1" by (rule logs_prefix [OF logs_row(1) am])
    show ?thesis
    proof (cases am)
      case None
      then show ?thesis using rest line_amount_None [of r i stg es es1] am es1
        by (auto intro: groups_ok_skip [OF ok])
    next
      case a: (Some a)
      show ?thesis
      proof (cases "coerce_str (rget r ''stock_item'')")
        case None
        then show ?thesis using rest a record_line_step [OF _ vnum ok es1] by auto
      next
        case (Some item)
        with rest a obtain qr es2 where qr: "inventory_fields r i (fst a) stg es1 = (Inr qr, es2)"
          and rest': "(case qr of None \<Rightarrow> lret gs
             | Some (qty, rate) \<Rightarrow> record_line pd stg i r vnum ledger a (Some item) (Some qty) rate gs) es2 = (Inr gs', es')"
          by (auto simp: lbind_Inr)
        have es2: "set es \<subseteq> set es2" using logs_prefix [OF logs_row(2) qr] es1 by blast
        show ?thesis
        proof (cases qr)
          case None
          then show ?thesis using rest' inventory_fields_None [of r i "fst a" stg es1 es2] qr es2
            by (auto intro: groups_ok_skip [OF ok])
        next
          case (Some p)
          then show ?thesis using rest' record_line_step [OF _ vnum ok es2] by (cases p) auto
        qed
      qed
    qed
  qed
qed

lemma rows_grouped:
  assumes "lfold (add_row pd stg) rs [] es = (Inr gs, es')"
  shows "groups_ok rs gs es'"
  using assms
  by (rule lfold_prefix [where P = groups_ok]) (auto simp: groups_ok_def [of "[]"] intro: add_row_step)

section \<open>The finished vouchers\<close>

lemma side_flip [simp]: "vl_source_row (flip_side l) = vl_source_row l" "line_wf (flip_side l) = line_wf l"
  "vl_amount (flip_side l) = vl_amount l" "vl_is_debit (flip_side l) = (\<not> vl_is_debit l)"
  by (simp_all add: flip_side_def line_wf_def)

lemma mk_line_wf: "mk_line nm dr a src item q rt u = Inr l \<Longrightarrow> line_wf l"
  using mk_line_Inr by blast

lemma party_leg_shape: "party_leg b party src ls = Inr ls' \<Longrightarrow> ls' = ls \<or> (\<exists>l. ls' = ls @ [l] \<and> line_wf l)"
  using mk_line_wf by (fastforce simp: party_leg_def Let_def rbind_Inr split: option.splits if_splits)

lemma round_off_shape: "round_off src ls = Inr ls' \<Longrightarrow> ls' = ls \<or> (\<exists>l. ls' = ls @ [l] \<and> line_wf l)"
  unfolding round_off_def Let_def
  by (cases "d_lt d_zero (d_abs (d_sub (dr_sum ls) (cr_sum ls))) \<and> d_le (d_abs (d_sub (dr_sum ls) (cr_sum ls))) d_099")
    (auto simp: rbind_Inr intro: mk_line_wf)

lemma final_lines_keep:
  assumes "final_lines g party refund = Inr ls"
  shows "(\<forall>l\<in>set (gr_lines g). line_wf l) \<Longrightarrow> \<forall>l\<in>set ls. line_wf l"
    and "\<forall>l\<in>set (gr_lines g). \<exists>l'\<in>set ls. vl_source_row l' = vl_source_row l"
proof -
  obtain ls1 ls2 where "party_leg (gr_gst_mode g) party (gr_first_row g) (gr_lines g) = Inr ls1"
    "round_off (gr_first_row g) ls1 = Inr ls2" and ls: "ls = (if refund \<and> gr_gst_mode g then map flip_side ls2 else ls2)"
    using assms by (auto simp: final_lines_def rbind_Inr)
  then have m: "set (gr_lines g) \<subseteq> set ls2" "(\<forall>l\<in>set (gr_lines g). line_wf l) \<Longrightarrow> \<forall>l\<in>set ls2. line_wf l"
    by (auto dest!: party_leg_shape round_off_shape)
  show "(\<forall>l\<in>set (gr_lines g). line_wf l) \<Longrightarrow> \<forall>l\<in>set ls. line_wf l"
    using m(2) by (simp add: ls)
  show "\<forall>l\<in>set (gr_lines g). \<exists>l'\<in>set ls. vl_source_row l' = vl_source_row l"
    using m(1) by (fastforce simp: ls)
qed

lemma finalize_group_Some:
  assumes "finalize_group stg g es = (Inr (Some v), es')"
  shows "is_balanced v" "v_reference v = Some (gr_vnum g)" "v_source_row v = Some (gr_first_row g)"
    "final_lines g (v_party_ledger v) (is_refund (gr_ttypes g)) = Inr (v_lines v)"
    "dedup (gr_dates g) = [v_date v]" "is_refund (gr_ttypes g) \<Longrightarrow> v_type v = ''Credit Note''"
    "\<not> is_refund (gr_ttypes g) \<Longrightarrow> v_type v \<in> set (gr_vtypes g)"
proof -
  have "x \<in> set (gr_vtypes g)" if "dedup (gr_vtypes g) = x # xs" for x xs
    using that by (metis list.set_intros(1) set_dedup)
  with assms show "is_balanced v" "v_reference v = Some (gr_vnum g)" "v_source_row v = Some (gr_first_row g)"
    "final_lines g (v_party_ledger v) (is_refund (gr_ttypes g)) = Inr (v_lines v)"
    "dedup (gr_dates g) = [v_date v]" "is_refund (gr_ttypes g) \<Longrightarrow> v_type v = ''Credit Note''"
    "\<not> is_refund (gr_ttypes g) \<Longrightarrow> v_type v \<in> set (gr_vtypes g)"
    by (auto simp: finalize_group_def Let_def lbind_Inr split: list.splits if_splits)
qed

lemma finalize_group_None:
  "finalize_group stg g es = (Inr None, es') \<Longrightarrow> \<exists>e\<in>set es'. row_error (gr_first_row g) e"
  by (auto simp: finalize_group_def Let_def lbind_Inr split: list.splits if_splits)

text \<open>Finishing the groups in turn: each gives a voucher, or an error about its first row.\<close>

definition voucher_of :: "vgroup \<Rightarrow> voucher \<Rightarrow> bool" where
  "voucher_of g v \<longleftrightarrow> is_balanced v \<and> v_reference v = Some (gr_vnum g) \<and>
     v_source_row v = Some (gr_first_row g) \<and>
     final_lines g (v_party_ledger v) (is_refund (gr_ttypes g)) = Inr (v_lines v)"

definition vouchers_ok :: "(string \<times> vgroup) list \<Rightarrow> voucher list \<Rightarrow> envelope list \<Rightarrow> bool" where
  "vouchers_ok gs vs es \<longleftrightarrow>
     (\<forall>v\<in>set vs. \<exists>(k, g)\<in>set gs. voucher_of g v) \<and>
     (\<forall>(k, g)\<in>set gs. (\<exists>e\<in>set es. row_error (gr_first_row g) e) \<or> (\<exists>v\<in>set vs. voucher_of g v)) \<and>
     subseq (map (\<lambda>v. the (v_reference v)) vs) (map (gr_vnum \<circ> snd) gs)"

lemma groups_finished:
  assumes "finalize stg gs es = (Inr vs, es')"
  shows "vouchers_ok gs vs es'"
  using assms unfolding finalize_def
proof (rule lfold_prefix [where P = vouchers_ok])
  show "vouchers_ok [] [] es" by (simp add: vouchers_ok_def)
next
  fix ys zs :: groups and kg :: "string \<times> vgroup" and vs es vs' es'
  assume ok: "vouchers_ok ys vs es"
    and step: "(case kg of (_, g) \<Rightarrow> \<lambda>vs. lbind (finalize_group stg g) (\<lambda>v. lret (vs @ opt_list v))) vs es = (Inr vs', es')"
  obtain k g where kg: "kg = (k, g)" by fastforce
  with step obtain v where v: "finalize_group stg g es = (Inr v, es')" "vs' = vs @ opt_list v"
    by (auto simp: lbind_Inr)
  have es: "set es \<subseteq> set es'" by (rule logs_prefix [OF logs_finalize_group v(1)])
  show "vouchers_ok (ys @ [kg]) vs' es'"
  proof (cases v)
    case None
    have "\<exists>e\<in>set es'. row_error (gr_first_row g) e" using finalize_group_None v None by blast
    moreover have "subseq (map (\<lambda>v. the (v_reference v)) vs) (map (gr_vnum \<circ> snd) (ys @ [kg]))"
      using ok by (auto simp: vouchers_ok_def intro: list_emb_append2)
    ultimately show ?thesis using ok es v None kg
      by (auto simp: vouchers_ok_def opt_list_def) blast+
  next
    case (Some w)
    then have w: "voucher_of g w" using finalize_group_Some [of stg g es w es'] v by (simp add: voucher_of_def)
    have "subseq (map (\<lambda>v. the (v_reference v)) vs @ [gr_vnum g]) (map (gr_vnum \<circ> snd) ys @ [gr_vnum g])"
      using ok by (intro list_emb_append_mono) (auto simp: vouchers_ok_def)
    then show ?thesis using ok es v Some w kg
      by (auto simp: vouchers_ok_def opt_list_def voucher_of_def) blast+
  qed
qed

lemma set_enumerate1: "(i, r) \<in> set (enumerate1 rs) \<longleftrightarrow> (\<exists>n<length rs. i = Suc n \<and> r = rs ! n)"
  unfolding enumerate1_def set_zip by (auto simp del: upt_Suc) (rule_tac x = n in exI, simp del: upt_Suc)

lemma rows_to_vouchers_facts:
  assumes "rows_to_vouchers pd stg rows [] = (Inr vs, es)"
  obtains gs es1 where "groups_ok (enumerate1 rows) gs es1" "vouchers_ok gs vs es" "set es1 \<subseteq> set es"
proof -
  from assms obtain gs es1 where gs: "lfold (add_row pd stg) (enumerate1 rows) [] [] = (Inr gs, es1)"
    and vs: "finalize stg gs es1 = (Inr vs, es)"
    by (auto simp: rows_to_vouchers_def lbind_Inr)
  show thesis using rows_grouped [OF gs] groups_finished [OF vs] logs_prefix [OF logs_finalize vs] by (rule that)
qed

lemma voucher_of_line_wf:
  assumes "groups_ok rs gs es1" "(k, g) \<in> set gs" "voucher_of g v"
  shows "\<forall>l\<in>set (v_lines v). line_wf l"
proof -
  have "group_ok rs k g" using assms(1,2) by (auto simp: groups_ok_def)
  then have "\<forall>l\<in>set (gr_lines g). line_wf l" by (auto simp: group_ok_def line_of_row_def)
  with assms(3) final_lines_keep(1) show ?thesis unfolding voucher_of_def by blast
qed

lemma vouchers_distinct:
  assumes "groups_ok rs gs es1" "vouchers_ok gs vs es"
  shows "distinct (map (\<lambda>v. norm_name (the (v_reference v))) vs)"
proof -
  have keys: "map (norm_name \<circ> gr_vnum \<circ> snd) gs = map fst gs"
    using assms(1) by (auto simp: groups_ok_def group_ok_def)
  have "subseq (map norm_name (map (\<lambda>v. the (v_reference v)) vs)) (map norm_name (map (gr_vnum \<circ> snd) gs))"
    using assms(2) unfolding vouchers_ok_def by (intro subseq_map) blast
  then have "subseq (map (\<lambda>v. norm_name (the (v_reference v))) vs) (map fst gs)"
    unfolding keys [symmetric] map_map comp_assoc by (simp add: comp_def)
  then obtain N where "map (\<lambda>v. norm_name (the (v_reference v))) vs = nths (map fst gs) N"
    by (auto simp: subseq_conv_nths)
  then show ?thesis using assms(1) distinct_nthsI unfolding groups_ok_def by metis
qed

section \<open>Properties of the grouping\<close>

text \<open>
  C1: Whatever the rows, \<open>rows_to_vouchers\<close> only returns vouchers whose debits equal their
  credits, whose lines are well formed (a ledger, no negative amount), and at most one per
  voucher number, up to case and spacing.
\<close>

theorem rows_to_vouchers_sound:
  assumes "rows_to_vouchers pd stg rows [] = (Inr vs, es)"
  shows "(\<forall>v\<in>set vs. is_balanced v \<and> (\<forall>l\<in>set (v_lines v). line_wf l)) \<and>
    distinct (map (\<lambda>v. norm_name (the (v_reference v))) vs)"
proof -
  from assms obtain gs es1 where g: "groups_ok (enumerate1 rows) gs es1" "vouchers_ok gs vs es"
    by (rule rows_to_vouchers_facts)
  have "is_balanced v \<and> (\<forall>l\<in>set (v_lines v). line_wf l)" if "v \<in> set vs" for v
  proof -
    from that g(2) obtain k gr where "(k, gr) \<in> set gs" "voucher_of gr v"
      unfolding vouchers_ok_def by blast
    then show ?thesis using voucher_of_line_wf [OF g(1)] unfolding voucher_of_def by blast
  qed
  with vouchers_distinct [OF g] show ?thesis by blast
qed

text \<open>
  C4: No row is lost in silence: each row of the file is the source of a line of a returned
  voucher, or there is an error about that row or about a row with the same voucher number.
\<close>

theorem rows_accounted_for:
  assumes "rows_to_vouchers pd stg rows [] = (Inr vs, es)" "n < length rows"
  shows "(\<exists>v\<in>set vs. \<exists>l\<in>set (v_lines v). vl_source_row l = Some (Suc n)) \<or>
    (\<exists>e\<in>set es. row_error (Suc n) e) \<or>
    (\<exists>m<length rows. \<exists>e\<in>set es. row_error (Suc m) e \<and> voucher_number (rows ! n) \<noteq> None \<and>
       map_option norm_name (voucher_number (rows ! m)) = map_option norm_name (voucher_number (rows ! n)))"
proof -
  from assms(1) obtain gs es1 where g: "groups_ok (enumerate1 rows) gs es1" "vouchers_ok gs vs es"
    and es: "set es1 \<subseteq> set es"
    by (rule rows_to_vouchers_facts)
  have "row_done gs es1 (Suc n) (rows ! n)"
    using g(1) assms(2) set_enumerate1 [of "Suc n" "rows ! n" rows] unfolding groups_ok_def by blast
  then consider (err) "\<exists>e\<in>set es1. row_error (Suc n) e"
    | (line) k gr l where "map_option norm_name (voucher_number (rows ! n)) = Some k" "dget gs k = Some gr"
        "l \<in> set (gr_lines gr)" "vl_source_row l = Some (Suc n)"
    unfolding row_done_def by blast
  then show ?thesis
  proof cases
    case err
    then show ?thesis using es by blast
  next
    case line
    then have gr: "(k, gr) \<in> set gs" by (simp add: map_of_SomeD)
    then consider (e) e where "e \<in> set es" "row_error (gr_first_row gr) e" | (v) v where "v \<in> set vs" "voucher_of gr v"
      using g(2) unfolding vouchers_ok_def by blast
    then show ?thesis
    proof cases
      case e
      obtain r where "(gr_first_row gr, r) \<in> set (enumerate1 rows)" "map_option norm_name (voucher_number r) = Some k"
        using g(1) gr unfolding groups_ok_def group_ok_def by blast
      then obtain m where m: "gr_first_row gr = Suc m" "m < length rows"
        "map_option norm_name (voucher_number (rows ! m)) = Some k"
        by (auto simp: set_enumerate1)
      have "voucher_number (rows ! n) \<noteq> None" using line(1) by auto
      with m e line(1) show ?thesis by metis
    next
      case v
      then show ?thesis using final_lines_keep(2) line(3,4) unfolding voucher_of_def by metis
    qed
  qed
qed

section \<open>Balancing\<close>

lemma scaled_val: "e \<le> dexp d \<Longrightarrow> val d = of_int n * 10 powi e \<Longrightarrow> scaled e d = n"
  by (simp add: val_scaled)

lemma sint_le_scaled: "e \<le> dexp d \<Longrightarrow> \<bar>sint_of d\<bar> \<le> \<bar>scaled e d\<bar>"
  using scaled_mono [of e "dexp d" d] by (simp add: scaled_def)

lemma val_sum_scaled:
  "\<forall>d\<in>set ds. e \<le> dexp d \<Longrightarrow> (\<Sum>d\<leftarrow>ds. val d) = of_int (\<Sum>d\<leftarrow>ds. scaled e d) * 10 powi e"
  by (induction ds) (auto simp: distrib_right val_scaled)

lemma abs_sum_le: "\<bar>\<Sum>x\<leftarrow>xs. f x\<bar> \<le> (\<Sum>x\<leftarrow>xs. \<bar>f x :: int\<bar>)"
  by (induction xs) auto

definition weight :: "nat \<Rightarrow> voucher_line list \<Rightarrow> int" where
  "weight k ls = (\<Sum>l\<leftarrow>ls. \<bar>scaled (- int k) (vl_amount l)\<bar>)"

lemma exact_lines_weight: "exact_lines k ls \<longleftrightarrow>
  (\<forall>l\<in>set ls. - int k \<le> dexp (vl_amount l)) \<and> weight k ls < 10 ^ context_prec"
  by (simp add: exact_lines_def weight_def)

lemma side_exact:
  assumes "exact_lines k ls"
  shows "- int k \<le> dexp (d_sum (map vl_amount (filter P ls)))"
    and "scaled (- int k) (d_sum (map vl_amount (filter P ls))) = (\<Sum>l\<leftarrow>filter P ls. scaled (- int k) (vl_amount l))"
proof -
  have "(\<Sum>l\<leftarrow>filter P ls. f l) \<le> (\<Sum>l\<leftarrow>ls. f l)" if "\<And>x. 0 \<le> f x" for f :: "voucher_line \<Rightarrow> int"
    using that by (induction ls) (auto simp: add_increasing)
  from this [of "\<lambda>l. \<bar>scaled (- int k) (vl_amount l)\<bar>"]
  have "(\<Sum>d\<leftarrow>map vl_amount (filter P ls). \<bar>scaled (- int k) d\<bar>) < 10 ^ context_prec"
    using assms by (simp add: exact_lines_def comp_def)
  then have e: "val (d_sum (map vl_amount (filter P ls))) = (\<Sum>d\<leftarrow>map vl_amount (filter P ls). val d) \<and>
      - int k \<le> dexp (d_sum (map vl_amount (filter P ls)))"
    using assms by (intro d_sum_exact) (auto simp: exact_lines_def)
  then show "- int k \<le> dexp (d_sum (map vl_amount (filter P ls)))" ..
  show "scaled (- int k) (d_sum (map vl_amount (filter P ls))) = (\<Sum>l\<leftarrow>filter P ls. scaled (- int k) (vl_amount l))"
    using e assms val_sum_scaled [of "map vl_amount (filter P ls)" "- int k"]
    by (intro scaled_val) (auto simp: exact_lines_def comp_def)
qed

text \<open>The signed total of the lines in units of the last decimal place.\<close>

definition net_scaled :: "nat \<Rightarrow> voucher_line list \<Rightarrow> int" where
  "net_scaled k ls = (\<Sum>l\<leftarrow>ls. if vl_is_debit l then scaled (- int k) (vl_amount l) else - scaled (- int k) (vl_amount l))"

lemma net_scaled_bound: "\<bar>net_scaled k ls\<bar> \<le> weight k ls"
  unfolding net_scaled_def weight_def by (induction ls) auto

lemma net_value_scaled:
  "\<forall>l\<in>set ls. - int k \<le> dexp (vl_amount l) \<Longrightarrow> net_value ls = of_int (net_scaled k ls) * 10 powi (- int k)"
  by (induction ls) (auto simp: net_value_def net_scaled_def val_scaled [of "- int k"] algebra_simps)

lemma gap_exact:
  assumes "exact_lines k ls"
  shows "scaled (- int k) (d_sub (dr_sum ls) (cr_sum ls)) = net_scaled k ls"
    and "val (d_sub (dr_sum ls) (cr_sum ls)) = net_value ls" "- int k \<le> dexp (d_sub (dr_sum ls) (cr_sum ls))"
    and "val (d_sub (cr_sum ls) (dr_sum ls)) = - net_value ls" "- int k \<le> dexp (d_sub (cr_sum ls) (dr_sum ls))"
    and "scaled (- int k) (d_sub (cr_sum ls) (dr_sum ls)) = - net_scaled k ls"
proof -
  let ?k = "- int k"
  have n: "net_scaled k ls = (\<Sum>l\<leftarrow>filter vl_is_debit ls. scaled ?k (vl_amount l)) -
      (\<Sum>l\<leftarrow>filter (\<lambda>l. \<not> vl_is_debit l) ls. scaled ?k (vl_amount l))"
    unfolding net_scaled_def by (induction ls) auto
  have s: "scaled ?k (dr_sum ls) - scaled ?k (cr_sum ls) = net_scaled k ls"
    using side_exact(2) [OF assms] by (simp add: dr_sum_def cr_sum_def n)
  have e: "?k \<le> dexp (dr_sum ls)" "?k \<le> dexp (cr_sum ls)"
    using side_exact(1) [OF assms] by (simp_all add: dr_sum_def cr_sum_def)
  have b: "\<bar>scaled ?k (dr_sum ls) - scaled ?k (cr_sum ls)\<bar> < 10 ^ context_prec"
    "\<bar>scaled ?k (cr_sum ls) - scaled ?k (dr_sum ls)\<bar> < 10 ^ context_prec"
    using net_scaled_bound [of k ls] assms s unfolding exact_lines_weight by linarith+
  have v: "net_value ls = val (dr_sum ls) - val (cr_sum ls)"
    using assms s e net_value_scaled [of ls k] val_scaled [OF e(1)] val_scaled [OF e(2)]
    by (simp add: exact_lines_weight left_diff_distrib [symmetric] flip: of_int_diff s)
  note d1 = d_sub_exact [OF e b(1)] and d2 = d_sub_exact [OF e(2,1) b(2)]
  show "val (d_sub (dr_sum ls) (cr_sum ls)) = net_value ls" "val (d_sub (cr_sum ls) (dr_sum ls)) = - net_value ls"
    using d1 d2 v by simp_all
  show e1: "?k \<le> dexp (d_sub (dr_sum ls) (cr_sum ls))" and e2: "?k \<le> dexp (d_sub (cr_sum ls) (dr_sum ls))"
    using d1(2) d2(2) e by simp_all
  have nv: "net_value ls = of_int (net_scaled k ls) * 10 powi ?k"
    using assms by (intro net_value_scaled) (simp add: exact_lines_weight)
  show "scaled ?k (d_sub (dr_sum ls) (cr_sum ls)) = net_scaled k ls"
    "scaled ?k (d_sub (cr_sum ls) (dr_sum ls)) = - net_scaled k ls"
    using d1(1) d2(1) v nv by (auto intro!: scaled_val e1 e2)
qed

lemma d_abs_exact:
  assumes "- int k \<le> dexp d" "\<bar>scaled (- int k) d\<bar> < 10 ^ context_prec"
  shows "val (d_abs d) = \<bar>val d\<bar>" "d_abs (d_abs d) = d_abs d" "dexp (d_abs d) = dexp d"
    "scaled (- int k) (d_abs d) = \<bar>scaled (- int k) d\<bar>"
proof -
  have "int (dcoef d) < 10 ^ context_prec"
    using sint_le_scaled [OF assms(1)] assms(2) by (simp add: dcoef_sint_of)
  then have "dcoef d < 10 ^ context_prec" by (metis of_nat_less_numeral_power_cancel_iff)
  then show "val (d_abs d) = \<bar>val d\<bar>" "d_abs (d_abs d) = d_abs d" "dexp (d_abs d) = dexp d"
    "scaled (- int k) (d_abs d) = \<bar>scaled (- int k) d\<bar>"
    by (simp_all add: val_abs) (simp_all add: d_abs_def d_fix_id scaled_def sint_of_def abs_mult)
qed

lemma mk_line_vals:
  "mk_ledger_line nm dr (Fin a) src = Inr l \<Longrightarrow> vl_amount l = d_abs a \<and> vl_is_debit l = dr \<and> vl_ledger l = strip nm"
  using mk_line_Inr [of nm dr "Fin a" src None None None None l] by auto

text \<open>A leg that closes the gap of a list of lines.\<close>

lemma net_value_snoc:
  "net_value (ls @ [l]) = net_value ls + (if vl_is_debit l then val (vl_amount l) else - val (vl_amount l))"
  by (simp add: net_value_def)

lemma weight_snoc: "weight k (ls @ [l]) = weight k ls + \<bar>scaled (- int k) (vl_amount l)\<bar>"
  by (simp add: weight_def)

lemma val_099 [simp]: "val d_099 = 99 / 100"
  by (simp add: d_099_def val_def sint_of_def)

lemma round_off_cases:
  assumes "round_off src ls = Inr ls'" and e: "exact_lines k ls"
  shows "(\<bar>net_value ls\<bar> \<le> 99 / 100 \<longrightarrow> net_value ls' = 0) \<and>
    (99 / 100 < \<bar>net_value ls\<bar> \<longrightarrow> ls' = ls)"
proof -
  let ?d = "d_sub (dr_sum ls) (cr_sum ls)"
  have b: "\<bar>scaled (- int k) ?d\<bar> < 10 ^ context_prec"
    using gap_exact(1) [OF e] net_scaled_bound [of k ls] e by (simp add: exact_lines_weight)
  note a = d_abs_exact [OF gap_exact(3) [OF e] b]
  have v: "val ?d = net_value ls" by (rule gap_exact(2) [OF e])
  show ?thesis
  proof (cases "d_lt d_zero (d_abs ?d) \<and> d_le (d_abs ?d) d_099")
    case True
    then obtain l where l: "mk_ledger_line ''Round Off'' (d_lt ?d d_zero) (Fin (d_abs ?d)) (Some src) = Inr l" "ls' = ls @ [l]"
      using assms(1) by (auto simp: round_off_def Let_def rbind_Inr)
    from mk_line_vals [OF l(1)] have "val (vl_amount l) = \<bar>net_value ls\<bar>" "vl_is_debit l \<longleftrightarrow> net_value ls < 0"
      using a v by (simp_all add: d_lt_iff)
    then have "net_value ls' = 0" by (simp add: l(2) net_value_snoc)
    moreover have "\<bar>net_value ls\<bar> \<le> 99 / 100" using True a v by (simp add: d_le_iff)
    ultimately show ?thesis by simp
  next
    case False
    then have "ls' = ls" using assms(1) by (auto simp: round_off_def Let_def)
    then show ?thesis using False a v by (auto simp: d_lt_iff d_le_iff)
  qed
qed

lemma party_leg_cases:
  assumes "party_leg gst party src ls = Inr ls'" and e: "exact_lines k ls"
  shows "(gst \<and> party \<noteq> None \<and> 99 / 100 < \<bar>net_value ls\<bar> \<longrightarrow> net_value ls' = 0) \<and>
    (\<not> (gst \<and> party \<noteq> None \<and> 99 / 100 < \<bar>net_value ls\<bar>) \<longrightarrow> ls' = ls) \<and>
    (\<forall>l\<in>set ls'. - int k \<le> dexp (vl_amount l)) \<and> weight k ls' \<le> 2 * weight k ls"
proof -
  let ?d = "d_sub (cr_sum ls) (dr_sum ls)"
  have b: "\<bar>scaled (- int k) ?d\<bar> < 10 ^ context_prec" and w: "\<bar>scaled (- int k) ?d\<bar> \<le> weight k ls"
    using gap_exact(6) [OF e] net_scaled_bound [of k ls] e by (simp_all add: exact_lines_weight)
  note a = d_abs_exact [OF gap_exact(5) [OF e] b]
  have v: "val ?d = - net_value ls" by (rule gap_exact(4) [OF e])
  have pos: "0 \<le> weight k ls" unfolding weight_def by (rule sum_list_nonneg) auto
  show ?thesis
  proof (cases "gst \<and> party \<noteq> None \<and> d_lt d_099 (d_abs ?d)")
    case True
    then obtain p l where l: "mk_ledger_line p (d_lt d_zero ?d) (Fin (d_abs ?d)) (Some src) = Inr l" "ls' = ls @ [l]"
      using assms(1) by (auto simp: party_leg_def Let_def rbind_Inr)
    note m = mk_line_vals [OF l(1)]
    then have vl: "val (vl_amount l) = \<bar>net_value ls\<bar>" "vl_is_debit l \<longleftrightarrow> net_value ls < 0"
      using a v by (simp_all add: d_lt_iff)
    then have "net_value ls' = 0" by (simp add: l(2) net_value_snoc)
    moreover have "weight k ls' \<le> 2 * weight k ls" "\<forall>l\<in>set ls'. - int k \<le> dexp (vl_amount l)"
      using m a w gap_exact(5) [OF e] e by (auto simp: l(2) weight_snoc exact_lines_weight)
    moreover have "99 / 100 < \<bar>net_value ls\<bar>" using True a v by (simp add: d_lt_iff)
    ultimately show ?thesis using True by simp
  next
    case False
    then have "ls' = ls" using assms(1) by (auto simp: party_leg_def Let_def split: option.splits)
    then show ?thesis using False a v e pos by (auto simp: d_lt_iff exact_lines_weight)
  qed
qed

lemma net_value_flip: "net_value (map flip_side ls) = - net_value ls"
  by (induction ls) (auto simp: net_value_def flip_side_def)

lemma flip_sums: "dr_sum (map flip_side ls) = cr_sum ls" "cr_sum (map flip_side ls) = dr_sum ls"
  by (simp_all add: dr_sum_def cr_sum_def filter_map comp_def flip_side_def)

section \<open>Properties of the balancing\<close>

text \<open>
  The legs \<open>_finalize\<close> adds close a group exactly when they should: a group with computed tax
  and a party is always balanced by the party's leg and the rounding, any other group if and only
  if its gap is below a rupee.  (The amounts have at most \<open>k\<close> decimals and twice their sum fits the
  precision.)
\<close>

theorem final_lines_balance:
  assumes "final_lines g party refund = Inr ls"
    and "\<forall>l\<in>set (gr_lines g). - int k \<le> dexp (vl_amount l)" "2 * weight k (gr_lines g) < 10 ^ context_prec"
  shows "net_value ls = 0 \<longleftrightarrow> gr_gst_mode g \<and> party \<noteq> None \<or> \<bar>net_value (gr_lines g)\<bar> \<le> 99 / 100"
proof -
  from assms(1) obtain l1 l2 where l1: "party_leg (gr_gst_mode g) party (gr_first_row g) (gr_lines g) = Inr l1"
    and l2: "round_off (gr_first_row g) l1 = Inr l2" and ls: "ls = (if refund \<and> gr_gst_mode g then map flip_side l2 else l2)"
    by (auto simp: final_lines_def rbind_Inr)
  have pos: "0 \<le> weight k (gr_lines g)" unfolding weight_def by (rule sum_list_nonneg) auto
  have e: "exact_lines k (gr_lines g)" using assms(2,3) pos by (simp add: exact_lines_weight)
  note p = party_leg_cases [OF l1 e]
  have e1: "exact_lines k l1" using p assms(3) unfolding exact_lines_weight by linarith
  note r = round_off_cases [OF l2 e1]
  have "net_value ls = 0 \<longleftrightarrow> net_value l2 = 0" by (simp add: ls net_value_flip)
  then show ?thesis using p r by auto
qed

text \<open>
  Reversing a sale into a credit note flips every leg and keeps the voucher balanced, and
  negates its net effect.
\<close>

theorem reversal_balanced:
  "is_balanced (v\<lparr>v_lines := map flip_side (v_lines v)\<rparr>) = is_balanced v \<and>
   net_value (map flip_side (v_lines v)) = - net_value (v_lines v)"
  using flip_sums [of "v_lines v"]
  by (auto simp: is_balanced_def debit_total_def credit_total_def dr_sum_def cr_sum_def net_value_flip d_lt_iff d_eq_iff)

section \<open>Examples\<close>

text \<open>Rows of a journal: the ledger and the side vary.\<close>

definition sample_row :: "string \<Rightarrow> string \<Rightarrow> string \<Rightarrow> row" where
  "sample_row ledger amt side =
     [''voucher_number'' \<mapsto> CStr ''V1'', ''ledger_name'' \<mapsto> CStr ledger, ''amount'' \<mapsto> CStr amt,
      ''dr_cr'' \<mapsto> CStr side, ''date'' \<mapsto> CDate (Date 2024 4 15) ''2024-04-15'', ''voucher_type'' \<mapsto> CStr ''Journal'']"

lemma rget_sample:
  "rget (sample_row a m b) ''order_id'' = CNone" "rget (sample_row a m b) ''voucher_number'' = CStr ''V1''"
  "rget (sample_row a m b) ''ledger_name'' = CStr a" "rget (sample_row a m b) ''amount'' = CStr m"
  "rget (sample_row a m b) ''dr_cr'' = CStr b" "rget (sample_row a m b) ''voucher_type'' = CStr ''Journal''"
  "rget (sample_row a m b) ''date'' = CDate (Date 2024 4 15) ''2024-04-15''"
  "k \<in> set [''debit'', ''credit'', ''stock_item'', ''party_ledger'', ''narration'', ''party_gstin'',
     ''transaction_type'', ''gst_rate''] \<Longrightarrow> rget (sample_row a m b) k = CNone"
  by (auto simp: rget_def sample_row_def)

lemma sample_cells:
  "coerce_str (CStr ''V1'') = Some ''V1''" "coerce_str (CStr ''Cash'') = Some ''Cash''"
  "coerce_str (CStr ''Rent'') = Some ''Rent''" "coerce_str (CStr ''Journal'') = Some ''Journal''"
  "coerce_amount_drcr (CStr ''100'') (CStr ''dr'') = Inr (Some (Fin (Dec False 100 0), True))"
  "coerce_amount_drcr (CStr ''100'') (CStr ''cr'') = Inr (Some (Fin (Dec False 100 0), False))"
  "coerce_amount_drcr (CStr ''inf'') (CStr ''dr'') = Inr (Some (Infi False, True))"
  "is_blank (CDate (Date 2024 4 15) ''2024-04-15'') = False"
  "norm_name ''V1'' = ''v1''" "norm_name ''Journal'' = ''journal''"
  "strip ''Cash'' = ''Cash''" "strip ''Rent'' = ''Rent''"
  by code_simp+

lemmas voucher_eval = rows_to_vouchers_def enumerate1_def add_row_def voucher_number_def first_of_def
  truthy_def line_amount_def record_line_def header_dates_def coerce_date_def add_header_def setdefault_def
  new_group_def opt_list_def tax_lines_def mk_line_def strip_name_def finite_opt_def finalize_def
  finalize_group_def final_lines_def party_leg_def round_off_def is_refund_def dr_sum_def cr_sum_def
  is_balanced_def debit_total_def credit_total_def dedup_def d_099_def Let_def

definition sample_voucher :: voucher where
  "sample_voucher =
     \<lparr>v_type = ''Journal'', v_date = Date 2024 4 15,
      v_lines =
        [\<lparr>vl_ledger = ''Cash'', vl_is_debit = True, vl_amount = Dec False 100 0, vl_source_row = Some 1,
          vl_stock_item = None, vl_quantity = None, vl_rate = None, vl_unit = None\<rparr>,
         \<lparr>vl_ledger = ''Rent'', vl_is_debit = False, vl_amount = Dec False 100 0, vl_source_row = Some 2,
          vl_stock_item = None, vl_quantity = None, vl_rate = None, vl_unit = None\<rparr>],
      v_action = CREATE, v_narration = None, v_reference = Some ''V1'', v_party_ledger = None,
      v_party_gstin = None, v_guid = None, v_master_id = None, v_source_row = Some 1\<rparr>"

lemma sample_vouchers:
  "rows_to_vouchers (\<lambda>_ _. None) CONVERT [sample_row ''Cash'' ''100'' ''dr'', sample_row ''Rent'' ''100'' ''cr''] [] =
     (Inr [sample_voucher], [])"
  by (simp add: voucher_eval sample_voucher_def logged_eval rget_sample sample_cells dec_eval cong: eval_congs)

theorem rows_to_vouchers_sound_witness:
  "\<exists>v es. rows_to_vouchers (\<lambda>_ _. None) CONVERT
       [sample_row ''Cash'' ''100'' ''dr'', sample_row ''Rent'' ''100'' ''cr''] [] = (Inr [v], es) \<and>
     is_balanced v \<and> (\<forall>l\<in>set (v_lines v). line_wf l)"
  using rows_to_vouchers_sound [OF sample_vouchers] sample_vouchers by simp

theorem rows_accounted_for_witness:
  "\<exists>v es. rows_to_vouchers (\<lambda>_ _. None) CONVERT
       [sample_row ''Cash'' ''100'' ''dr'', sample_row ''Rent'' ''100'' ''cr''] [] = (Inr [v], es) \<and>
     (\<exists>l\<in>set (v_lines v). vl_source_row l = Some (Suc 1))"
  using rows_accounted_for [OF sample_vouchers, of 1] sample_vouchers by simp

text \<open>
  An amount that Python's decimals accept and the model classes refuse, such as \<open>inf\<close>, is not
  reported as an error of its row: the whole conversion raises.
\<close>

theorem infinite_amount_raises:
  "rows_to_vouchers (\<lambda>_ _. None) CONVERT
     [sample_row ''Cash'' ''100'' ''dr'', sample_row ''Rent'' ''inf'' ''dr''] [] = (Inl ValueError, [])"
  by (simp add: voucher_eval logged_eval rget_sample sample_cells dec_eval cong: eval_congs)

definition sample_sale :: vgroup where
  "sample_sale = (new_group ''S1'' 1)\<lparr>gr_gst_mode := True, gr_lines :=
     [\<lparr>vl_ledger = ''Sales'', vl_is_debit = False, vl_amount = Dec False 10005 (- 2), vl_source_row = Some 1,
       vl_stock_item = None, vl_quantity = None, vl_rate = None, vl_unit = None\<rparr>,
      \<lparr>vl_ledger = ''Output IGST'', vl_is_debit = False, vl_amount = Dec False 1801 (- 2), vl_source_row = Some 1,
       vl_stock_item = None, vl_quantity = None, vl_rate = None, vl_unit = None\<rparr>]\<rparr>"

theorem final_lines_balance_witness:
  "\<exists>ls. final_lines sample_sale (Some ''Asha'') False = Inr ls \<and> net_value ls = 0"
proof -
  have "strip ''Asha'' = ''Asha''" by code_simp
  then have f: "\<exists>ls. final_lines sample_sale (Some ''Asha'') False = Inr ls"
    by (simp add: sample_sale_def new_group_def final_lines_def party_leg_def round_off_def dr_sum_def cr_sum_def
        d_099_def mk_line_def strip_name_def finite_opt_def dec_eval cong: eval_congs)
  have w: "\<forall>l\<in>set (gr_lines sample_sale). - int 2 \<le> dexp (vl_amount l)"
    "2 * weight 2 (gr_lines sample_sale) < 10 ^ context_prec"
    by (simp_all add: sample_sale_def weight_def dec_eval)
  have "gr_gst_mode sample_sale" by (simp add: sample_sale_def)
  then show ?thesis using f final_lines_balance [OF _ w] by blast
qed

end
