(* ===== verification/Settlements.thy ===== *)
theory Settlements
  imports Vouchers
begin

text \<open>
  The rest of \<open>app/pipeline/voucher.py\<close>: the journals of marketplace settlements and the daily
  summary of the sales to consumers.
\<close>

section \<open>Marketplace settlements\<close>

definition pos_dec :: "cell \<Rightarrow> dec option res" where
  "pos_dec c =
     (if is_blank c then Inr None
      else case coerce_decimal c of
          Inl e \<Rightarrow> if e = ValueError then Inr None else Inl e
        | Inr None \<Rightarrow> Inr None
        | Inr (Some d) \<Rightarrow> rbind (of_trap (dec_abs d)) (\<lambda>a. Inr (Some a)))"

definition deduction :: "cell \<Rightarrow> dec res" where
  "deduction c =
     rbind (pos_dec c) (\<lambda>x.
       Inr (case x of None \<Rightarrow> Fin d_zero | Some d \<Rightarrow> if dec_truthy d then d else Fin d_zero))"

definition dr_leg :: "string \<Rightarrow> dec \<Rightarrow> nat \<Rightarrow> voucher_line list res" where
  \<comment> \<open>a debit leg, where the amount is positive\<close>
  "dr_leg ledger amt i =
     rbind (of_trap (dec_lt (Fin d_zero) amt)) (\<lambda>pos.
       if pos then rbind (mk_ledger_line ledger True amt (Some i)) (\<lambda>l. Inr [l]) else Inr [])"

definition settlement_lines ::
    "string \<Rightarrow> string \<Rightarrow> dec \<Rightarrow> dec \<Rightarrow> dec \<Rightarrow> dec \<Rightarrow> dec \<Rightarrow> nat \<Rightarrow> voucher_line list res" where
  "settlement_lines party bank gross net comm fee tcs i =
     rbind (mk_ledger_line party False gross (Some i)) (\<lambda>l0.
     rbind (dr_leg bank net i) (\<lambda>l1.
     rbind (dr_leg ''Commission'' comm i) (\<lambda>l2.
     rbind (dr_leg ''Marketplace Fees'' fee i) (\<lambda>l3.
     rbind (dr_leg ''TCS Receivable'' tcs i) (\<lambda>l4.
       Inr ([l0] @ l1 @ l2 @ l3 @ l4))))))"

definition settlement_date :: "date_parser \<Rightarrow> row \<Rightarrow> date option res" where
  "settlement_date pd r =
     (case coerce_date pd (rget r ''date'') of
        Inl e \<Rightarrow> if e = ValueError then Inr None else Inl e
      | Inr d \<Rightarrow> Inr d)"

definition settle_row :: "date_parser \<Rightarrow> string \<Rightarrow> stage_name \<Rightarrow> nat \<times> row \<Rightarrow> voucher option logged" where
  "settle_row pd bank_default stg ir =
     (let (i, r) = ir in
      case voucher_number r of
        None \<Rightarrow> lfail (v_err i ''voucher_number'' REQUIRED_MISSING stg Sev_Error)
      | Some sid \<Rightarrow>
        lbind (llift (pos_dec (rget r ''amount''))) (\<lambda>gr.
        lbind (llift (case gr of None \<Rightarrow> Inr True | Some g \<Rightarrow> of_trap (dec_le g (Fin d_zero)))) (\<lambda>nogross.
          case (nogross, gr) of
            (False, Some gross) \<Rightarrow>
              lbind (llift (settlement_date pd r)) (\<lambda>vd.
                case vd of
                  None \<Rightarrow> lfail (v_err i ''date'' REQUIRED_MISSING stg Sev_Error)
                | Some vdate \<Rightarrow>
                  lbind (llift (deduction (rget r ''commission''))) (\<lambda>comm.
                  lbind (llift (deduction (rget r ''marketplace_fee''))) (\<lambda>fee.
                  lbind (llift (deduction (rget r ''tcs''))) (\<lambda>tcs.
                  lbind (llift (of_trap (dec_add comm fee))) (\<lambda>cf.
                  lbind (llift (of_trap (dec_add cf tcs))) (\<lambda>ded.
                  lbind (llift (of_trap (dec_sub gross ded))) (\<lambda>net.
                  lbind (llift (of_trap (dec_lt net (Fin d_zero)))) (\<lambda>neg.
                    if neg then lfail (v_err i ''amount'' VALIDATION_ERROR stg Sev_Error)
                    else
                      let party = or_else (coerce_str (rget r ''party_ledger'')) ''Marketplace'';
                          bank = or_else (coerce_str (rget r ''ledger_name'')) bank_default
                      in
                      lbind (llift (settlement_lines party bank gross net comm fee tcs i)) (\<lambda>ls.
                        let v = \<lparr>v_type = or_else (coerce_str (rget r ''voucher_type'')) ''Journal'',
                                 v_date = vdate, v_lines = ls, v_action = CREATE,
                                 v_narration = Some (''Marketplace settlement '' @ sid),
                                 v_reference = Some sid, v_party_ledger = Some party,
                                 v_party_gstin = None, v_guid = None, v_master_id = None,
                                 v_source_row = Some i\<rparr>
                        in if is_balanced v then lret (Some v)
                           else lfail (v_err i ''amount'' VOUCHER_UNBALANCED stg Sev_Error))))))))))
          | _ \<Rightarrow> lfail (v_err i ''amount'' REQUIRED_MISSING stg Sev_Error))))"

definition settlement_rows_to_vouchers ::
    "date_parser \<Rightarrow> string \<Rightarrow> stage_name \<Rightarrow> row list \<Rightarrow> voucher list logged" where
  "settlement_rows_to_vouchers pd bank_default stg rows =
     lfold (\<lambda>ir vs. lbind (settle_row pd bank_default stg ir) (\<lambda>v. lret (vs @ opt_list v))) (enumerate1 rows) []"

section \<open>The daily summary of sales to consumers\<close>

definition is_b2c :: "voucher \<Rightarrow> bool" where
  "is_b2c v \<longleftrightarrow> norm_name (v_type v) = norm_name ''Sales'' \<and>
     \<not> (truthy (v_party_gstin v) \<and> length (strip (the (v_party_gstin v))) = 15)"

definition by_date :: "voucher list \<Rightarrow> (date, voucher list) dict" where
  "by_date vs = fold (\<lambda>v d. AList.update (v_date v) (setdefault (v_date v) [] d @ [v]) d) vs []"

type_synonym leg_totals = "(string \<times> bool, fdec) dict"

definition add_leg :: "string option \<Rightarrow> voucher_line \<Rightarrow> leg_totals \<Rightarrow> leg_totals" where
  "add_leg party l t =
     (if truthy party \<and> vl_ledger l = the party then t
      else let k = (vl_ledger l, vl_is_debit l) in AList.update k (d_add (setdefault k d_zero t) (vl_amount l)) t)"

definition day_totals :: "voucher list \<Rightarrow> leg_totals" where
  "day_totals day = fold (\<lambda>v. fold (add_leg (v_party_ledger v)) (v_lines v)) day []"

definition side_total :: "bool \<Rightarrow> leg_totals \<Rightarrow> fdec" where
  "side_total side t = d_sum (map snd (filter (\<lambda>((_, d), _). d = side) t))"

definition summary_lines :: "string \<Rightarrow> leg_totals \<Rightarrow> voucher_line list res" where
  "summary_lines b2c_ledger t =
     rbind (foldM (\<lambda>((nm, dr), amt) ls.
         if d_lt d_zero amt then rbind (mk_ledger_line nm dr (Fin amt) None) (\<lambda>l. Inr (ls @ [l]))
         else Inr ls) t []) (\<lambda>ls.
       let bal = d_sub (side_total False t) (side_total True t) in
       if d_lt d_zero (d_abs bal)
       then rbind (mk_ledger_line b2c_ledger (d_lt d_zero bal) (Fin (d_abs bal)) None) (\<lambda>l. Inr (ls @ [l]))
       else Inr ls)"

definition summary :: "string \<Rightarrow> date \<times> voucher list \<Rightarrow> voucher res" where
  "summary b2c_ledger dd =
     (let (vdate, day) = dd in
      rbind (summary_lines b2c_ledger (day_totals day)) (\<lambda>ls.
        Inr \<lparr>v_type = ''Sales'', v_date = vdate, v_lines = ls, v_action = CREATE,
             v_narration = Some (''B2C daily summary - '' @ nat_str (length day) @ '' order(s)''),
             v_reference = Some (''B2C-'' @ isoformat vdate), v_party_ledger = Some b2c_ledger,
             v_party_gstin = None, v_guid = None, v_master_id = None, v_source_row = None\<rparr>))"

definition aggregate_b2c_daily :: "voucher list \<Rightarrow> string \<Rightarrow> voucher list res" where
  "aggregate_b2c_daily vouchers b2c_ledger =
     rbind (foldM (\<lambda>dd vs. rbind (summary b2c_ledger dd) (\<lambda>v. Inr (vs @ [v])))
              (sort_key fst (by_date (filter is_b2c vouchers))) []) (\<lambda>summaries.
       Inr (filter (\<lambda>v. \<not> is_b2c v) vouchers @ summaries))"

section \<open>Settlements\<close>

lemma logs_settle_row: "logs (\<lambda>e. e_row e = Some (fst ir)) (settle_row pd bank stg ir)"
  unfolding settle_row_def
  by (intro logs_intros; simp add: v_err_def field_err_def)

definition settled :: "nat \<Rightarrow> row \<Rightarrow> voucher \<Rightarrow> bool" where
  "settled i r v \<longleftrightarrow> is_balanced v \<and> (\<forall>l\<in>set (v_lines v). line_wf l) \<and> v_source_row v = Some i \<and>
     (\<exists>g l. pos_dec (rget r ''amount'') = Inr (Some (Fin g)) \<and> 0 < val g \<and>
        filter (\<lambda>l. \<not> vl_is_debit l) (v_lines v) = [l] \<and> vl_amount l = d_abs g \<and>
        v_party_ledger v = Some (vl_ledger l))"

lemma dr_leg_Inr:
  "dr_leg nm a i = Inr ls \<Longrightarrow> filter (\<lambda>l. \<not> vl_is_debit l) ls = [] \<and> (\<forall>l\<in>set ls. line_wf l)"
  using mk_line_Inr [of "nm" True a "Some i" None None None None]
  by (fastforce simp: dr_leg_def rbind_Inr split: if_splits)

lemma settlement_lines_Inr:
  assumes "settlement_lines party bank gross net comm fee tcs i = Inr ls"
  obtains g l where "gross = Fin g" "filter (\<lambda>l. \<not> vl_is_debit l) ls = [l]" "vl_amount l = d_abs g"
    "vl_ledger l = strip party" "\<forall>l\<in>set ls. line_wf l"
proof -
  from assms obtain l l1 l2 l3 l4 where l: "mk_ledger_line party False gross (Some i) = Inr l"
    "dr_leg bank net i = Inr l1" "dr_leg ''Commission'' comm i = Inr l2" "dr_leg ''Marketplace Fees'' fee i = Inr l3"
    "dr_leg ''TCS Receivable'' tcs i = Inr l4" and ls: "ls = [l] @ l1 @ l2 @ l3 @ l4"
    unfolding settlement_lines_def rbind_Inr by blast
  obtain g where "gross = Fin g" "vl_amount l = d_abs g" "\<not> vl_is_debit l" "vl_ledger l = strip party" "line_wf l"
    using mk_line_Inr [OF l(1)] by auto
  with dr_leg_Inr [OF l(2)] dr_leg_Inr [OF l(3)] dr_leg_Inr [OF l(4)] dr_leg_Inr [OF l(5)]
  show thesis by (intro that [of g l]) (auto simp: ls)
qed

lemma settle_row_Some:
  assumes "settle_row pd bank stg (i, r) es = (Inr (Some v), es')"
  shows "settled i r v"
proof -
  from assms obtain gross net comm fee tcs bk sid where
      "pos_dec (rget r ''amount'') = Inr (Some gross)" "of_trap (dec_le gross (Fin d_zero)) = Inr False"
      "settlement_lines (or_else (coerce_str (rget r ''party_ledger'')) ''Marketplace'') bk gross net comm fee tcs i = Inr (v_lines v)"
      "is_balanced v" "v_source_row v = Some i"
      "v_party_ledger v = Some (or_else (coerce_str (rget r ''party_ledger'')) ''Marketplace'')"
    unfolding settle_row_def Let_def
    by (auto simp: lbind_Inr split: option.splits bool.splits if_splits)
  moreover have "strip (or_else (coerce_str (rget r ''party_ledger'')) ''Marketplace'') =
      or_else (coerce_str (rget r ''party_ledger'')) ''Marketplace''"
    by (cases "coerce_str (rget r ''party_ledger'')") (auto dest: coerce_str_strip intro: strip_id simp: is_space_def)
  ultimately show ?thesis
    by (auto simp: settled_def of_trap_Inr d_le_iff elim!: settlement_lines_Inr)
qed

lemma settle_row_None:
  "settle_row pd bank stg (i, r) es = (Inr None, es') \<Longrightarrow> \<exists>e\<in>set es'. row_error i e"
  unfolding settle_row_def Let_def
  by (auto simp: lbind_Inr split: option.splits bool.splits if_splits)

text \<open>
  C31: Every settlement that becomes a journal is balanced, with the gross amount of its row as
  the single credit, to the marketplace, and well-formed debit legs; every other row of the file
  has an error.
\<close>

theorem settlements_sound:
  assumes "settlement_rows_to_vouchers pd bank stg rows [] = (Inr vs, es)"
  shows "(\<forall>v\<in>set vs. \<exists>n<length rows. settled (Suc n) (rows ! n) v) \<and>
    (\<forall>n<length rows. (\<exists>v\<in>set vs. settled (Suc n) (rows ! n) v) \<or> (\<exists>e\<in>set es. row_error (Suc n) e))"
proof -
  define P where "P = (\<lambda>(done :: (nat \<times> row) list) vs (es :: envelope list).
    (\<forall>v\<in>set vs. \<exists>(i, r)\<in>set done. settled i r v) \<and>
    (\<forall>(i, r)\<in>set done. (\<exists>v\<in>set vs. settled i r v) \<or> (\<exists>e\<in>set es. row_error i e)))"
  have "P (enumerate1 rows) vs es"
    using assms unfolding settlement_rows_to_vouchers_def
  proof (rule lfold_prefix [where P = P])
    show "P [] [] []" by (simp add: P_def)
  next
    fix ys zs :: "(nat \<times> row) list" and ir vs es vs' es'
    assume P: "P ys vs es"
      and "lbind (settle_row pd bank stg ir) (\<lambda>v. lret (vs @ opt_list v)) es = (Inr vs', es')"
    then obtain i r v where ir: "ir = (i, r)" and s: "settle_row pd bank stg (i, r) es = (Inr v, es')" "vs' = vs @ opt_list v"
      by (cases ir) (auto simp: lbind_Inr)
    have "set es \<subseteq> set es'" using logs_settle_row s(1) by (rule logs_prefix)
    then show "P (ys @ [ir]) vs' es'"
      using P s settle_row_Some [of pd bank stg i r es _ es'] settle_row_None [of pd bank stg i r es es']
      by (cases v) (auto simp: P_def ir opt_list_def; blast)+
  qed
  then show ?thesis unfolding P_def by (fastforce simp: set_enumerate1)
qed

definition sample_settlement :: row where
  "sample_settlement =
     [''order_id'' \<mapsto> CStr ''S9'', ''amount'' \<mapsto> CStr ''1000'', ''commission'' \<mapsto> CStr ''50'',
      ''date'' \<mapsto> CDate (Date 2024 4 15) ''2024-04-15'']"

lemma rget_settlement:
  "rget sample_settlement ''order_id'' = CStr ''S9''" "rget sample_settlement ''amount'' = CStr ''1000''"
  "rget sample_settlement ''commission'' = CStr ''50''"
  "rget sample_settlement ''date'' = CDate (Date 2024 4 15) ''2024-04-15''"
  "k \<in> set [''marketplace_fee'', ''tcs'', ''party_ledger'', ''ledger_name'', ''voucher_type''] \<Longrightarrow>
     rget sample_settlement k = CNone"
  by (auto simp: rget_def sample_settlement_def)

lemma settlement_cells:
  "coerce_str (CStr ''S9'') = Some ''S9''" "pos_dec (CStr ''1000'') = Inr (Some (Fin (Dec False 1000 0)))"
  "pos_dec (CStr ''50'') = Inr (Some (Fin (Dec False 50 0)))" "pos_dec CNone = Inr None"
  "is_blank (CDate (Date 2024 4 15) ''2024-04-15'') = False" "strip ''Marketplace'' = ''Marketplace''"
  "strip ''Bank'' = ''Bank''" "strip ''Commission'' = ''Commission''"
  by code_simp+

theorem settlements_sound_witness:
  "\<exists>v es. settlement_rows_to_vouchers (\<lambda>_ _. None) ''Bank'' CONVERT [sample_settlement] [] = (Inr [v], es) \<and>
     settled 1 sample_settlement v"
proof -
  have "\<exists>v es. settlement_rows_to_vouchers (\<lambda>_ _. None) ''Bank'' CONVERT [sample_settlement] [] = (Inr [v], es)"
    by (simp add: settlement_rows_to_vouchers_def settle_row_def settlement_date_def deduction_def
        settlement_lines_def dr_leg_def or_else_def settlement_cells rget_settlement voucher_eval logged_eval dec_eval
        cong: eval_congs)
  then show ?thesis using settlements_sound by fastforce
qed

end
