(* ===== verification/VoucherXml.thy ===== *)
theory VoucherXml
  imports Vouchers
begin

text \<open>
  \<open>conversion/voucher_builder.py\<close> and \<open>conversion/serialize.py\<close>: the import document of the
  vouchers as an element tree, and the replacement of the list marker in its bytes.  Turning a tree
  into bytes is lxml's: it is the parameter \<open>tostring\<close>.  That lxml refuses control characters in a
  text is not modelled.
\<close>

section \<open>Element trees\<close>

datatype xml = Elem (x_tag: string) (x_attrs: "(string \<times> string) list") (x_text: "string option")
  (x_children: "xml list")

text \<open>\<open>_sub\<close> with a text, and with children only.\<close>

definition leaf :: "string \<Rightarrow> string \<Rightarrow> xml" where
  "leaf tag text = Elem tag [] (Some text) []"

definition node :: "string \<Rightarrow> (string \<times> string) list \<Rightarrow> xml list \<Rightarrow> xml" where
  "node tag attrs xs = Elem tag attrs None xs"

definition opt_leaf :: "string \<Rightarrow> string option \<Rightarrow> xml list" where
  \<comment> \<open>an element for a text that is there and not empty\<close>
  "opt_leaf tag x = (if truthy x then [leaf tag (the x)] else [])"

definition tallymessage :: "xml list \<Rightarrow> xml" where
  "tallymessage xs = node ''TALLYMESSAGE'' [(''xmlns:UDF'', ''TallyUDF'')] xs"

definition yn :: "bool \<Rightarrow> string" where
  "yn b = (if b then ''Yes'' else ''No'')"

section \<open>Amounts\<close>

text \<open>\<open>_amount\<close>: two decimal places, rounding half up.\<close>

definition amount_str :: "fdec \<Rightarrow> string res" where
  "amount_str d =
     (case d_quantize Half_Up d of None \<Rightarrow> Inl InvalidOperation | Some q \<Rightarrow> Inr (paisa_str q))"

definition signed_amount :: "voucher_line \<Rightarrow> string res" where
  "signed_amount l =
     (let magnitude = d_abs (vl_amount l) in amount_str (if vl_is_debit l then d_neg magnitude else magnitude))"

section \<open>Vouchers\<close>

definition inventory_entry :: "voucher_line \<Rightarrow> xml res" where
  "inventory_entry l =
     (let unt = strip (or_else (vl_unit l) '''') in
      rbind (signed_amount l) (\<lambda>signed.
      rbind (case vl_rate l of
               None \<Rightarrow> Inr []
             | Some r \<Rightarrow>
                 if unt \<noteq> '''' then rbind (amount_str r) (\<lambda>a. Inr [leaf ''RATE'' (a @ ''/'' @ unt)])
                 else Inr [leaf ''RATE'' (plain_str r)]) (\<lambda>rate.
        let qty = (case vl_quantity l of
                     None \<Rightarrow> []
                   | Some q \<Rightarrow>
                       let t = (if unt \<noteq> '''' then strip (plain_str (d_abs q) @ '' '' @ unt) else plain_str (d_abs q))
                       in [leaf ''ACTUALQTY'' t, leaf ''BILLEDQTY'' t])
        in Inr (node ''ALLINVENTORYENTRIES.LIST'' []
             ([leaf ''STOCKITEMNAME'' (or_else (vl_stock_item l) ''''),
               leaf ''ISDEEMEDPOSITIVE'' (yn (vl_is_debit l))] @ rate @ [leaf ''AMOUNT'' signed] @ qty @
              [node ''ACCOUNTINGALLOCATIONS.LIST'' []
                 [leaf ''LEDGERNAME'' (vl_ledger l), leaf ''ISDEEMEDPOSITIVE'' (yn (vl_is_debit l)),
                  leaf ''AMOUNT'' signed]])))))"

definition ledger_entry :: "string \<Rightarrow> voucher_line \<Rightarrow> xml res" where
  "ledger_entry tag l =
     rbind (signed_amount l) (\<lambda>signed.
       Inr (node tag [] [leaf ''LEDGERNAME'' (vl_ledger l), leaf ''ISDEEMEDPOSITIVE'' (yn (vl_is_debit l)),
                         leaf ''AMOUNT'' signed]))"

fun rmap :: "('a \<Rightarrow> 'b res) \<Rightarrow> 'a list \<Rightarrow> 'b list res" where
  "rmap f [] = Inr []"
| "rmap f (x # xs) = rbind (f x) (\<lambda>y. rbind (rmap f xs) (\<lambda>ys. Inr (y # ys)))"

definition has_inventory :: "voucher \<Rightarrow> bool" where
  "has_inventory v \<longleftrightarrow> list_ex is_inventory (v_lines v)"

definition voucher_attrs :: "voucher \<Rightarrow> (string \<times> string) list" where
  "voucher_attrs v =
     [(''VCHTYPE'', v_type v), (''ACTION'', action_value (v_action v)),
      (''OBJVIEW'', if has_inventory v then ''Invoice Voucher View'' else ''Accounting Voucher View'')]"

definition voucher_header :: "voucher \<Rightarrow> xml list" where
  "voucher_header v =
     opt_leaf ''GUID'' (v_guid v) @
     [leaf ''DATE'' (fmt_date (v_date v)), leaf ''EFFECTIVEDATE'' (fmt_date (v_date v)),
      leaf ''VOUCHERTYPENAME'' (v_type v)] @
     opt_leaf ''VOUCHERNUMBER'' (v_reference v) @ opt_leaf ''PARTYLEDGERNAME'' (v_party_ledger v) @
     opt_leaf ''NARRATION'' (v_narration v)"

definition voucher_entry :: "voucher \<Rightarrow> voucher_line \<Rightarrow> xml res" where
  "voucher_entry v l =
     (if is_inventory l then inventory_entry l
      else ledger_entry (if has_inventory v then ''LEDGERENTRIES.LIST'' else ''ALLLEDGERENTRIES.LIST'') l)"

definition build_voucher :: "voucher \<Rightarrow> xml res" where
  "build_voucher v =
     (if \<not> is_balanced v then Inl ValueError
      else rbind (rmap (voucher_entry v) (v_lines v)) (\<lambda>entries.
        Inr (tallymessage [node ''VOUCHER'' (voucher_attrs v) (voucher_header v @ entries)])))"

text \<open>The frame of a request, around its messages.\<close>

definition importdata :: "string \<Rightarrow> string \<Rightarrow> string option \<Rightarrow> xml list \<Rightarrow> xml" where
  "importdata report company dups msgs =
     node ''IMPORTDATA'' []
       [node ''REQUESTDESC'' []
          [leaf ''REPORTNAME'' report,
           node ''STATICVARIABLES'' [] ([leaf ''SVCURRENTCOMPANY'' company] @ opt_leaf ''IMPORTDUPS'' dups)],
        node ''REQUESTDATA'' [] msgs]"

definition request_envelope :: "xml list \<Rightarrow> xml" where
  "request_envelope parts =
     node ''ENVELOPE'' [] [node ''HEADER'' [] [leaf ''TALLYREQUEST'' ''Import Data''], node ''BODY'' [] parts]"

definition build_vouchers_envelope :: "string \<Rightarrow> voucher list \<Rightarrow> xml res" where
  "build_vouchers_envelope company vs =
     rbind (rmap build_voucher vs) (\<lambda>msgs. Inr (request_envelope [importdata ''Vouchers'' company None msgs]))"

section \<open>Serialization\<close>

definition list_marker_token :: string where
  "list_marker_token = ''@@TALLY_LIST_MARKER@@''"

definition list_marker_output :: string where
  "list_marker_output = [CHR ''&'', CHR ''#'', CHR ''4'', CHR '';'']"

definition list_marker_value :: "string \<Rightarrow> string" where
  "list_marker_value label = list_marker_token @ '' '' @ label"

text \<open>\<open>bytes.replace\<close> of a pattern that is not empty.\<close>

function replace_all :: "string \<Rightarrow> string \<Rightarrow> string \<Rightarrow> string" where
  "replace_all p out [] = []"
| "replace_all p out (c # cs) =
     (if p \<noteq> [] \<and> starts_with p (c # cs) then out @ replace_all p out (drop (length p) (c # cs))
      else c # replace_all p out cs)"
  by pat_completeness auto
termination by (relation "measure (\<lambda>(_, _, s). length s)") auto

definition serialize :: "(xml \<Rightarrow> string) \<Rightarrow> xml \<Rightarrow> string" where
  "serialize tostring x = replace_all list_marker_token list_marker_output (tostring x)"

definition build_and_serialize_vouchers :: "(xml \<Rightarrow> string) \<Rightarrow> string \<Rightarrow> voucher list \<Rightarrow> string res" where
  "build_and_serialize_vouchers tostring company vs =
     rbind (build_vouchers_envelope company vs) (\<lambda>x. Inr (serialize tostring x))"

section \<open>What is posted\<close>

text \<open>
  The signed amounts a document posts to ledgers: the \<open>AMOUNT\<close> of each ledger entry and of each
  accounting allocation of an inventory entry.
\<close>

definition posting_tags :: "string list" where
  "posting_tags = [''ALLLEDGERENTRIES.LIST'', ''LEDGERENTRIES.LIST'', ''ACCOUNTINGALLOCATIONS.LIST'']"

fun posted :: "xml \<Rightarrow> string list" where
  "posted (Elem tag attrs text xs) =
     (if tag \<in> set posting_tags then map (\<lambda>x. or_else (x_text x) '''') (filter (\<lambda>x. x_tag x = ''AMOUNT'') xs)
      else concat (map posted xs))"

definition amount_val :: "string \<Rightarrow> rat" where
  "amount_val s = (case dec_of_string s of Some (Fin d) \<Rightarrow> val d | _ \<Rightarrow> 0)"

text \<open>A printed amount reads back as the rounded number; a whole number of paisa as itself.\<close>

lemma amount_str_val:
  assumes "amount_str d = Inr s"
  shows "amount_val s = val (d_rescale Half_Up d)" and "\<bar>amount_val s - val d\<bar> \<le> 1 / 200"
    and "whole_paisa d \<Longrightarrow> amount_val s = val d"
proof -
  from assms obtain q where q: "d_quantize Half_Up d = Some q" "s = paisa_str q"
    by (auto simp: amount_str_def split: option.splits)
  then have "q = d_rescale Half_Up d" by (simp add: d_quantize_Some)
  then show v: "amount_val s = val (d_rescale Half_Up d)"
    using q(2) dec_of_paisa_str [of q] by (simp add: amount_val_def)
  show "\<bar>amount_val s - val d\<bar> \<le> 1 / 200" unfolding v by (rule d_rescale_close)
  show "whole_paisa d \<Longrightarrow> amount_val s = val d" unfolding v by (rule val_d_rescale)
qed

text \<open>Amounts within the precision, with nothing below a paisa.\<close>

definition exact_paisa :: "fdec \<Rightarrow> bool" where
  "exact_paisa d \<longleftrightarrow> dcoef d < 10 ^ context_prec \<and> whole_paisa d"

lemma exact_paisa_abs: "exact_paisa d \<Longrightarrow> d_abs d = Dec False (dcoef d) (dexp d)"
  by (simp add: exact_paisa_def d_abs_def d_fix_id)

lemma exact_paisa_neg: "exact_paisa d \<Longrightarrow> exact_paisa (d_abs d) \<and> exact_paisa (d_neg (d_abs d))"
  by (simp add: exact_paisa_abs) (simp add: exact_paisa_def d_neg_def d_fix_id whole_paisa_def)

lemma signed_amount_val:
  assumes "signed_amount l = Inr s" "exact_paisa (vl_amount l)"
  shows "amount_val s = (if vl_is_debit l then - \<bar>val (vl_amount l)\<bar> else \<bar>val (vl_amount l)\<bar>)"
proof -
  let ?m = "d_abs (vl_amount l)"
  note e = exact_paisa_neg [OF assms(2)]
  have "val ?m = \<bar>val (vl_amount l)\<bar>" using assms(2) by (simp add: val_abs exact_paisa_def)
  moreover have "val (d_neg ?m) = - val ?m" using e by (simp add: val_neg exact_paisa_def)
  ultimately show ?thesis using assms(1) amount_str_val(3) e
    by (auto simp: signed_amount_def Let_def exact_paisa_def split: if_splits)
qed

lemma posted_leaf [simp]: "tag \<notin> set posting_tags \<Longrightarrow> posted (leaf tag t) = []"
  by (simp add: leaf_def)

lemma posted_node: "tag \<notin> set posting_tags \<Longrightarrow> posted (node tag attrs xs) = concat (map posted xs)"
  by (simp add: node_def)

lemma not_posting [simp]:
  "''LEDGERNAME'' \<notin> set posting_tags" "''STOCKITEMNAME'' \<notin> set posting_tags" "''ISDEEMEDPOSITIVE'' \<notin> set posting_tags"
  "''RATE'' \<notin> set posting_tags" "''AMOUNT'' \<notin> set posting_tags" "''ACTUALQTY'' \<notin> set posting_tags"
  "''BILLEDQTY'' \<notin> set posting_tags" "''ALLINVENTORYENTRIES.LIST'' \<notin> set posting_tags"
  "''VOUCHER'' \<notin> set posting_tags" "''TALLYMESSAGE'' \<notin> set posting_tags" "''GUID'' \<notin> set posting_tags"
  "''DATE'' \<notin> set posting_tags" "''EFFECTIVEDATE'' \<notin> set posting_tags" "''VOUCHERTYPENAME'' \<notin> set posting_tags"
  "''VOUCHERNUMBER'' \<notin> set posting_tags" "''PARTYLEDGERNAME'' \<notin> set posting_tags" "''NARRATION'' \<notin> set posting_tags"
  by (simp_all add: posting_tags_def)

lemma posted_opt_leaf [simp]: "tag \<notin> set posting_tags \<Longrightarrow> concat (map posted (opt_leaf tag x)) = []"
  by (simp add: opt_leaf_def)

lemma posted_entry:
  assumes "voucher_entry v l = Inr x"
  shows "\<exists>s. signed_amount l = Inr s \<and> posted x = [s]"
proof -
  have p: "''ACCOUNTINGALLOCATIONS.LIST'' \<in> set posting_tags" "''ALLLEDGERENTRIES.LIST'' \<in> set posting_tags"
      "''LEDGERENTRIES.LIST'' \<in> set posting_tags"
    by (auto simp: posting_tags_def)
  have lf: "posted (node t [] [leaf ''LEDGERNAME'' a, leaf ''ISDEEMEDPOSITIVE'' b, leaf ''AMOUNT'' s]) = [s]"
    if "t \<in> set posting_tags" for t a b s
    using that by (simp add: node_def leaf_def)
  show ?thesis
    using assms p
    by (auto simp: voucher_entry_def inventory_entry_def ledger_entry_def Let_def rbind_Inr posted_node lf
        simp del: set_concat split: if_splits option.splits)
qed

lemma rmap_Inr: "rmap f xs = Inr ys \<longleftrightarrow> list_all2 (\<lambda>x y. f x = Inr y) xs ys"
  by (induction xs arbitrary: ys) (auto simp: rbind_Inr list_all2_Cons1)

lemma posted_header [simp]: "concat (map posted (voucher_header v)) = []"
  by (simp add: voucher_header_def del: set_concat)

lemma build_voucher_posts:
  assumes "build_voucher v = Inr m"
  shows "is_balanced v" "list_all2 (\<lambda>l s. signed_amount l = Inr s) (v_lines v) (posted m)"
proof -
  from assms show "is_balanced v" by (auto simp: build_voucher_def split: if_splits)
  from assms obtain entries where e: "rmap (voucher_entry v) (v_lines v) = Inr entries"
    and "m = tallymessage [node ''VOUCHER'' (voucher_attrs v) (voucher_header v @ entries)]"
    by (auto simp: build_voucher_def rbind_Inr split: if_splits)
  then have m: "posted m = concat (map posted entries)" by (simp add: tallymessage_def posted_node)
  from e have "list_all2 (\<lambda>l x. voucher_entry v l = Inr x) (v_lines v) entries" by (simp add: rmap_Inr)
  then show "list_all2 (\<lambda>l s. signed_amount l = Inr s) (v_lines v) (posted m)"
    unfolding m
  proof (induction rule: list_all2_induct)
    case (Cons l ls x xs)
    from posted_entry [OF Cons(1)] Cons(3) show ?case by auto
  qed simp
qed

lemma posted_sum:
  assumes "list_all2 (\<lambda>l s. signed_amount l = Inr s) ls ss" "\<forall>l\<in>set ls. exact_paisa (vl_amount l) \<and> 0 \<le> val (vl_amount l)"
  shows "(\<Sum>s\<leftarrow>ss. amount_val s) = - net_value ls"
  using assms
  by (induction rule: list_all2_induct) (auto simp: net_value_def signed_amount_val)
text \<open>Any amount within the precision is posted to within half a paisa.\<close>

lemma signed_amount_close:
  assumes "signed_amount l = Inr s" "dcoef (vl_amount l) < 10 ^ context_prec" "0 \<le> val (vl_amount l)"
  shows "\<bar>amount_val s + (if vl_is_debit l then val (vl_amount l) else - val (vl_amount l))\<bar> \<le> 1 / 200"
proof -
  let ?m = "d_abs (vl_amount l)"
  have m: "?m = Dec False (dcoef (vl_amount l)) (dexp (vl_amount l))" using assms(2) by (simp add: d_abs_def d_fix_id)
  have v: "val ?m = val (vl_amount l)" using assms(2,3) by (simp add: val_abs)
  have "val (d_neg ?m) = - val ?m" using assms(2) by (intro val_neg) (simp add: m)
  with v assms(1) show ?thesis
    using amount_str_val(2) [of ?m s] amount_str_val(2) [of "d_neg ?m" s]
    by (auto simp: signed_amount_def Let_def abs_minus_commute add.commute split: if_splits)
qed

lemma posted_sum_close:
  assumes "list_all2 (\<lambda>l s. signed_amount l = Inr s) ls ss"
    "\<forall>l\<in>set ls. dcoef (vl_amount l) < 10 ^ context_prec \<and> 0 \<le> val (vl_amount l)"
  shows "\<bar>(\<Sum>s\<leftarrow>ss. amount_val s) + net_value ls\<bar> \<le> rat_of_nat (length ls) / 200"
  using assms
proof (induction rule: list_all2_induct)
  case (Cons l ls s ss)
  define x y z where "x = amount_val s + (if vl_is_debit l then val (vl_amount l) else - val (vl_amount l))"
    and "y = (\<Sum>s\<leftarrow>ss. amount_val s) + net_value ls" and "z = (\<Sum>s\<leftarrow>s # ss. amount_val s) + net_value (l # ls)"
  have "\<bar>x\<bar> \<le> 1 / 200" using signed_amount_close Cons by (simp add: x_def)
  moreover have "\<bar>y\<bar> \<le> rat_of_nat (length ls) / 200" using Cons by (simp add: y_def)
  moreover have "z = x + y" by (simp add: x_def y_def z_def net_value_def)
  ultimately show ?case unfolding z_def [symmetric] by (simp add: add_divide_distrib)
qed (simp add: net_value_def)

lemma exact_lines_dcoef: "exact_lines k ls \<Longrightarrow> l \<in> set ls \<Longrightarrow> dcoef (vl_amount l) < 10 ^ context_prec"
proof -
  assume e: "exact_lines k ls" "l \<in> set ls"
  have "\<bar>scaled (- int k) (vl_amount l)\<bar> \<le> weight k ls"
    unfolding weight_def using e(2) by (intro member_le_sum_list) auto
  then have "int (dcoef (vl_amount l)) < 10 ^ context_prec"
    using e sint_le_scaled [of "- int k" "vl_amount l"] unfolding exact_lines_weight dcoef_sint_of by fastforce
  then show ?thesis by (metis of_nat_less_numeral_power_cancel_iff)
qed

lemma is_infix_append: "is_infix m s \<Longrightarrow> \<exists>a b. s = a @ m @ b"
proof (induction m s rule: is_infix.induct)
  case (2 m c cs)
  show ?case
  proof (cases "starts_with m (c # cs)")
    case True
    then show ?thesis by (metis append_Nil append_take_drop_id starts_with_def)
  next
    case False
    then show ?thesis using 2 by (metis append_Cons is_infix.simps(2))
  qed
qed simp

text \<open>A prefix without the characters of the replacement was there before.\<close>

lemma starts_with_Cons [simp]: "starts_with (p # ps) (c # cs) \<longleftrightarrow> p = c \<and> starts_with ps cs" "starts_with [] s"
  "\<not> starts_with (p # ps) []"
  by (auto simp: starts_with_def)

lemma starts_with_replaced:
  assumes "starts_with q (replace_all p out s)" "out \<noteq> []" "hd out \<notin> set q"
  shows "starts_with q s"
  using assms
proof (induction s arbitrary: q)
  case (Cons c cs)
  show ?case
  proof (cases q)
    case (Cons x xs)
    have "\<not> (p \<noteq> [] \<and> starts_with p (c # cs))"
      using Cons.prems Cons by (cases out) auto
    then show ?thesis using Cons.prems Cons.IH [of xs] Cons by auto
  qed simp
qed simp

lemma no_infix_replaced:
  assumes "p \<noteq> []" "out \<noteq> []" "hd out \<notin> set p" "hd p \<notin> set out"
  shows "\<not> is_infix p (replace_all p out s)"
proof (induction s rule: length_induct)
  case (1 s)
  have skip: "is_infix p (o' @ t) \<Longrightarrow> hd p \<notin> set o' \<Longrightarrow> is_infix p t" for o' t
    using assms(1) by (induction o') (cases p; auto)+
  show ?case
  proof (cases s)
    case Nil
    then show ?thesis using assms(1) by simp
  next
    case (Cons c cs)
    show ?thesis
    proof (cases "starts_with p (c # cs)")
      case True
      have "\<not> is_infix p (replace_all p out (drop (length p) (c # cs)))"
        using 1 Cons assms(1) by (simp add: length_drop diff_less)
      then show ?thesis using skip [of out] assms True Cons by auto
    next
      case False
      have "\<not> starts_with p (replace_all p out (c # cs))"
        using False starts_with_replaced assms by blast
      then show ?thesis using 1 Cons False by auto
    qed
  qed
qed

section \<open>Properties\<close>

text \<open>
  C14: Every voucher that is built posts exactly one signed amount per line, and the amounts in the
  document add up to zero, as the accounting program demands, whenever the lines are whole numbers
  of paisa; in any case to no more than half a paisa per line.  (Lines with at most \<open>k\<close> decimals
  whose total fits the precision.)
\<close>

theorem built_voucher_posts_to_zero:
  assumes "build_voucher v = Inr m" "exact_lines k (v_lines v)" "\<forall>l\<in>set (v_lines v). 0 \<le> val (vl_amount l)"
  shows "length (posted m) = length (v_lines v) \<and>
    \<bar>\<Sum>s\<leftarrow>posted m. amount_val s\<bar> \<le> rat_of_nat (length (v_lines v)) / 200 \<and>
    ((\<forall>l\<in>set (v_lines v). whole_paisa (vl_amount l)) \<longrightarrow> (\<Sum>s\<leftarrow>posted m. amount_val s) = 0)"
proof -
  note p = build_voucher_posts [OF assms(1)]
  have z: "net_value (v_lines v) = 0" using assms(2) p(1) by (rule balanced_net_value)
  have d: "\<forall>l\<in>set (v_lines v). dcoef (vl_amount l) < 10 ^ context_prec" using exact_lines_dcoef [OF assms(2)] by blast
  have "\<bar>\<Sum>s\<leftarrow>posted m. amount_val s\<bar> \<le> rat_of_nat (length (v_lines v)) / 200"
    using posted_sum_close [OF p(2)] d assms(3) z by simp
  moreover have "(\<forall>l\<in>set (v_lines v). whole_paisa (vl_amount l)) \<longrightarrow> (\<Sum>s\<leftarrow>posted m. amount_val s) = 0"
    using posted_sum [OF p(2)] d assms(3) z by (simp add: exact_paisa_def)
  ultimately show ?thesis using list_all2_lengthD [OF p(2)] by simp
qed

lemma sample_posts:
  "signed_amount (v_lines sample_voucher ! 0) = Inr ''-100.00''" "signed_amount (v_lines sample_voucher ! 1) = Inr ''100.00''"
  by code_simp+

theorem built_voucher_posts_to_zero_witness:
  "\<exists>m. build_voucher sample_voucher = Inr m \<and> (\<Sum>s\<leftarrow>posted m. amount_val s) = 0"
proof -
  have inv: "\<not> list_ex is_inventory (v_lines sample_voucher)"
    by (simp add: sample_voucher_def is_inventory_def truthy_def)
  have bal: "is_balanced sample_voucher"
    by (simp add: sample_voucher_def is_balanced_def debit_total_def credit_total_def dec_eval)
  have "\<exists>m. build_voucher sample_voucher = Inr m"
    using bal inv sample_posts
    by (simp add: build_voucher_def voucher_entry_def ledger_entry_def sample_voucher_def)
  moreover have "exact_lines 0 (v_lines sample_voucher)" "\<forall>l\<in>set (v_lines sample_voucher). 0 \<le> val (vl_amount l)"
    "\<forall>l\<in>set (v_lines sample_voucher). whole_paisa (vl_amount l)"
    by (simp_all add: sample_voucher_def exact_lines_def dec_eval val_nonneg whole_paisa_def)
  ultimately show ?thesis using built_voucher_posts_to_zero [of sample_voucher] by blast
qed

text \<open>
  A voucher balanced to a fraction of a paisa passes the builder's check and posts amounts that
  do not balance: each line is rounded on its own.
\<close>

definition half_paisa_line :: "bool \<Rightarrow> fdec \<Rightarrow> voucher_line" where
  "half_paisa_line dr a = \<lparr>vl_ledger = ''L'', vl_is_debit = dr, vl_amount = a, vl_source_row = None,
     vl_stock_item = None, vl_quantity = None, vl_rate = None, vl_unit = None\<rparr>"

lemma half_paisa_posts:
  "signed_amount (half_paisa_line True (Dec False 5 (- 3))) = Inr ''-0.01''"
  "signed_amount (half_paisa_line False (Dec False 1 (- 2))) = Inr ''0.01''"
  "amount_val ''-0.01'' = val (Dec True 1 (- 2))" "amount_val ''0.01'' = val (Dec False 1 (- 2))"
  by (code_simp, code_simp, simp_all add: amount_val_def) (code_simp, code_simp)

theorem fraction_of_paisa_unbalances:
  "\<exists>m. build_voucher (sample_voucher\<lparr>v_lines := [half_paisa_line True (Dec False 5 (- 3)),
      half_paisa_line True (Dec False 5 (- 3)), half_paisa_line False (Dec False 1 (- 2))]\<rparr>) = Inr m \<and>
     (\<Sum>s\<leftarrow>posted m. amount_val s) = - 1 / 100"
proof -
  let ?ls = "[half_paisa_line True (Dec False 5 (- 3)), half_paisa_line True (Dec False 5 (- 3)),
    half_paisa_line False (Dec False 1 (- 2))]"
  let ?v = "sample_voucher\<lparr>v_lines := ?ls\<rparr>"
  have "is_balanced ?v"
    by (simp add: half_paisa_line_def is_balanced_def debit_total_def credit_total_def dec_eval)
  moreover have "\<not> is_inventory (half_paisa_line dr a)" for dr a
    by (simp add: half_paisa_line_def is_inventory_def truthy_def)
  ultimately obtain m where m: "build_voucher ?v = Inr m"
    using half_paisa_posts(1,2) by (auto simp: build_voucher_def voucher_entry_def ledger_entry_def)
  have "posted m = [''-0.01'', ''-0.01'', ''0.01'']"
    using build_voucher_posts(2) [OF m] half_paisa_posts(1,2) by (auto simp: list_all2_Cons1)
  then have "(\<Sum>s\<leftarrow>posted m. amount_val s) = - 1 / 100"
    by (simp add: half_paisa_posts(3,4)) (simp add: val_def sint_of_def)
  with m show ?thesis by blast
qed

text \<open>
  The bytes that are sent hold no list marker token: every occurrence was replaced, whatever
  the document and whatever the serializer printed.
\<close>

theorem no_marker_token_left: "\<not> is_infix list_marker_token (serialize tostring x)"
  unfolding serialize_def
  by (rule no_infix_replaced) (simp_all add: list_marker_token_def list_marker_output_def)

end
