(* ===== verification/GroupOrder.thy ===== *)
theory GroupOrder
  imports Entities "HOL-Library.Multiset"
begin

text \<open>
  The ordering of groups in \<open>app/pipeline/conversion/builder.py\<close>: parents before children, by
  Kahn's algorithm over the edges inside the batch.  Dictionaries are association lists, the queue
  a list, and the loop a function that stops because every turn removes a key from the queue and
  only a fallen count can add one.
\<close>

definition group_key :: "group_master \<Rightarrow> string" where
  "group_key g = norm_name (m_name g)"

definition by_name :: "group_master list \<Rightarrow> (string, group_master) dict" where
  "by_name gs = dict_of (map (\<lambda>g. (group_key g, g)) gs)"

definition count_of :: "string \<Rightarrow> (string, int) dict \<Rightarrow> int" where
  "count_of k ind = setdefault k 0 ind"

definition add_edge ::
    "(string, group_master) dict \<Rightarrow> group_master \<Rightarrow>
     (string, string list) dict \<times> (string, int) dict \<Rightarrow> (string, string list) dict \<times> (string, int) dict" where
  "add_edge names g ci =
     (let parent_key = norm_name (g_parent g); self_key = group_key g; (ch, ind) = ci in
      if dget names parent_key \<noteq> None \<and> parent_key \<noteq> self_key
      then (AList.update parent_key (setdefault parent_key [] ch @ [self_key]) ch,
            AList.update self_key (count_of self_key ind + 1) ind)
      else (ch, ind))"

definition edges :: "group_master list \<Rightarrow> (string, string list) dict \<times> (string, int) dict" where
  "edges gs = fold (add_edge (by_name gs)) gs ([], dict_of (map (\<lambda>g. (group_key g, 0)) gs))"

fun release :: "string list \<Rightarrow> string list \<times> (string, int) dict \<Rightarrow> string list \<times> (string, int) dict" where
  "release [] qi = qi"
| "release (c # cs) (q, ind) =
     (let d = count_of c ind - 1 in release cs (if d = 0 then q @ [c] else q, AList.update c d ind))"

definition positive_sum :: "(string, int) dict \<Rightarrow> nat" where
  "positive_sum ind = (\<Sum>(k, d)\<leftarrow>ind. nat d)"

lemma positive_sum_update:
  "positive_sum (AList.update c d ind) + nat (count_of c ind) = positive_sum ind + nat d"
  by (induction ind) (auto simp: positive_sum_def count_of_def setdefault_def)

lemma release_measure:
  "length (fst (release cs (q, ind))) + positive_sum (snd (release cs (q, ind))) \<le> length q + positive_sum ind"
proof (induction cs arbitrary: q ind)
  case (Cons c cs)
  let ?d = "count_of c ind - 1"
  have s: "positive_sum (AList.update c ?d ind) + nat (count_of c ind) = positive_sum ind + nat ?d"
    by (rule positive_sum_update)
  have "length (if ?d = 0 then q @ [c] else q) + positive_sum (AList.update c ?d ind) \<le> length q + positive_sum ind"
    using s by (cases "?d = 0") auto
  then show ?case using Cons.IH [of "if ?d = 0 then q @ [c] else q" "AList.update c ?d ind"]
    by (simp add: Let_def)
qed simp

function kahn ::
    "(string, group_master) dict \<Rightarrow> (string, string list) dict \<Rightarrow> string list \<Rightarrow> (string, int) dict \<Rightarrow>
     group_master list \<Rightarrow> group_master list" where
  "kahn names ch [] ind ordered = ordered"
| "kahn names ch (key # queue) ind ordered =
     (let (queue', ind') = release (sort (setdefault key [] ch)) (queue, ind) in
      kahn names ch queue' ind' (ordered @ [the (dget names key)]))"
  by pat_completeness auto
termination
proof (relation "measure (\<lambda>(names, ch, queue, ind, ordered). length queue + positive_sum ind)", goal_cases)
  case (2 names ch key queue ind ordered qi q' i')
  then have "release (sort (setdefault key [] ch)) (queue, ind) = (q', i')" by simp
  then show ?case using release_measure [of "sort (setdefault key [] ch)" queue ind] by simp
qed simp

definition topological_sort_groups :: "group_master list \<Rightarrow> group_master list res" where
  "topological_sort_groups gs =
     (let (ch, ind) = edges gs;
          ordered = kahn (by_name gs) ch (sort (map fst (filter (\<lambda>(k, d). d = 0) ind))) ind []
      in if length ordered \<noteq> length gs then Inl ValueError else Inr ordered)"

section \<open>The edges\<close>

definition parent_key :: "group_master \<Rightarrow> string" where
  "parent_key g = norm_name (g_parent g)"

definition keys :: "group_master list \<Rightarrow> string set" where
  "keys gs = set (map group_key gs)"

text \<open>How often \<open>p\<close> is named as the parent of a group of key \<open>k\<close>.\<close>

definition edge_count :: "group_master list \<Rightarrow> string \<Rightarrow> string \<Rightarrow> nat" where
  "edge_count gs p k = length (filter (\<lambda>g. parent_key g = p \<and> group_key g = k \<and> p \<noteq> k) gs)"

text \<open>The parents inside the batch: the relation that must not be cyclic.\<close>

definition parent_edges :: "group_master list \<Rightarrow> (string \<times> string) set" where
  "parent_edges gs = {(parent_key g, group_key g) | g. g \<in> set gs \<and> parent_key g \<in> keys gs \<and> parent_key g \<noteq> group_key g}"

lemma count_of_update [simp]: "count_of k (AList.update k' w d) = (if k = k' then w else count_of k d)"
  by (simp add: count_of_def)

lemma dom_by_name: "dget (by_name gs) k \<noteq> None \<longleftrightarrow> k \<in> keys gs"
proof -
  have "dget (by_name gs) k \<noteq> None \<longleftrightarrow> k \<in> set (dkeys (by_name gs))"
    by (simp add: dkeys_def map_of_eq_None_iff)
  then show ?thesis unfolding by_name_def set_dkeys_dict_of keys_def by force
qed

lemma by_name_key: "k \<in> keys gs \<Longrightarrow> \<exists>g\<in>set gs. dget (by_name gs) k = Some g \<and> group_key g = k"
proof -
  assume "k \<in> keys gs"
  then obtain g where g: "dget (by_name gs) k = Some g" using dom_by_name by blast
  then have "map_of (rev (map (\<lambda>g. (group_key g, g)) gs)) k = Some g"
    by (simp add: by_name_def dget_dict_of)
  then show ?thesis using g by (fastforce dest: map_of_SomeD)
qed

lemma add_edge_eq:
  "add_edge (by_name gs) g (ch, ind) =
     (if parent_key g \<in> keys gs \<and> parent_key g \<noteq> group_key g
      then (AList.update (parent_key g) (setdefault (parent_key g) [] ch @ [group_key g]) ch,
            AList.update (group_key g) (count_of (group_key g) ind + 1) ind)
      else (ch, ind))"
  unfolding add_edge_def Let_def prod.case parent_key_def [symmetric] dom_by_name ..

lemma edges_fold:
  assumes "set ds \<subseteq> set gs" "fold (add_edge (by_name gs)) ds ([], dict_of (map (\<lambda>g. (group_key g, 0)) gs)) = (ch, ind)"
  shows "setdefault p [] ch =
      (if p \<in> keys gs then map group_key (filter (\<lambda>g. parent_key g = p \<and> p \<noteq> group_key g) ds) else [])"
    and "count_of k ind = int (length (filter (\<lambda>g. group_key g = k \<and> parent_key g \<in> keys gs \<and> parent_key g \<noteq> k) ds))"
    and "distinct (map fst ind)" and "set (map fst ind) = keys gs"
  using assms
proof (induction ds arbitrary: ch ind p k rule: rev_induct)
  case Nil
  let ?d = "dict_of (map (\<lambda>g. (group_key g, 0 :: int)) gs)"
  have z: "dget ?d k = None \<or> dget ?d k = Some 0" for k
    unfolding dget_dict_of by (cases "dget (rev (map (\<lambda>g. (group_key g, 0 :: int)) gs)) k") (auto dest: map_of_SomeD)
  { case 1 then show ?case by (simp add: setdefault_def) }
  { case 2 then show ?case using z [of k] z [of p] by (auto simp: count_of_def setdefault_def) }
  { case 3 then show ?case using distinct_dict_of [of "map (\<lambda>g. (group_key g, 0 :: int)) gs"] by (simp add: dkeys_def) }
  { case 4 then show ?case using set_dkeys_dict_of [of "map (\<lambda>g. (group_key g, 0 :: int)) gs"]
      by (force simp add: dkeys_def keys_def) }
next
  case (snoc g ds)
  obtain ch1 ind1 where f: "fold (add_edge (by_name gs)) ds ([], dict_of (map (\<lambda>g. (group_key g, 0)) gs)) = (ch1, ind1)"
    by fastforce
  have gk: "g \<in> set gs \<Longrightarrow> group_key g \<in> keys gs" by (simp add: keys_def)
  { case 1 then show ?case using snoc.IH(1) [OF _ f] f by (auto simp: add_edge_eq split: if_splits) }
  { case 2 then show ?case using snoc.IH(2) [OF _ f] f by (auto simp: add_edge_eq split: if_splits) }
  { case 3 then show ?case using snoc.IH(3) [OF _ f] f by (auto simp: add_edge_eq distinct_update split: if_splits) }
  { case 4
    have "fst ` set (AList.update (group_key g) v ind1) = insert (group_key g) (fst ` set ind1)" for v
      using dom_update [of "group_key g" v ind1] by (simp add: dom_map_of_conv_image_fst)
    with 4 show ?case using snoc.IH(4) [OF _ f] f gk
      by (cases "parent_key g \<in> keys gs \<and> parent_key g \<noteq> group_key g") (clarsimp simp: add_edge_eq insert_absorb)+ }
qed

lemma edge_count_sum:
  "k \<in> keys gs \<Longrightarrow> length (filter (\<lambda>g. group_key g = k \<and> parent_key g \<in> keys gs \<and> parent_key g \<noteq> k) ds) =
     (\<Sum>p\<in>keys gs. edge_count ds p k)"
proof (induction ds)
  case (Cons g ds)
  have "(\<Sum>p\<in>keys gs. edge_count (g # ds) p k) =
      (\<Sum>p\<in>keys gs. (if p = parent_key g then if group_key g = k \<and> parent_key g \<noteq> k then 1 else 0 else 0) + edge_count ds p k)"
    by (intro sum.cong) (auto simp: edge_count_def)
  also have "\<dots> = (if parent_key g \<in> keys gs \<and> group_key g = k \<and> parent_key g \<noteq> k then 1 else 0) + (\<Sum>p\<in>keys gs. edge_count ds p k)"
    by (simp add: sum.distrib keys_def)
  finally show ?case using Cons by simp
qed (simp add: edge_count_def)

lemma count_list_filter: "count_list (map f xs) k = length (filter (\<lambda>x. f x = k) xs)"
  by (induction xs) auto

lemma edges_facts:
  assumes "edges gs = (ch, ind)"
  shows "p \<in> keys gs \<Longrightarrow> count_list (setdefault p [] ch) k = edge_count gs p k"
    and "k \<in> keys gs \<Longrightarrow> count_of k ind = int (\<Sum>p\<in>keys gs. edge_count gs p k)"
    and "distinct (map fst ind)" "set (map fst ind) = keys gs"
    and "k \<notin> keys gs \<Longrightarrow> edge_count gs p k = 0"
proof -
  note e = edges_fold [OF subset_refl assms [unfolded edges_def]]
  show "p \<in> keys gs \<Longrightarrow> count_list (setdefault p [] ch) k = edge_count gs p k"
    by (simp add: e(1) count_list_filter edge_count_def) (intro arg_cong [where f = length] filter_cong, auto)
  show "k \<in> keys gs \<Longrightarrow> count_of k ind = int (\<Sum>p\<in>keys gs. edge_count gs p k)"
    unfolding e(2) by (simp only: edge_count_sum)
  show "distinct (map fst ind)" "set (map fst ind) = keys gs" using e(3,4) by blast+
  show "k \<notin> keys gs \<Longrightarrow> edge_count gs p k = 0" by (auto simp: edge_count_def keys_def filter_empty_conv)
qed

section \<open>The loop\<close>

lemma release_spec:
  assumes "release cs (q, ind) = (q', ind')" "\<And>k. int (count_list cs k) \<le> count_of k ind \<or> k \<notin> set cs"
  shows "\<exists>new. q' = q @ new \<and> distinct new \<and> set new = {k \<in> set cs. count_of k ind = int (count_list cs k)} \<and>
    (\<forall>k. count_of k ind' = count_of k ind - int (count_list cs k))"
  using assms
proof (induction cs arbitrary: q ind)
  case (Cons c cs)
  let ?d = "count_of c ind - 1"
  let ?q = "if ?d = 0 then q @ [c] else q" and ?i = "AList.update c ?d ind"
  have pre: "int (count_list cs k) \<le> count_of k ?i \<or> k \<notin> set cs" for k
    using Cons.prems(2) [of k] by (cases "k = c") auto
  have "release cs (?q, ?i) = (q', ind')" using Cons.prems(1) by (simp add: Let_def)
  from Cons.IH [OF this pre] obtain new where n: "q' = ?q @ new" "distinct new"
      "set new = {k \<in> set cs. count_of k ?i = int (count_list cs k)}"
      "\<forall>k. count_of k ind' = count_of k ?i - int (count_list cs k)"
    by blast
  have c: "int (count_list (c # cs) c) \<le> count_of c ind" using Cons.prems(2) [of c] by simp
  have "\<forall>k. count_of k ind' = count_of k ind - int (count_list (c # cs) k)" using n(4) by simp
  moreover have "\<exists>new. q' = q @ new \<and> distinct new \<and> set new = {k \<in> set (c # cs). count_of k ind = int (count_list (c # cs) k)}"
  proof (cases "?d = 0")
    case True
    then have "count_list cs c = 0" using c by simp
    then have "c \<notin> set cs" by (simp add: count_list_0_iff)
    then show ?thesis using n True \<open>count_list cs c = 0\<close> by (intro exI [of _ "c # new"]) auto
  next
    case False
    have "c \<notin> set cs \<Longrightarrow> count_list cs c = 0" by simp
    then show ?thesis using n False by (intro exI [of _ new]) auto
  qed
  ultimately show ?case by blast
qed simp

text \<open>
  The state of the loop: the keys done and those waiting are different, they are those whose count
  is zero, every count is the number of edges from keys not yet done, and a key is done only after
  all its parents.
\<close>

definition kahn_inv :: "group_master list \<Rightarrow> string list \<Rightarrow> string list \<Rightarrow> (string, int) dict \<Rightarrow> bool" where
  "kahn_inv gs finished queue ind \<longleftrightarrow>
     distinct (finished @ queue) \<and> set (finished @ queue) \<subseteq> keys gs \<and>
     (\<forall>k\<in>keys gs. count_of k ind = int (\<Sum>p\<in>keys gs - set finished. edge_count gs p k)) \<and>
     (\<forall>k\<in>keys gs. k \<in> set (finished @ queue) \<longleftrightarrow> count_of k ind = 0) \<and>
     (\<forall>i<length finished. \<forall>p\<in>keys gs. 0 < edge_count gs p (finished ! i) \<longrightarrow> p \<in> set (take i finished))"

lemma finite_keys [simp]: "finite (keys gs)"
  by (simp add: keys_def)

lemma kahn_step:
  assumes inv: "kahn_inv gs finished (key # queue) ind" and ch: "edges gs = (ch, ind0)"
    and rel: "release (sort (setdefault key [] ch)) (queue, ind) = (queue', ind')"
  shows "kahn_inv gs (finished @ [key]) queue' ind'"
proof -
  let ?cs = "sort (setdefault key [] ch)" and ?R = "keys gs - set finished"
  note e = edges_facts [OF ch]
  have key: "key \<in> keys gs" "key \<notin> set finished" using inv by (auto simp: kahn_inv_def)
  have cl: "count_list ?cs k = edge_count gs key k" for k
    using e(1) [OF key(1), of k] by (simp flip: count_mset)
  have split: "(\<Sum>p\<in>?R. edge_count gs p k) = edge_count gs key k + (\<Sum>p\<in>keys gs - set (finished @ [key]). edge_count gs p k)" for k
  proof -
    have "?R - {key} = keys gs - set (finished @ [key])" by auto
    then show ?thesis using sum.remove [of ?R key "\<lambda>p. edge_count gs p k"] key by simp
  qed
  have cnt: "count_of k ind = int (\<Sum>p\<in>?R. edge_count gs p k)" if "k \<in> keys gs" for k
    using inv that by (simp add: kahn_inv_def)
  have csK: "k \<in> set ?cs \<Longrightarrow> k \<in> keys gs" for k
    using cl [of k] e(5) [of k key] by (metis count_list_0_iff)
  have "int (count_list ?cs k) \<le> count_of k ind \<or> k \<notin> set ?cs" for k
    using cnt [of k] split [of k] cl [of k] csK [of k] by (cases "k \<in> set ?cs") (auto intro: sum_nonneg)
  from release_spec [OF rel this] obtain new where n: "queue' = queue @ new" "distinct new"
      "set new = {k \<in> set ?cs. count_of k ind = int (count_list ?cs k)}"
      "\<And>k. count_of k ind' = count_of k ind - int (count_list ?cs k)"
    by blast
  have zero: "count_of k ind = 0 \<longleftrightarrow> k \<in> set finished \<or> k = key \<or> k \<in> set queue" if "k \<in> keys gs" for k
    using inv that by (auto simp: kahn_inv_def)
  have newpos: "count_of k ind \<noteq> 0" if "k \<in> set new" for k
    using that n(3) by (metis (mono_tags, lifting) count_list_0_iff mem_Collect_eq of_nat_eq_0_iff)
  have "k \<in> keys gs \<and> k \<notin> set finished \<and> k \<noteq> key \<and> k \<notin> set queue" if "k \<in> set new" for k
    using that n(3) csK [of k] zero [of k] newpos [of k] by blast
  then have "distinct ((finished @ [key]) @ queue')" "set ((finished @ [key]) @ queue') \<subseteq> keys gs"
    using inv n(1,2) unfolding kahn_inv_def by auto
  moreover have "count_of k ind' = int (\<Sum>p\<in>keys gs - set (finished @ [key]). edge_count gs p k)" if "k \<in> keys gs" for k
    using n(4) cnt [OF that] split [of k] cl [of k] by simp
  moreover have "k \<in> set ((finished @ [key]) @ queue') \<longleftrightarrow> count_of k ind' = 0" if k: "k \<in> keys gs" for k
  proof (cases "count_of k ind = 0")
    case True
    have "int (count_list ?cs k) \<le> count_of k ind"
      unfolding cnt [OF k] split [of k] cl by (simp del: of_nat_sum)
    then have "count_of k ind' = 0" using True n(4) [of k] by simp
    then show ?thesis using zero [OF k] True n(1) by auto
  next
    case False
    have "k \<in> set new \<longleftrightarrow> count_of k ind = int (count_list ?cs k)"
      using n(3) False by (cases "k \<in> set ?cs") auto
    then show ?thesis using zero [OF k] False n(1,4) by auto
  qed
  moreover have "\<forall>i<length (finished @ [key]). \<forall>p\<in>keys gs. 0 < edge_count gs p ((finished @ [key]) ! i) \<longrightarrow> p \<in> set (take i (finished @ [key]))"
  proof (intro allI impI ballI)
    fix i p
    assume i: "i < length (finished @ [key])" and p: "p \<in> keys gs" "0 < edge_count gs p ((finished @ [key]) ! i)"
    show "p \<in> set (take i (finished @ [key]))"
    proof (cases "i < length finished")
      case True
      then show ?thesis using inv p by (simp add: kahn_inv_def nth_append)
    next
      case False
      then have i': "i = length finished" using i by simp
      have "count_of key ind = 0" using zero key by blast
      then have "(\<Sum>p\<in>?R. edge_count gs p key) = 0" using cnt [OF key(1)] by (simp del: of_nat_sum)
      then have "\<forall>a\<in>?R. edge_count gs a key = 0" by simp
      moreover have "edge_count gs p key \<noteq> 0" using p(2) i' by (simp add: nth_append)
      ultimately have "p \<notin> ?R" by (metis (no_types, lifting))
      then show ?thesis using p(1) i' by simp
    qed
  qed
  ultimately show ?thesis unfolding kahn_inv_def by blast
qed

lemma kahn_result:
  assumes "edges gs = (ch, ind0)" "kahn_inv gs finished queue ind"
  shows "\<exists>fin ind'. kahn (by_name gs) ch queue ind (map (\<lambda>k. the (dget (by_name gs) k)) finished) =
      map (\<lambda>k. the (dget (by_name gs) k)) fin \<and> kahn_inv gs fin [] ind'"
  using assms(2)
proof (induction "length queue + positive_sum ind" arbitrary: finished queue ind rule: less_induct)
  case less
  show ?case
  proof (cases queue)
    case Nil
    then show ?thesis using less.prems by auto
  next
    case (Cons key rest)
    obtain q' i' where r: "release (sort (setdefault key [] ch)) (rest, ind) = (q', i')" by fastforce
    have "kahn_inv gs (finished @ [key]) q' i'" using kahn_step [OF _ assms(1) r] less.prems Cons by blast
    moreover have "length q' + positive_sum i' < length queue + positive_sum ind"
      using release_measure [of "sort (setdefault key [] ch)" rest ind] r Cons by simp
    ultimately show ?thesis using less.hyps [of q' i' "finished @ [key]"] Cons r by simp
  qed
qed

lemma kahn_start:
  assumes "edges gs = (ch, ind)"
  shows "kahn_inv gs [] (sort (map fst (filter (\<lambda>(k, d). d = 0) ind))) ind"
proof -
  note e = edges_facts [OF assms]
  have m: "k \<in> fst ` {x \<in> set ind. case x of (k, d) \<Rightarrow> d = 0} \<longleftrightarrow> k \<in> keys gs \<and> count_of k ind = 0" for k
  proof -
    have "k \<in> fst ` {x \<in> set ind. case x of (k, d) \<Rightarrow> d = 0} \<longleftrightarrow> (k, 0) \<in> set ind" by force
    also have "\<dots> \<longleftrightarrow> dget ind k = Some 0" using e(3) by simp
    also have "\<dots> \<longleftrightarrow> dget ind k \<noteq> None \<and> count_of k ind = 0"
      by (auto simp: count_of_def setdefault_def)
    also have "dget ind k \<noteq> None \<longleftrightarrow> k \<in> keys gs" unfolding e(4) [symmetric] by (simp add: map_of_eq_None_iff)
    finally show ?thesis .
  qed
  have "distinct (map fst (filter (\<lambda>(k, d). d = 0) ind))" using e(3) by (rule distinct_map_filter)
  then show ?thesis using e(2,4) m by (auto simp: kahn_inv_def)
qed


section \<open>Properties\<close>

lemma topological_sort_cases:
  obtains fin ind' where "kahn_inv gs fin [] ind'"
    "topological_sort_groups gs =
       (if length fin \<noteq> length gs then Inl ValueError else Inr (map (\<lambda>k. the (dget (by_name gs) k)) fin))"
proof -
  obtain ch ind where e: "edges gs = (ch, ind)" by fastforce
  from kahn_result [OF e kahn_start [OF e]] obtain fin ind' where
    "kahn (by_name gs) ch (sort (map fst (filter (\<lambda>(k, d). d = 0) ind))) ind [] =
      map (\<lambda>k. the (dget (by_name gs) k)) fin" "kahn_inv gs fin [] ind'"
    by auto
  then show thesis using e by (intro that [of fin ind']) (simp_all add: topological_sort_groups_def)
qed

lemma all_keys_done:
  assumes "kahn_inv gs fin [] ind" "length fin = length gs"
  shows "set fin = keys gs" and "distinct (map group_key gs)"
proof -
  have f: "distinct fin" "set fin \<subseteq> keys gs" using assms(1) by (auto simp: kahn_inv_def)
  have "card (keys gs) \<le> length gs" unfolding keys_def using card_length [of "map group_key gs"] by simp
  moreover have "card (set fin) = length gs" using f(1) assms(2) by (simp add: distinct_card)
  ultimately show s: "set fin = keys gs" using f(2) by (simp add: card_seteq)
  then have "card (set (map group_key gs)) = length (map group_key gs)"
    using \<open>card (set fin) = length gs\<close> by (simp add: keys_def)
  then show "distinct (map group_key gs)" by (rule card_distinct)
qed

lemma edge_count_pos: "0 < edge_count gs p k \<and> p \<in> keys gs \<longleftrightarrow> (p, k) \<in> parent_edges gs"
  by (auto simp: edge_count_def parent_edges_def filter_empty_conv)

lemma sorted_groups:
  assumes inv: "kahn_inv gs fin [] ind" and len: "length fin = length gs"
  defines "os \<equiv> map (\<lambda>k. the (dget (by_name gs) k)) fin"
  shows "mset os = mset gs" "map group_key os = fin"
proof -
  note d = all_keys_done [OF inv len]
  have k: "group_key (the (dget (by_name gs) k)) = k \<and> the (dget (by_name gs) k) \<in> set gs" if "k \<in> set fin" for k
    using by_name_key [of k gs] d(1) that by auto
  then show m: "map group_key os = fin" by (simp add: os_def map_idI)
  have "set os \<subseteq> set gs" using k by (auto simp: os_def)
  moreover have "distinct os" using m inv by (metis distinct_map kahn_inv_def append_Nil2)
  moreover have "distinct gs" using d(2) by (simp add: distinct_map)
  moreover have "card (set os) = card (set gs)"
    using distinct_card [OF \<open>distinct os\<close>] distinct_card [OF \<open>distinct gs\<close>] len by (simp add: os_def)
  ultimately show "mset os = mset gs"
    by (simp add: card_subset_eq flip: set_eq_iff_mset_eq_distinct)
qed

text \<open>
  C13: What \<open>topological_sort_groups\<close> returns is a rearrangement of the groups it was given,
  with different names, in which every group comes after its parent, if the parent is in the batch.
\<close>

theorem topological_sort_sound:
  assumes "topological_sort_groups gs = Inr os"
  shows "mset os = mset gs \<and> distinct (map group_key os) \<and>
    (\<forall>i<length os. parent_key (os ! i) \<in> keys gs \<longrightarrow> parent_key (os ! i) \<noteq> group_key (os ! i) \<longrightarrow>
       (\<exists>j<i. group_key (os ! j) = parent_key (os ! i)))"
proof -
  obtain fin ind where inv: "kahn_inv gs fin [] ind" and t: "topological_sort_groups gs =
       (if length fin \<noteq> length gs then Inl ValueError else Inr (map (\<lambda>k. the (dget (by_name gs) k)) fin))"
    by (rule topological_sort_cases)
  then have len: "length fin = length gs" and os: "os = map (\<lambda>k. the (dget (by_name gs) k)) fin"
    using assms by (auto split: if_splits)
  note s = sorted_groups [OF inv len, folded os]
  have fin: "length fin = length os" "\<And>i. i < length os \<Longrightarrow> group_key (os ! i) = fin ! i"
    using s(2) by (metis length_map, metis nth_map)
  have "\<exists>j<i. group_key (os ! j) = parent_key (os ! i)"
    if i: "i < length os" "parent_key (os ! i) \<in> keys gs" "parent_key (os ! i) \<noteq> group_key (os ! i)" for i
  proof -
    have "os ! i \<in> set gs" using s(1) i(1) by (metis mset_eq_setD nth_mem)
    then have "(parent_key (os ! i), fin ! i) \<in> parent_edges gs"
      using i fin by (auto simp: parent_edges_def)
    then have "parent_key (os ! i) \<in> set (take i fin)"
      using inv i fin edge_count_pos [of gs "parent_key (os ! i)" "fin ! i"] by (auto simp: kahn_inv_def)
    then obtain j where "j < i" "j < length fin" "fin ! j = parent_key (os ! i)" by (auto simp: in_set_conv_nth)
    then show ?thesis using fin by auto
  qed
  moreover have "distinct (map group_key os)" using s(2) inv by (simp add: kahn_inv_def)
  ultimately show ?thesis using s(1) by blast
qed

text \<open>
  C28: It succeeds exactly when the names differ, up to case and spacing, and the parent relation
  inside the batch has no cycle: a cycle is never accepted and nothing else but a repeated name is
  refused as one.
\<close>

theorem topological_sort_succeeds_iff:
  "(\<exists>os. topological_sort_groups gs = Inr os) \<longleftrightarrow> distinct (map group_key gs) \<and> acyclic (parent_edges gs)"
proof -
  obtain fin ind where inv: "kahn_inv gs fin [] ind" and t: "topological_sort_groups gs =
       (if length fin \<noteq> length gs then Inl ValueError else Inr (map (\<lambda>k. the (dget (by_name gs) k)) fin))"
    by (rule topological_sort_cases)
  have fin: "distinct fin" "set fin \<subseteq> keys gs" using inv by (auto simp: kahn_inv_def)
  have edge: "p \<in> set (take i fin)" if "i < length fin" "(p, fin ! i) \<in> parent_edges gs" for i p
    using inv that edge_count_pos [of gs p "fin ! i"] by (auto simp: kahn_inv_def)
  have "(\<exists>os. topological_sort_groups gs = Inr os) \<longleftrightarrow> length fin = length gs" by (simp add: t)
  also have "\<dots> \<longleftrightarrow> distinct (map group_key gs) \<and> acyclic (parent_edges gs)"
  proof
    assume len: "length fin = length gs"
    note d = all_keys_done [OF inv len]
    define pos where "pos = (\<lambda>k. THE i. i < length fin \<and> fin ! i = k)"
    have pos: "pos (fin ! i) = i" if "i < length fin" for i
      using that fin(1) by (auto simp: pos_def nth_eq_iff_index_eq intro!: the_equality)
    have "parent_edges gs \<subseteq> inv_image {(a, b). a < b} pos"
    proof (safe, simp)
      fix p k assume pk: "(p, k) \<in> parent_edges gs"
      then have "k \<in> set fin" using d(1) by (auto simp: parent_edges_def keys_def)
      then obtain i where i: "i < length fin" "fin ! i = k" by (auto simp: in_set_conv_nth)
      then obtain j where "j < i" "fin ! j = p" using edge [of i p] pk by (auto simp: in_set_conv_nth)
      then show "pos p < pos k" using pos [of i] pos [of j] i by auto
    qed
    moreover have "acyclic (inv_image {(a, b). a < b} pos)"
      by (rule wf_acyclic) (rule wf_inv_image, rule wf)
    ultimately show "distinct (map group_key gs) \<and> acyclic (parent_edges gs)"
      using d(2) acyclic_subset by blast
  next
    assume a: "distinct (map group_key gs) \<and> acyclic (parent_edges gs)"
    have "keys gs - set fin = {}"
    proof (rule ccontr)
      assume ne: "keys gs - set fin \<noteq> {}"
      have "parent_edges gs \<subseteq> keys gs \<times> keys gs" by (auto simp: parent_edges_def keys_def)
      then have "finite (parent_edges gs)" by (rule finite_subset) simp
      then have "wf (parent_edges gs)" using a by (simp add: finite_acyclic_wf)
      then obtain k where k: "k \<in> keys gs - set fin" "\<And>p. (p, k) \<in> parent_edges gs \<Longrightarrow> p \<notin> keys gs - set fin"
        using ne by (metis wf_eq_minimal ex_in_conv)
      have "count_of k ind = int (\<Sum>p\<in>keys gs - set fin. edge_count gs p k)" "count_of k ind \<noteq> 0"
        using inv k(1) by (auto simp: kahn_inv_def)
      then obtain p where "p \<in> keys gs - set fin" "0 < edge_count gs p k"
        by (metis gr0I of_nat_0 sum.neutral)
      then show False using k(2) edge_count_pos [of gs p k] by blast
    qed
    then have "set fin = keys gs" using fin(2) by blast
    then show "length fin = length gs"
      using a fin(1) distinct_card [of fin] distinct_card [of "map group_key gs"] by (simp add: keys_def)
  qed
  finally show ?thesis .
qed

section \<open>Examples\<close>

definition sample_group :: "string \<Rightarrow> string \<Rightarrow> group_master" where
  "sample_group nm par = master_base.extend
     \<lparr>m_source_row = None, m_name = nm, m_action = CREATE, m_guid = None, m_master_id = None,
      m_alter_id = None, m_old_name = None\<rparr> (group_master.fields par None None None None)"

lemma sample_sorted:
  "topological_sort_groups [sample_group ''South'' ''Sales  ZONE'', sample_group ''Sales Zone'' ''Primary''] =
     Inr [sample_group ''Sales Zone'' ''Primary'', sample_group ''South'' ''Sales  ZONE'']"
  by code_simp

theorem topological_sort_sound_witness:
  "\<exists>os. topological_sort_groups [sample_group ''South'' ''Sales  ZONE'', sample_group ''Sales Zone'' ''Primary''] = Inr os \<and>
     mset os = mset [sample_group ''South'' ''Sales  ZONE'', sample_group ''Sales Zone'' ''Primary'']"
  using topological_sort_sound [OF sample_sorted] sample_sorted by blast

text \<open>
  Two groups whose names differ only in case are refused as a cyclic hierarchy although there
  is no cycle.
\<close>

theorem repeated_name_refused:
  "topological_sort_groups [sample_group ''North'' ''Primary'', sample_group ''NORTH'' ''Primary''] = Inl ValueError \<and>
   acyclic (parent_edges [sample_group ''North'' ''Primary'', sample_group ''NORTH'' ''Primary''])"
proof
  let ?gs = "[sample_group ''North'' ''Primary'', sample_group ''NORTH'' ''Primary'']"
  show "topological_sort_groups ?gs = Inl ValueError" by code_simp
  have "norm_name ''Primary'' = ''primary''" "norm_name ''North'' = ''north''" "norm_name ''NORTH'' = ''north''"
    by code_simp+
  then have "parent_edges ?gs = {}"
    by (auto simp: parent_edges_def parent_key_def keys_def group_key_def sample_group_def master_base.extend_def group_master.fields_def)
  then show "acyclic (parent_edges ?gs)" by (simp add: acyclic_def)
qed

end
