(* ===== verification/MasterXml.thy ===== *)
theory MasterXml
  imports VoucherXml GroupOrder
begin

text \<open>
  \<open>conversion/builder.py\<close>: the import document of the masters, in the order their references
  need, and the document that holds masters and vouchers.
\<close>

section \<open>Helpers\<close>

definition primary_group :: string where
  "primary_group = ''Primary''"

definition default_import_dups :: string where
  "default_import_dups = ''@@DupModify''"

definition identity_elems :: "string \<Rightarrow> string option \<Rightarrow> string option \<Rightarrow> xml list" where
  "identity_elems name guid old_name =
     opt_leaf ''GUID'' guid @
     (let old = strip (or_else old_name '''') in
      if old \<noteq> '''' \<and> norm_name old \<noteq> norm_name name
      then [node ''NAME.LIST'' [(''TYPE'', ''String'')] [leaf ''NAME'' name, leaf ''NAME'' old]]
      else [leaf ''NAME'' name])"

definition master_elem :: "string \<Rightarrow> 'a master_base_scheme \<Rightarrow> xml list \<Rightarrow> xml" where
  "master_elem tag m xs =
     tallymessage [node tag [(''NAME'', m_name m), (''ACTION'', action_value (m_action m))]
       (identity_elems (m_name m) (m_guid m) (m_old_name m) @ xs)]"

definition yn_leaf :: "string \<Rightarrow> bool option \<Rightarrow> xml list" where
  "yn_leaf tag b = (case b of None \<Rightarrow> [] | Some x \<Rightarrow> [leaf tag (yn x)])"

definition opening_balance_credit_is_negative :: bool where
  "opening_balance_credit_is_negative = True"

definition format_opening_balance :: "fdec \<Rightarrow> bool \<Rightarrow> string res" where
  "format_opening_balance amount is_debit =
     (let magnitude = d_abs amount in
      if \<not> is_debit \<and> opening_balance_credit_is_negative then amount_str (d_neg magnitude)
      else if is_debit \<and> \<not> opening_balance_credit_is_negative then amount_str (d_neg magnitude)
      else amount_str magnitude)"

text \<open>\<open>str\<close> of an integer.\<close>

definition int_str :: "int \<Rightarrow> string" where
  "int_str n = (if n < 0 then ''-'' @ nat_str (nat (- n)) else nat_str (nat n))"

section \<open>The four kinds of master\<close>

definition build_unit :: "unit_master \<Rightarrow> xml" where
  "build_unit u =
     master_elem ''UNIT'' u
       (if u_is_simple u
        then [leaf ''ISSIMPLEUNIT'' ''Yes'', leaf ''DECIMALPLACES'' (int_str (u_decimal_places u))]
        else [leaf ''ISSIMPLEUNIT'' ''No''] @ opt_leaf ''BASEUNITS'' (u_base_units u) @
             opt_leaf ''ADDITIONALUNITS'' (u_additional_units u) @
             (case u_conversion u of None \<Rightarrow> [] | Some c \<Rightarrow> [leaf ''CONVERSION'' (plain_str c)]))"

definition build_group :: "group_master \<Rightarrow> xml" where
  "build_group g =
     master_elem ''GROUP'' g
       ([leaf ''PARENT'' (if g_parent g = '''' then primary_group else g_parent g)] @
        yn_leaf ''ISREVENUE'' (g_is_revenue g) @ yn_leaf ''ISDEEMEDPOSITIVE'' (g_is_deemed_positive g) @
        yn_leaf ''ISBILLWISEON'' (g_is_billwise g) @ yn_leaf ''AFFECTSGROSSPROFIT'' (g_affects_gross_profit g))"

definition ledger_fields :: "ledger_master \<Rightarrow> xml list \<Rightarrow> xml list \<Rightarrow> xml list" where
  "ledger_fields l opening limit =
     [leaf ''PARENT'' (l_parent l)] @ yn_leaf ''ISBILLWISEON'' (l_is_billwise l) @
     opt_leaf ''GSTREGISTRATIONTYPE'' (l_gst_registration_type l) @ opt_leaf ''PARTYGSTIN'' (l_gstin l) @
     opt_leaf ''LEDSTATENAME'' (l_state l) @ opt_leaf ''COUNTRYNAME'' (l_country l) @ opening @
     (if truthy (l_mailing_name l)
      then [node ''MAILINGNAME.LIST'' [(''TYPE'', ''String'')] [leaf ''MAILINGNAME'' (the (l_mailing_name l))]]
      else []) @
     (if l_address_lines l \<noteq> []
      then [node ''ADDRESS.LIST'' [(''TYPE'', ''String'')] (map (leaf ''ADDRESS'') (l_address_lines l))]
      else []) @
     opt_leaf ''PINCODE'' (l_pincode l) @ opt_leaf ''EMAIL'' (l_email l) @
     opt_leaf ''LEDGERPHONE'' (l_phone l) @ limit"

definition build_ledger :: "ledger_master \<Rightarrow> xml res" where
  "build_ledger l =
     rbind (if m_action l = CREATE
            then rbind (format_opening_balance (l_opening_balance l) (l_opening_is_debit l))
                   (\<lambda>b. Inr [leaf ''OPENINGBALANCE'' b])
            else Inr []) (\<lambda>opening.
     rbind (case l_credit_limit l of
              None \<Rightarrow> Inr [] | Some c \<Rightarrow> rbind (amount_str c) (\<lambda>a. Inr [leaf ''CREDITLIMIT'' a])) (\<lambda>limit.
       Inr (master_elem ''LEDGER'' l (ledger_fields l opening limit))))"

definition opening_stock :: "stock_item \<Rightarrow> xml list res" where
  "opening_stock i =
     (case (m_action i, i_opening_qty i) of
        (CREATE, Some q) \<Rightarrow>
          rbind (case i_opening_rate i of
                   None \<Rightarrow> Inr []
                 | Some r \<Rightarrow> rbind (amount_str r) (\<lambda>a. Inr [leaf ''OPENINGRATE'' (a @ ''/'' @ i_base_units i)])) (\<lambda>rate.
          rbind (case i_opening_value i of
                   None \<Rightarrow> Inr []
                 | Some v \<Rightarrow> rbind (amount_str v) (\<lambda>a. Inr [leaf ''OPENINGVALUE'' a])) (\<lambda>value.
            Inr ([leaf ''OPENINGBALANCE'' (plain_str q @ '' '' @ i_base_units i)] @ rate @ value)))
      | _ \<Rightarrow> Inr [])"

definition build_stock_item :: "stock_item \<Rightarrow> xml res" where
  "build_stock_item i =
     rbind (opening_stock i) (\<lambda>opening.
       Inr (master_elem ''STOCKITEM'' i
         ((if i_parent i \<noteq> '''' \<and> casefold (strip (i_parent i)) \<noteq> casefold primary_group
           then [leaf ''PARENT'' (i_parent i)] else []) @
          [leaf ''BASEUNITS'' (i_base_units i)] @ opt_leaf ''HSNCODE'' (i_hsn_code i) @
          opt_leaf ''CATEGORY'' (i_category i) @ opt_leaf ''DESCRIPTION'' (i_description i) @
          (if i_gst_applicable i
           then [leaf ''GSTAPPLICABLE'' (list_marker_value ''Applicable''), leaf ''GSTTYPEOFSUPPLY'' ''Goods'']
           else [leaf ''GSTAPPLICABLE'' (list_marker_value ''Not Applicable'')]) @ opening)))"

section \<open>The documents\<close>

definition masters_messages ::
    "unit_master list \<Rightarrow> group_master list \<Rightarrow> stock_item list \<Rightarrow> ledger_master list \<Rightarrow> xml list res" where
  "masters_messages units groups items ledgers =
     rbind (topological_sort_groups groups) (\<lambda>ordered.
     rbind (rmap build_stock_item items) (\<lambda>is.
     rbind (rmap build_ledger ledgers) (\<lambda>ls.
       Inr (map build_unit units @ map build_group ordered @ is @ ls))))"

definition build_masters_envelope ::
    "string \<Rightarrow> unit_master list \<Rightarrow> group_master list \<Rightarrow> stock_item list \<Rightarrow> ledger_master list \<Rightarrow>
     string option \<Rightarrow> xml res" where
  "build_masters_envelope company units groups items ledgers dups =
     rbind (masters_messages units groups items ledgers) (\<lambda>msgs.
       Inr (request_envelope [importdata ''All Masters'' company dups msgs]))"

definition build_unified_envelope ::
    "string \<Rightarrow> unit_master list \<Rightarrow> group_master list \<Rightarrow> stock_item list \<Rightarrow> ledger_master list \<Rightarrow>
     voucher list \<Rightarrow> string option \<Rightarrow> xml res" where
  "build_unified_envelope company units groups items ledgers vouchers dups =
     rbind (if units \<noteq> [] \<or> groups \<noteq> [] \<or> items \<noteq> [] \<or> ledgers \<noteq> []
            then rbind (masters_messages units groups items ledgers) (\<lambda>msgs.
                   Inr [importdata ''All Masters'' company dups msgs])
            else Inr []) (\<lambda>masters.
     rbind (if vouchers \<noteq> []
            then rbind (rmap build_voucher vouchers) (\<lambda>msgs. Inr [importdata ''Vouchers'' company None msgs])
            else Inr []) (\<lambda>vs.
       Inr (request_envelope (masters @ vs))))"

definition build_and_serialize ::
    "(xml \<Rightarrow> string) \<Rightarrow> string \<Rightarrow> unit_master list \<Rightarrow> group_master list \<Rightarrow> stock_item list \<Rightarrow>
     ledger_master list \<Rightarrow> voucher list \<Rightarrow> string option \<Rightarrow> string res" where
  "build_and_serialize tostring company units groups items ledgers vouchers dups =
     rbind (build_unified_envelope company units groups items ledgers vouchers dups) (\<lambda>x.
       Inr (serialize tostring x))"

section \<open>Reading a document\<close>

text \<open>The requests of a document: report and messages; and what a message is about.\<close>

definition children_of :: "string \<Rightarrow> xml \<Rightarrow> xml list" where
  "children_of tag x = filter (\<lambda>y. x_tag y = tag) (x_children x)"

definition requests :: "xml \<Rightarrow> (string \<times> xml list) list" where
  "requests env =
     concat (map (\<lambda>b. map (\<lambda>i.
        (concat (map (\<lambda>d. concat (map (\<lambda>r. or_else (x_text r) '''') (children_of ''REPORTNAME'' d))) (children_of ''REQUESTDESC'' i)),
         concat (map x_children (children_of ''REQUESTDATA'' i))))
       (children_of ''IMPORTDATA'' b)) (children_of ''BODY'' env))"

text \<open>The kind and the name of a master's message.\<close>

definition subject :: "xml \<Rightarrow> (string \<times> string) option" where
  "subject msg =
     (case x_children msg of
        [e] \<Rightarrow> map_option (\<lambda>nm. (x_tag e, nm)) (map_of (x_attrs e) ''NAME'')
      | _ \<Rightarrow> None)"

lemma children_of_node [simp]: "children_of t (node tag attrs xs) = filter (\<lambda>y. x_tag y = t) xs"
  by (simp add: children_of_def node_def)

lemma x_tag_simps [simp]: "x_tag (leaf t s) = t" "x_tag (node t a xs) = t" "x_children (node t a xs) = xs"
  "x_text (leaf t s) = Some s" "x_attrs (node t a xs) = a"
  by (simp_all add: leaf_def node_def)

lemma requests_envelope: "requests (request_envelope (map (\<lambda>(r, d, ms). importdata r c d ms) parts)) = map (\<lambda>(r, d, ms). (r, ms)) parts"
proof -
  have t: "x_tag (importdata r c d ms) = ''IMPORTDATA''" for r d ms by (simp add: importdata_def)
  have "filter (\<lambda>y. x_tag y = ''IMPORTDATA'') (map (\<lambda>(r, d, ms). importdata r c d ms) parts) =
      map (\<lambda>(r, d, ms). importdata r c d ms) parts"
    by (rule filter_True) (auto simp: t)
  then show ?thesis
    by (auto simp: requests_def request_envelope_def comp_def importdata_def split_beta)
qed

lemma subject_master: "subject (master_elem tag m xs) = Some (tag, m_name m)"
  by (simp add: subject_def master_elem_def tallymessage_def)

lemma rmap_subjects:
  "rmap f xs = Inr ys \<Longrightarrow> (\<And>x y. f x = Inr y \<Longrightarrow> subject y = Some (g x)) \<Longrightarrow> map subject ys = map (Some \<circ> g) xs"
  by (induction xs arbitrary: ys) (auto simp: rbind_Inr)

lemma subject_built:
  "subject (build_unit u) = Some (''UNIT'', m_name u)" "subject (build_group g) = Some (''GROUP'', m_name g)"
  "build_ledger l = Inr x \<Longrightarrow> subject x = Some (''LEDGER'', m_name l)"
  "build_stock_item i = Inr x \<Longrightarrow> subject x = Some (''STOCKITEM'', m_name i)"
  by (auto simp: build_unit_def build_group_def build_ledger_def build_stock_item_def subject_master rbind_Inr)

section \<open>Properties\<close>


text \<open>
  The opening balance of a ledger and the amount of a voucher line have opposite sign
  conventions: for the same whole number of paisa on the same side, the two printed numbers add up
  to zero, the opening balance being positive on the debit side.
\<close>

theorem sign_conventions_inverse:
  assumes "format_opening_balance (vl_amount l) (vl_is_debit l) = Inr a" "signed_amount l = Inr b"
    and "exact_paisa (vl_amount l)"
  shows "amount_val a + amount_val b = 0 \<and> (vl_is_debit l \<longrightarrow> 0 \<le> amount_val a)"
proof -
  let ?m = "d_abs (vl_amount l)"
  note e = exact_paisa_neg [OF assms(3)]
  have "val ?m = \<bar>val (vl_amount l)\<bar>" using assms(3) by (simp add: val_abs exact_paisa_def)
  moreover have "val (d_neg ?m) = - val ?m" using e by (simp add: val_neg exact_paisa_def)
  ultimately have "amount_val a = (if vl_is_debit l then \<bar>val (vl_amount l)\<bar> else - \<bar>val (vl_amount l)\<bar>)"
    using assms(1) amount_str_val(3) e
    by (auto simp: format_opening_balance_def opening_balance_credit_is_negative_def Let_def exact_paisa_def split: if_splits)
  then show ?thesis using signed_amount_val [OF assms(2,3)] by simp
qed

lemma sample_opening: "format_opening_balance (Dec False 100 0) True = Inr ''100.00''"
  by code_simp

theorem sign_conventions_inverse_witness:
  "amount_val ''100.00'' + amount_val ''-100.00'' = 0"
  using sign_conventions_inverse [of "v_lines sample_voucher ! 0"] sample_opening sample_posts(1)
  by (simp add: sample_voucher_def exact_paisa_def whole_paisa_def)

definition ledger_tags :: "xml \<Rightarrow> string list" where
  "ledger_tags msg = concat (map (\<lambda>e. map x_tag (x_children e)) (x_children msg))"

lemma tag_in:
  "t \<in> set (map x_tag (opt_leaf u x)) \<longleftrightarrow> truthy x \<and> t = u" "t \<in> set (map x_tag (yn_leaf u b)) \<longleftrightarrow> b \<noteq> None \<and> t = u"
  "t \<in> set (map x_tag (if c then [y] else [])) \<longleftrightarrow> c \<and> t = x_tag y"
  by (auto simp: opt_leaf_def yn_leaf_def split: option.splits)

lemma tags_identity: "set (map x_tag (identity_elems n g old)) \<subseteq> {''GUID'', ''NAME'', ''NAME.LIST''}"
  by (auto simp: identity_elems_def Let_def opt_leaf_def)

lemma opening_in_fields:
  "''OPENINGBALANCE'' \<in> set (map x_tag (ledger_fields l opening limit)) \<longleftrightarrow>
   ''OPENINGBALANCE'' \<in> set (map x_tag opening) \<or> ''OPENINGBALANCE'' \<in> set (map x_tag limit)"
  unfolding ledger_fields_def map_append set_append Un_iff tag_in by simp

text \<open>
  An opening balance is emitted exactly when the ledger is created, so altering a ledger never
  overwrites its balance.
\<close>

theorem opening_balance_only_on_create:
  assumes "build_ledger l = Inr m"
  shows "''OPENINGBALANCE'' \<in> set (ledger_tags m) \<longleftrightarrow> m_action l = CREATE"
proof -
  from assms obtain ob limit where m: "m = master_elem ''LEDGER'' l (ledger_fields l ob limit)"
    and o: "(\<exists>b. ob = [leaf ''OPENINGBALANCE'' b]) \<and> m_action l = CREATE \<or> ob = [] \<and> m_action l \<noteq> CREATE"
    and li: "limit = [] \<or> (\<exists>a. limit = [leaf ''CREDITLIMIT'' a])"
    unfolding build_ledger_def
    by (cases "m_action l = CREATE"; cases "l_credit_limit l") (auto simp: rbind_Inr)
  have "''OPENINGBALANCE'' \<notin> set (map x_tag (identity_elems n g old))" for n g old
    using tags_identity [of n g old] by auto
  then have "''OPENINGBALANCE'' \<in> set (ledger_tags m) \<longleftrightarrow> ''OPENINGBALANCE'' \<in> set (map x_tag ob) \<or> ''OPENINGBALANCE'' \<in> set (map x_tag limit)"
    by (simp add: m ledger_tags_def master_elem_def tallymessage_def opening_in_fields del: set_map)
  also have "\<dots> \<longleftrightarrow> m_action l = CREATE" using o li by auto
  finally show ?thesis .
qed

section \<open>Examples\<close>

lemma sample_masters:
  "\<exists>env. build_masters_envelope ''Co'' [] [sample_group ''South'' ''Sales  ZONE'', sample_group ''Sales Zone'' ''Primary''] [] [] None = Inr env"
  by (simp add: build_masters_envelope_def masters_messages_def sample_sorted)


definition sample_ledger :: ledger_master where
  "sample_ledger = master_base.extend
     \<lparr>m_source_row = None, m_name = ''Asha'', m_action = ALTER, m_guid = None, m_master_id = None,
      m_alter_id = None, m_old_name = None\<rparr>
     (ledger_master.fields ''Sundry Debtors'' (Dec False 100 0) True None None None None None None [] None None None None)"

theorem opening_balance_only_on_create_witness:
  "\<exists>m. build_ledger sample_ledger = Inr m \<and> ''OPENINGBALANCE'' \<notin> set (ledger_tags m)"
proof -
  have a: "m_action sample_ledger = ALTER" "l_credit_limit sample_ledger = None"
    by (simp_all add: sample_ledger_def master_base.extend_def ledger_master.fields_def)
  then have "\<exists>m. build_ledger sample_ledger = Inr m" by (simp add: build_ledger_def)
  then show ?thesis using opening_balance_only_on_create [of sample_ledger] a by auto
qed

end
