(* ===== verification/Parsing.thy ===== *)
theory Parsing
  imports Coercion
begin

text \<open>
  \<open>app/pipeline/parsing/__init__.py\<close>: from the bytes of an upload to a table of text cells.  The
  readers are parameters: \<open>decode\<close> is the detected encoding applied to the bytes, the byte order
  mark already dropped, \<open>read_csv\<close> and \<open>read_excel\<close> are the data frame library's, \<open>None\<close> where
  they raise.

  A table keeps its columns in order and its rows by position, as a data frame does: two columns may
  have the same label, and selecting such a label does not give a single column.
\<close>

section \<open>Tables\<close>

record frame =
  fr_cols :: "string list"
  fr_rows :: "cell list list"

definition frame_wf :: "frame \<Rightarrow> bool" where
  "frame_wf f \<longleftrightarrow> (\<forall>r\<in>set (fr_rows f). length r = length (fr_cols f))"

definition is_null :: "cell \<Rightarrow> bool" where
  "is_null c \<longleftrightarrow> c = CNA \<or> c = CNone"

text \<open>\<open>df[label].tolist()\<close>; a repeated label selects a table, which has no \<open>tolist\<close>.\<close>

definition column :: "frame \<Rightarrow> string \<Rightarrow> cell list res" where
  "column f c =
     (if length (filter (\<lambda>x. x = c) (fr_cols f)) = 1
      then Inr (map (\<lambda>r. case map_of (zip (fr_cols f) r) c of None \<Rightarrow> CNone | Some v \<Rightarrow> v) (fr_rows f))
      else Inl AttributeError)"

definition records :: "frame \<Rightarrow> row list" where
  \<comment> \<open>\<open>df.to_dict("records")\<close>: of two cells with the same label the last one stays\<close>
  "records f = map (\<lambda>r. map_of (rev (zip (fr_cols f) r))) (fr_rows f)"

section \<open>The kind of file\<close>

definition csv_exts :: "string list" where
  "csv_exts = [''.csv'', ''.tsv'', ''.txt'']"

definition excel_exts :: "string list" where
  "excel_exts = [''.xlsx'', ''.xlsm'', ''.xlsb'', ''.xls'', ''.ods'']"

definition zip_magic :: string where
  "zip_magic = ''PK'' @ map char_of [3 :: nat, 4]"

definition ole_magic :: string where
  "ole_magic = map char_of [208 :: nat, 207, 17, 224]"

definition looks_like_excel :: "string \<Rightarrow> string \<Rightarrow> bool" where
  "looks_like_excel content suffix \<longleftrightarrow>
     suffix \<in> set excel_exts \<or> take 4 content = zip_magic \<or> take 4 content = ole_magic"

fun split_on :: "char \<Rightarrow> string \<Rightarrow> string list" where
  \<comment> \<open>\<open>s.split(c)\<close>\<close>
  "split_on c [] = [[]]"
| "split_on c (x # xs) =
     (if x = c then [] # split_on c xs
      else case split_on c xs of [] \<Rightarrow> [[x]] | w # ws \<Rightarrow> (x # w) # ws)"

definition path_suffix :: "string \<Rightarrow> string" where
  \<comment> \<open>\<open>PurePath(filename).suffix\<close>: from the last dot of the last component, unless it begins or ends there\<close>
  "path_suffix fn =
     (let parts = filter (\<lambda>w. w \<noteq> '''' \<and> w \<noteq> ''.'') (split_on CHR ''/'' fn);
          name = (if parts = [] then '''' else last parts);
          ext = takeWhile (\<lambda>c. c \<noteq> CHR ''.'') (rev name)
      in if ext \<noteq> [] \<and> length ext + 1 < length name then CHR ''.'' # rev ext else '''')"

section \<open>The delimiter\<close>

definition candidate_delimiters :: "char list" where
  "candidate_delimiters = [CHR '','', CHR '';'', char_of (9 :: nat), CHR ''|'']"

definition is_newline :: "char \<Rightarrow> bool" where
  "is_newline c \<longleftrightarrow> ord c \<in> {10, 11, 12, 13, 28, 29, 30, 133 :: nat}"

text \<open>
  The first line with a character other than white space: \<open>splitlines\<close> may cut an empty line out of
  a carriage return and a line feed, which is never that line.
\<close>

fun lines_of :: "string \<Rightarrow> string list" where
  "lines_of [] = [[]]"
| "lines_of (c # cs) =
     (if is_newline c then [] # lines_of cs
      else case lines_of cs of [] \<Rightarrow> [[c]] | w # ws \<Rightarrow> (c # w) # ws)"

definition header_line :: "string \<Rightarrow> string" where
  "header_line text =
     (case filter (\<lambda>l. strip l \<noteq> '''') (lines_of text) of [] \<Rightarrow> '''' | l # _ \<Rightarrow> l)"

fun first_max :: "('a \<Rightarrow> nat) \<Rightarrow> 'a \<Rightarrow> 'a list \<Rightarrow> 'a" where
  \<comment> \<open>\<open>max(xs, key=f)\<close>: the first of the largest\<close>
  "first_max f b [] = b"
| "first_max f b (x # xs) = first_max f (if f b < f x then x else b) xs"

definition detect_delimiter :: "string \<Rightarrow> char" where
  "detect_delimiter text =
     (let header = header_line text; counts = (\<lambda>d. count_list header d);
          best = first_max counts (hd candidate_delimiters) (tl candidate_delimiters)
      in if 0 < counts best then best else CHR '','')"

section \<open>Reading and cleaning\<close>

definition csv_frame ::
    "(string \<Rightarrow> string option) \<Rightarrow> (char \<Rightarrow> string \<Rightarrow> frame option) \<Rightarrow> string \<Rightarrow> frame option" where
  "csv_frame decode read_csv content =
     (case decode content of None \<Rightarrow> None | Some text \<Rightarrow> read_csv (detect_delimiter text) text)"

definition kept_columns :: "frame \<Rightarrow> nat list" where
  "kept_columns f = filter (\<lambda>i. \<exists>r\<in>set (fr_rows f). \<not> is_null (r ! i)) [0..<length (fr_cols f)]"

definition clean :: "frame \<Rightarrow> frame \<times> string list" where
  "clean f =
     (let before = map strip (fr_cols f); keep = kept_columns f;
          cols = map (\<lambda>i. before ! i) keep;
          rows = filter (list_ex (\<lambda>c. \<not> is_null c)) (map (\<lambda>r. map (\<lambda>i. r ! i) keep) (fr_rows f));
          dropped = filter (\<lambda>c. c \<notin> set cols \<and> c \<noteq> '''' \<and> \<not> starts_with ''Unnamed:'' c) before
      in (\<lparr>fr_cols = cols, fr_rows = rows\<rparr>, dropped))"

text \<open>The result of the stage; the statistics other than the counts of rows and columns are named.\<close>

record parse_result =
  pr_data :: "frame option"
  pr_errors :: "envelope list"
  pr_excel :: bool
  pr_dropped :: "string list"

definition pr_ok :: "parse_result \<Rightarrow> bool" where
  "pr_ok r \<longleftrightarrow> pr_data r \<noteq> None"

definition parse_fail :: "error_code \<Rightarrow> parse_result" where
  "parse_fail code =
     \<lparr>pr_data = None,
      pr_errors = [\<lparr>e_code = code, e_severity = Sev_Error, e_stage = PARSE, e_entity = None, e_row = None,
                    e_column = None, e_target = None, e_suggestion = None\<rparr>],
      pr_excel = False, pr_dropped = []\<rparr>"

definition default_max_rows :: nat where
  "default_max_rows = 200000"

record readers =
  rd_decode :: "string \<Rightarrow> string option"
  rd_csv :: "char \<Rightarrow> string \<Rightarrow> frame option"
  rd_excel :: "string \<Rightarrow> frame option"

definition parse_file :: "readers \<Rightarrow> string \<Rightarrow> string \<Rightarrow> nat \<Rightarrow> parse_result" where
  "parse_file rd content filename max_rows =
     (if content = '''' then parse_fail EMPTY_FILE
      else let is_excel = looks_like_excel content (lower (path_suffix filename)) in
        case (if is_excel then rd_excel rd content else csv_frame (rd_decode rd) (rd_csv rd) content) of
          None \<Rightarrow> parse_fail PARSE_FAILED
        | Some raw \<Rightarrow>
            let (df, dropped) = clean raw in
            if fr_rows df = [] \<or> fr_cols df = [] then parse_fail EMPTY_FILE
            else if max_rows < length (fr_rows df) then parse_fail FILE_TOO_LARGE
            else \<lparr>pr_data = Some df, pr_errors = [], pr_excel = is_excel, pr_dropped = dropped\<rparr>)"

section \<open>Properties\<close>

lemma filter_kept:
  assumes "\<forall>i<length r. i \<notin> set keep \<longrightarrow> \<not> P (r ! i)" "keep = filter Q [0..<length r]"
  shows "filter P (map (\<lambda>i. r ! i) keep) = filter P r"
proof -
  have "filter P (map (\<lambda>i. r ! i) keep) = map (\<lambda>i. r ! i) (filter (\<lambda>i. P (r ! i)) keep)"
    by (simp add: filter_map comp_def)
  also have "filter (\<lambda>i. P (r ! i)) keep = filter (\<lambda>i. P (r ! i)) [0..<length r]"
    using assms by (auto intro!: filter_cong)
  also have "map (\<lambda>i. r ! i) (filter (\<lambda>i. P (r ! i)) [0..<length r]) = filter P (map (\<lambda>i. r ! i) [0..<length r])"
    by (simp add: filter_map comp_def)
  finally show ?thesis by (simp add: map_nth)
qed

lemma kept_columns_covers:
  "r \<in> set (fr_rows f) \<Longrightarrow> i < length (fr_cols f) \<Longrightarrow> i \<notin> set (kept_columns f) \<Longrightarrow> is_null (r ! i)"
  by (auto simp: kept_columns_def)

lemma clean_row:
  assumes "frame_wf f" "r \<in> set (fr_rows f)"
  shows "filter (\<lambda>c. \<not> is_null c) (map (\<lambda>i. r ! i) (kept_columns f)) = filter (\<lambda>c. \<not> is_null c) r"
proof (rule filter_kept)
  have "length r = length (fr_cols f)" using assms by (simp add: frame_wf_def)
  then show "\<forall>i<length r. i \<notin> set (kept_columns f) \<longrightarrow> \<not> \<not> is_null (r ! i)"
    "kept_columns f = filter (\<lambda>i. \<exists>r\<in>set (fr_rows f). \<not> is_null (r ! i)) [0..<length r]"
    using kept_columns_covers [OF assms(2)] by (simp_all add: kept_columns_def)
qed

definition cell_values :: "frame \<Rightarrow> cell list" where
  "cell_values f = concat (map (filter (\<lambda>c. \<not> is_null c)) (fr_rows f))"

lemma concat_map_filter_empty: "(\<And>x. x \<in> set xs \<Longrightarrow> \<not> P x \<Longrightarrow> f x = []) \<Longrightarrow> concat (map f (filter P xs)) = concat (map f xs)"
  by (induction xs) auto

lemma clean_values:
  assumes "frame_wf f" "clean f = (g, dropped)" shows "cell_values g = cell_values f"
proof -
  let ?N = "\<lambda>c. \<not> is_null c" and ?m = "\<lambda>r. map (\<lambda>i. r ! i) (kept_columns f)"
  have g: "fr_rows g = filter (list_ex ?N) (map ?m (fr_rows f))"
    using assms(2) by (auto simp: clean_def Let_def)
  have "concat (map (filter ?N) (fr_rows g)) = concat (map (filter ?N) (map ?m (fr_rows f)))"
    unfolding g by (rule concat_map_filter_empty) (simp add: list_ex_iff filter_empty_conv)
  also have "map (filter ?N) (map ?m (fr_rows f)) = map (filter ?N) (fr_rows f)"
    using clean_row [OF assms(1)] by simp
  finally show ?thesis by (simp add: cell_values_def)
qed

lemma clean_shape:
  assumes "frame_wf f" "clean f = (g, dropped)"
  shows "frame_wf g" "\<forall>r\<in>set (fr_rows g). \<exists>c\<in>set r. \<not> is_null c"
    "\<forall>i<length (fr_cols g). \<exists>r\<in>set (fr_rows g). \<not> is_null (r ! i)"
proof -
  let ?N = "\<lambda>c. \<not> is_null c" and ?m = "\<lambda>r. map (\<lambda>i. r ! i) (kept_columns f)"
  have g: "fr_rows g = filter (list_ex ?N) (map ?m (fr_rows f))" "length (fr_cols g) = length (kept_columns f)"
    using assms(2) by (auto simp: clean_def Let_def)
  show "frame_wf g" "\<forall>r\<in>set (fr_rows g). \<exists>c\<in>set r. \<not> is_null c"
    by (auto simp: frame_wf_def g list_ex_iff)
  show "\<forall>i<length (fr_cols g). \<exists>r\<in>set (fr_rows g). \<not> is_null (r ! i)"
  proof (intro allI impI)
    fix i assume i: "i < length (fr_cols g)"
    then have "kept_columns f ! i \<in> set (kept_columns f)" using g by simp
    then obtain r where r: "r \<in> set (fr_rows f)" "\<not> is_null (r ! (kept_columns f ! i))"
      unfolding kept_columns_def by auto
    then have v: "\<not> is_null (?m r ! i)" using i g by simp
    moreover have "list_ex ?N (?m r)"
      unfolding list_ex_iff using v i g nth_mem [of i "?m r"] by (intro bexI [of _ "?m r ! i"]) simp_all
    ultimately show "\<exists>r\<in>set (fr_rows g). \<not> is_null (r ! i)" using r(1) g by auto
  qed
qed

text \<open>
  A table is accepted only if it has rows and columns, none of them without a value, and at most
  the allowed number of rows, and reading it loses no value: the non-null cells are those the reader
  delivered, in the same order.  Otherwise the stage has one error and no table.
\<close>

theorem parse_file_keeps_values:
  assumes "\<And>d t f. rd_csv rd d t = Some f \<Longrightarrow> frame_wf f" "\<And>t f. rd_excel rd t = Some f \<Longrightarrow> frame_wf f"
  shows "case pr_data (parse_file rd content filename max_rows) of
      None \<Rightarrow> length (pr_errors (parse_file rd content filename max_rows)) = 1
    | Some g \<Rightarrow> pr_errors (parse_file rd content filename max_rows) = [] \<and>
        fr_rows g \<noteq> [] \<and> fr_cols g \<noteq> [] \<and> length (fr_rows g) \<le> max_rows \<and> frame_wf g \<and>
        (\<forall>r\<in>set (fr_rows g). \<exists>c\<in>set r. \<not> is_null c) \<and>
        (\<forall>i<length (fr_cols g). \<exists>r\<in>set (fr_rows g). \<not> is_null (r ! i)) \<and>
        (\<exists>raw. (rd_excel rd content = Some raw \<or> csv_frame (rd_decode rd) (rd_csv rd) content = Some raw) \<and>
           cell_values g = cell_values raw)"
proof (cases "pr_data (parse_file rd content filename max_rows)")
  case None
  then show ?thesis by (auto simp: parse_file_def parse_fail_def Let_def split: if_splits option.splits prod.splits)
next
  case (Some g)
  let ?x = "looks_like_excel content (lower (path_suffix filename))"
  from Some obtain raw dropped where
      raw: "(if ?x then rd_excel rd content else csv_frame (rd_decode rd) (rd_csv rd) content) = Some raw"
    and cl: "clean raw = (g, dropped)" and ne: "fr_rows g \<noteq> []" "fr_cols g \<noteq> []" "length (fr_rows g) \<le> max_rows"
    and pr: "pr_errors (parse_file rd content filename max_rows) = []"
    by (auto simp: parse_file_def parse_fail_def Let_def split: if_splits option.splits prod.splits)
  have wf: "frame_wf raw" using raw assms
    by (auto simp: csv_frame_def split: if_splits option.splits)
  show ?thesis
    using raw ne pr clean_values [OF wf cl] clean_shape [OF wf cl] Some by (auto split: if_splits)
qed

definition sample_readers :: readers where
  "sample_readers =
     \<lparr>rd_decode = Some,
      rd_csv = (\<lambda>d t. Some \<lparr>fr_cols = [''Name '', ''Notes'', ''Group''],
                            fr_rows = [[CStr ''Cash'', CNA, CStr ''Bank''], [CNA, CNA, CNA], [CNA, CNA, CStr ''x'']]\<rparr>),
      rd_excel = (\<lambda>t. None)\<rparr>"

theorem parse_file_keeps_values_witness:
  "fr_rows (the (pr_data (parse_file sample_readers ''Name ,Notes'' ''up.csv'' 10))) =
     [[CStr ''Cash'', CStr ''Bank''], [CNA, CStr ''x'']] \<and>
   pr_errors (parse_file sample_readers ''Name ,Notes'' ''up.csv'' 10) = []"
proof -
  have wf: "frame_wf f" if "rd_csv sample_readers d t = Some f" for d t f
    using that by (auto simp: sample_readers_def frame_wf_def)
  have x: "rd_excel sample_readers t = None" for t by (simp add: sample_readers_def)
  have d: "parse_file sample_readers ''Name ,Notes'' ''up.csv'' 10 =
     \<lparr>pr_data = Some \<lparr>fr_cols = [''Name'', ''Group''], fr_rows = [[CStr ''Cash'', CStr ''Bank''], [CNA, CStr ''x'']]\<rparr>,
      pr_errors = [], pr_excel = False, pr_dropped = [''Notes'']\<rparr>"
    by code_simp
  show ?thesis
    using parse_file_keeps_values [of sample_readers "''Name ,Notes''" "''up.csv''" 10] wf x by (simp add: d)
qed

end
