(* ===== verification/PyFloat.thy ===== *)
theory PyFloat
  imports PyDecimal
begin

text \<open>
  Python's \<open>float\<close>, as far as the scores and ratios of the profiling, mapping, resolution and
  template code use it: a finite number is the rational it stands for, and every operation is the
  exact operation followed by rounding to 53 significant bits, ties to even.  Overflow, subnormal
  numbers and the sign of zero do not arise: all numbers lie between \<open>0\<close> and \<open>100\<close>, and are
  quotients of counts or products of a handful of literals.
\<close>

section \<open>Rounding\<close>

definition half_even :: "rat \<Rightarrow> int" where
  "half_even x =
     (let n = \<lfloor>x\<rfloor>; d = x - of_int n in
      if d < 1 / 2 then n else if 1 / 2 < d then n + 1 else if even n then n else n + 1)"

fun bit_length :: "nat \<Rightarrow> nat" where
  "bit_length n = (if n = 0 then 0 else Suc (bit_length (n div 2)))"

declare bit_length.simps [simp del]

definition pow2 :: "int \<Rightarrow> rat" where
  "pow2 e = (if 0 \<le> e then 2 ^ nat e else 1 / 2 ^ nat (- e))"

text \<open>The exponent of the leading bit of a positive number.\<close>

definition lead_exp :: "rat \<Rightarrow> int" where
  "lead_exp x =
     (let (p, q) = quotient_of x; k = int (bit_length (nat p)) - int (bit_length (nat q))
      in if pow2 k \<le> x then k else k - 1)"

definition fl :: "rat \<Rightarrow> rat" where
  "fl x = (if x = 0 then 0
           else let u = pow2 (lead_exp \<bar>x\<bar> - 52) in of_int (half_even (x / u)) * u)"

section \<open>Operations\<close>

definition f_add :: "rat \<Rightarrow> rat \<Rightarrow> rat" where "f_add x y = fl (x + y)"

definition f_sub :: "rat \<Rightarrow> rat \<Rightarrow> rat" where "f_sub x y = fl (x - y)"

definition f_mul :: "rat \<Rightarrow> rat \<Rightarrow> rat" where "f_mul x y = fl (x * y)"

definition f_div :: "rat \<Rightarrow> rat \<Rightarrow> rat" where "f_div x y = fl (x / y)"

text \<open>The quotient of two counts.\<close>

definition ratio :: "nat \<Rightarrow> nat \<Rightarrow> rat" where
  "ratio k n = f_div (of_nat k) (of_nat n)"

text \<open>\<open>round(x, 4)\<close>: the exact value is rounded, ties to even, and read back as a float.\<close>

definition round4 :: "rat \<Rightarrow> rat" where
  "round4 x = fl (of_int (half_even (x * 10000)) / 10000)"

section \<open>Facts\<close>

lemma pow2_pos [simp]: "0 < pow2 e"
  by (simp add: pow2_def)

lemma pow2_add: "pow2 (a + b) = pow2 a * pow2 b"
proof -
  have *: "pow2 (e + 1) = 2 * pow2 e" for e
  proof (cases "0 \<le> e")
    case True
    then show ?thesis by (simp add: pow2_def nat_add_distrib)
  next
    case False
    then have "nat (- e) = Suc (nat (- (e + 1)))" by simp
    then show ?thesis using False by (simp add: pow2_def)
  qed
  have up: "pow2 (c + int n) = pow2 c * 2 ^ n" for c n
  proof (induction n)
    case (Suc n)
    have "pow2 (c + int (Suc n)) = pow2 ((c + int n) + 1)" by (simp add: algebra_simps)
    also have "\<dots> = 2 * pow2 (c + int n)" by (rule *)
    finally show ?case by (simp add: Suc)
  qed simp
  show ?thesis
  proof (cases "0 \<le> b")
    case True
    then show ?thesis using up [of a "nat b"] by (simp add: pow2_def)
  next
    case False
    then have "pow2 a = pow2 (a + b) * 2 ^ nat (- b)" using up [of "a + b" "nat (- b)"] by simp
    then show ?thesis using False by (simp add: pow2_def)
  qed
qed

lemma pow2_Suc: "pow2 (e + 1) = 2 * pow2 e"
  by (simp add: pow2_add) (simp add: pow2_def)

lemma pow2_mono: "a \<le> b \<Longrightarrow> pow2 a \<le> pow2 b"
proof -
  assume "a \<le> b"
  then have "pow2 b = pow2 a * 2 ^ nat (b - a)"
    using pow2_add [of a "b - a"] by (simp add: pow2_def)
  then show ?thesis using mult_left_mono [of 1 "2 ^ nat (b - a)" "pow2 a"] pow2_pos [of a] by simp
qed

lemma half_even_int [simp]: "half_even (of_int n) = n"
  by (simp add: half_even_def)

lemma half_even_mono: "x \<le> y \<Longrightarrow> half_even x \<le> half_even y"
proof -
  assume le: "x \<le> y"
  show ?thesis
  proof (cases "\<lfloor>x\<rfloor> = \<lfloor>y\<rfloor>")
    case True
    then show ?thesis using le by (auto simp: half_even_def Let_def)
  next
    case False
    then have "\<lfloor>x\<rfloor> + 1 \<le> \<lfloor>y\<rfloor>" using floor_mono [OF le] by linarith
    then show ?thesis by (auto simp: half_even_def Let_def)
  qed
qed

lemma half_even_near: "\<bar>of_int (half_even x) - x\<bar> \<le> 1 / 2"
proof -
  have "of_int \<lfloor>x\<rfloor> \<le> x" "x < of_int \<lfloor>x\<rfloor> + 1" by linarith+
  then show ?thesis unfolding half_even_def Let_def by (auto simp: abs_le_iff)
qed

lemma bit_length_bounds: "0 < n \<Longrightarrow> 2 ^ (bit_length n - 1) \<le> n \<and> n < 2 ^ bit_length n \<and> 0 < bit_length n"
proof (induction n rule: bit_length.induct)
  case (1 n)
  show ?case
  proof (cases "n div 2 = 0")
    case True
    then have "n = 1" using 1 by linarith
    then show ?thesis by (simp add: bit_length.simps)
  next
    case False
    then have ih: "2 ^ (bit_length (n div 2) - 1) \<le> n div 2" "n div 2 < 2 ^ bit_length (n div 2)"
      "0 < bit_length (n div 2)" using 1 by auto
    have "bit_length n = Suc (bit_length (n div 2))" using 1 by (subst bit_length.simps) simp
    moreover obtain k where "bit_length (n div 2) = Suc k" using ih(3) by (cases "bit_length (n div 2)") auto
    ultimately show ?thesis using ih(1,2) by auto
  qed
qed

text \<open>The leading bit: a positive number lies in the binade of its exponent.\<close>

lemma lead_exp_bounds:
  assumes "0 < x"
  shows "pow2 (lead_exp x) \<le> x \<and> x < pow2 (lead_exp x + 1)"
proof -
  obtain p q where pq: "quotient_of x = (p, q)" by fastforce
  have q: "0 < q" using quotient_of_denom_pos [OF pq] .
  have x: "x = of_int p / of_int q" using quotient_of_div [OF pq] .
  then have p: "0 < p" using assms q by (simp add: zero_less_divide_iff)
  let ?a = "bit_length (nat p)" and ?b = "bit_length (nat q)"
  have A: "2 ^ (?a - 1) \<le> nat p" "nat p < 2 ^ ?a" "0 < ?a"
    and B: "2 ^ (?b - 1) \<le> nat q" "nat q < 2 ^ ?b" "0 < ?b"
    using bit_length_bounds [of "nat p"] bit_length_bounds [of "nat q"] p q by auto
  have pp: "pow2 (int n) = 2 ^ n" for n by (simp add: pow2_def)
  have R: "(2::rat) ^ (?a - 1) \<le> of_int p" "of_int p < (2::rat) ^ ?a"
     "(2::rat) ^ (?b - 1) \<le> of_int q" "of_int q < (2::rat) ^ ?b"
    using A B p q by (metis of_nat_le_iff of_nat_numeral of_nat_power of_nat_nat less_imp_le,
      metis of_nat_less_iff of_nat_numeral of_nat_power of_nat_nat less_imp_le,
      metis of_nat_le_iff of_nat_numeral of_nat_power of_nat_nat less_imp_le,
      metis of_nat_less_iff of_nat_numeral of_nat_power of_nat_nat less_imp_le)
  let ?k = "int ?a - int ?b"
  have 1: "pow2 ?k * pow2 (int ?b) = pow2 (int ?a)"
    by (simp flip: pow2_add)
  have 2: "2 * pow2 (int (?a - 1)) = pow2 (int ?a)" "2 * pow2 (int (?b - 1)) = pow2 (int ?b)"
    using pow2_Suc [of "int (?a - 1)"] pow2_Suc [of "int (?b - 1)"] A(3) B(3) by (simp_all add: of_nat_diff)
  have hi: "x < pow2 (?k + 1)"
  proof -
    have "of_int p < pow2 (int ?a)" using R(2) by (simp add: pp)
    also have "\<dots> = pow2 ?k * (2 * pow2 (int (?b - 1)))" by (simp only: 2 1)
    also have "\<dots> \<le> pow2 ?k * (2 * of_int q)" using R(3) by (simp add: pp)
    finally show ?thesis using q unfolding x pow2_Suc by (simp add: field_simps)
  qed
  have lo: "pow2 (?k - 1) \<le> x"
  proof -
    have "2 * pow2 (?k - 1) = pow2 ?k" using pow2_Suc [of "?k - 1"] by simp
    then have "2 * (pow2 (?k - 1) * of_int q) = pow2 ?k * of_int q" by simp
    also have "\<dots> \<le> pow2 ?k * pow2 (int ?b)" using R(4) by (simp add: pp)
    also have "\<dots> = 2 * pow2 (int (?a - 1))" by (simp only: 1 2)
    also have "\<dots> \<le> 2 * of_int p" using R(1) by (simp add: pp)
    finally show ?thesis using q by (simp add: x field_simps)
  qed
  show ?thesis using hi lo by (auto simp: lead_exp_def pq Let_def)
qed

lemma lead_exp_mono: "0 < x \<Longrightarrow> x \<le> y \<Longrightarrow> lead_exp x \<le> lead_exp y"
proof (rule ccontr)
  assume "0 < x" "x \<le> y" "\<not> lead_exp x \<le> lead_exp y"
  then have "pow2 (lead_exp y + 1) \<le> pow2 (lead_exp x)" by (intro pow2_mono) simp
  also have "\<dots> \<le> y" using lead_exp_bounds [of x] \<open>0 < x\<close> \<open>x \<le> y\<close> by simp
  finally show False using lead_exp_bounds [of y] \<open>0 < x\<close> \<open>x \<le> y\<close> by simp
qed

lemma fl_nonneg: "0 \<le> x \<Longrightarrow> 0 \<le> fl x"
proof -
  assume "0 \<le> x"
  then have "half_even 0 \<le> half_even (x / pow2 (lead_exp \<bar>x\<bar> - 52))"
    by (intro half_even_mono) (simp add: less_imp_le)
  then have "0 \<le> half_even (x / pow2 (lead_exp \<bar>x\<bar> - 52))"
    using half_even_int [of 0] by simp
  then show ?thesis by (simp add: fl_def Let_def less_imp_le)
qed

text \<open>Rounding keeps the order, also across binades.\<close>

lemma fl_mono:
  assumes "0 \<le> x" "x \<le> y" shows "fl x \<le> fl y"
proof (cases "x = 0")
  case True
  then show ?thesis using fl_nonneg [of y] assms by (simp add: fl_def)
next
  case False
  then have x: "0 < x" and y: "0 < y" using assms by auto
  let ?e = "lead_exp x" and ?f = "lead_exp y"
  have f: "fl x = of_int (half_even (x / pow2 (?e - 52))) * pow2 (?e - 52)"
    "fl y = of_int (half_even (y / pow2 (?f - 52))) * pow2 (?f - 52)"
    using x y by (simp_all add: fl_def Let_def)
  show ?thesis
  proof (cases "?e = ?f")
    case True
    have "x / pow2 (?e - 52) \<le> y / pow2 (?e - 52)" using assms by (simp add: divide_right_mono less_imp_le)
    from half_even_mono [OF this] show ?thesis
      using f True by (simp add: mult_right_mono less_imp_le)
  next
    case False
    then have ef: "?e + 1 \<le> ?f" using lead_exp_mono [OF x assms(2)] by simp
    have w: "of_int (2 ^ 53) * pow2 (?e - 52) = pow2 (?e + 1)" "of_int (2 ^ 52) * pow2 (?f - 52) = pow2 ?f"
      using pow2_add [of 53 "?e - 52"] pow2_add [of 52 "?f - 52"] by (simp_all add: pow2_def [of 53] pow2_def [of 52] add.commute)
    have "x \<le> of_int (2 ^ 53) * pow2 (?e - 52)"
      unfolding w using lead_exp_bounds [OF x] by simp
    then have "x / pow2 (?e - 52) \<le> of_int (2 ^ 53)" by (simp add: divide_le_eq)
    from half_even_mono [OF this] have 1: "half_even (x / pow2 (?e - 52)) \<le> 2 ^ 53" by (metis half_even_int)
    have "of_int (2 ^ 52) * pow2 (?f - 52) \<le> y"
      unfolding w using lead_exp_bounds [OF y] by simp
    then have "of_int (2 ^ 52) \<le> y / pow2 (?f - 52)" by (simp add: le_divide_eq)
    from half_even_mono [OF this] have 2: "2 ^ 52 \<le> half_even (y / pow2 (?f - 52))" by (metis half_even_int)
    have "fl x \<le> of_int (2 ^ 53) * pow2 (?e - 52)"
      unfolding f using 1 by (intro mult_right_mono) (simp_all only: of_int_le_iff, simp add: less_imp_le)
    also have "\<dots> = pow2 (?e + 1)" by (rule w)
    also have "\<dots> \<le> pow2 ?f" using ef by (rule pow2_mono)
    also have "\<dots> = of_int (2 ^ 52) * pow2 (?f - 52)" by (rule w [symmetric])
    also have "\<dots> \<le> fl y"
      unfolding f using 2 by (intro mult_right_mono) (simp_all only: of_int_le_iff, simp add: less_imp_le)
    finally show ?thesis .
  qed
qed

text \<open>The value of a rounding, from its binade and its significand.\<close>

lemma half_even_eqI:
  assumes "\<bar>x - of_int n\<bar> < 1 / 2 \<or> \<bar>x - of_int n\<bar> = 1 / 2 \<and> even n"
  shows "half_even x = n"
proof -
  consider "of_int n \<le> x" | "x < of_int n" by linarith
  then show ?thesis
  proof cases
    case 1
    then have "\<lfloor>x\<rfloor> = n" using assms by (intro floor_unique) linarith+
    then show ?thesis using assms 1 by (auto simp: half_even_def Let_def abs_if split: if_splits)
  next
    case 2
    then have "\<lfloor>x\<rfloor> = n - 1" using assms by (intro floor_unique) (auto simp: abs_if split: if_splits)
    then show ?thesis using assms 2 by (auto simp: half_even_def Let_def abs_if split: if_splits)
  qed
qed

lemma lead_exp_unique:
  assumes "pow2 e \<le> x" "x < pow2 (e + 1)" shows "lead_exp x = e"
proof -
  have x: "0 < x" using assms(1) pow2_pos [of e] by (rule less_le_trans [rotated])
  note b = lead_exp_bounds [OF x]
  have "\<not> e + 1 \<le> lead_exp x" using pow2_mono [of "e + 1" "lead_exp x"] b assms by linarith
  moreover have "\<not> lead_exp x + 1 \<le> e" using pow2_mono [of "lead_exp x + 1" e] b assms by linarith
  ultimately show ?thesis by linarith
qed

lemma fl_eqI:
  assumes "pow2 e \<le> x" "x < pow2 (e + 1)"
    and "\<bar>x / pow2 (e - 52) - of_int m\<bar> < 1 / 2 \<or> \<bar>x / pow2 (e - 52) - of_int m\<bar> = 1 / 2 \<and> even m"
  shows "fl x = of_int m * pow2 (e - 52)"
proof -
  have "0 < x" using assms(1) pow2_pos [of e] by (rule less_le_trans [rotated])
  then show ?thesis using lead_exp_unique [OF assms(1,2)] half_even_eqI [OF assms(3)] by (simp add: fl_def Let_def)
qed

lemma fl_one [simp]: "fl 1 = 1"
  by code_simp

end
