(* ===== verification/Profiling.thy ===== *)
theory Profiling
  imports Parsing PyFloat
begin

text \<open>
  \<open>app/pipeline/profiling/__init__.py\<close>: per column a type, the share of blank cells, the number of
  different values, up to three samples and whether the column could be a key.
\<close>

section \<open>Definitions\<close>

definition boolish :: "string list" where
  "boolish = [''yes'', ''no'', ''true'', ''false'', ''1'', ''0'', ''y'', ''n'']"

datatype inferred_type = Numeric | Boolean | Text | Empty

record column_profile =
  cp_name :: string
  cp_type :: inferred_type
  cp_count :: nat
  cp_null_pct :: rat
  cp_distinct :: nat
  cp_distinct_pct :: rat
  cp_samples :: "string list"
  cp_key :: bool

record profile_signals =
  ps_rows :: nat
  ps_columns :: nat
  ps_profiles :: "column_profile list"

definition by_label :: "profile_signals \<Rightarrow> string \<Rightarrow> column_profile option" where
  "by_label s name = find (\<lambda>c. cp_name c = name) (ps_profiles s)"

text \<open>A cell that is no text is taken as the text Python prints for it.\<close>

definition is_number :: "string \<Rightarrow> bool" where
  "is_number v \<longleftrightarrow> dec_of_string (strip (filter (\<lambda>c. c \<noteq> CHR '','') v)) \<noteq> None"

definition non_blank :: "cell list \<Rightarrow> string list" where
  "non_blank cs = filter (\<lambda>s. strip s \<noteq> '''') (map py_str (filter (\<lambda>c. \<not> is_null c) cs))"

fun samples_of :: "nat \<Rightarrow> string list \<Rightarrow> string list \<Rightarrow> string list" where
  \<comment> \<open>the loop over the values, with the room left and the keys seen\<close>
  "samples_of room seen [] = []"
| "samples_of room seen (v # vs) =
     (let key = norm_name v; new = key \<notin> set seen; room' = (if new then room - 1 else room)
      in (if new then [v] else []) @ (if room' = 0 then [] else samples_of room' (if new then key # seen else seen) vs))"

definition count_if :: "('a \<Rightarrow> bool) \<Rightarrow> 'a list \<Rightarrow> nat" where
  "count_if P xs = length (filter P xs)"

definition infer_type :: "string list \<Rightarrow> inferred_type" where
  "infer_type values =
     (let n = length values in
      if fl (8 / 10) \<le> ratio (count_if (\<lambda>v. norm_name v \<in> set boolish) values) n then Boolean
      else if fl (8 / 10) \<le> ratio (count_if is_number values) n then Numeric
      else Text)"

definition profile_column :: "string \<Rightarrow> cell list \<Rightarrow> nat \<Rightarrow> column_profile" where
  "profile_column name cells tot =
     (let values = non_blank cells; n = length values in
      if n = 0 then
        \<lparr>cp_name = name, cp_type = Empty, cp_count = 0, cp_null_pct = 1, cp_distinct = 0,
         cp_distinct_pct = 0, cp_samples = [], cp_key = False\<rparr>
      else
        let distinct = length (dedup (map norm_name values));
            null_pct = (if tot \<noteq> 0 then f_sub 1 (ratio n tot) else 0);
            distinct_pct = ratio distinct n
        in \<lparr>cp_name = name, cp_type = infer_type values, cp_count = n, cp_null_pct = round4 null_pct,
            cp_distinct = distinct, cp_distinct_pct = round4 distinct_pct,
            cp_samples = samples_of 3 [] values,
            cp_key = (fl (99 / 100) \<le> distinct_pct \<and> null_pct \<le> fl (1 / 100))\<rparr>)"

fun map_res :: "('a \<Rightarrow> 'b res) \<Rightarrow> 'a list \<Rightarrow> 'b list res" where
  "map_res f [] = Inr []"
| "map_res f (x # xs) = rbind (f x) (\<lambda>y. rbind (map_res f xs) (\<lambda>ys. Inr (y # ys)))"

definition profile :: "frame \<Rightarrow> profile_signals res" where
  "profile f =
     (let tot = length (fr_rows f) in
      rbind (map_res (\<lambda>c. rbind (column f c) (\<lambda>cells. Inr (profile_column c cells tot))) (fr_cols f))
        (\<lambda>ps. Inr \<lparr>ps_rows = tot, ps_columns = length (fr_cols f), ps_profiles = ps\<rparr>))"

section \<open>Facts\<close>

lemma map_res_Inr: "map_res f xs = Inr ys \<longleftrightarrow> list_all2 (\<lambda>x y. f x = Inr y) xs ys"
  by (induction xs arbitrary: ys) (auto simp: rbind_Inr list_all2_Cons1)

lemma map_res_Inl: "map_res f xs = Inl e \<Longrightarrow> \<exists>x\<in>set xs. f x = Inl e"
  by (induction xs) (auto simp: rbind_def split: sum.splits)

lemma length_dedup_le: "length (dedup xs) \<le> length xs"
  by (metis card_length distinct_card distinct_dedup set_dedup)

lemma samples_of_sound:
  "set (samples_of room seen vs) \<subseteq> set vs \<and> distinct (map norm_name (samples_of room seen vs)) \<and>
   norm_name ` set (samples_of room seen vs) \<inter> set seen = {}"
proof (induction room seen vs rule: samples_of.induct)
  case (2 room seen v vs)
  show ?case
  proof (cases "norm_name v \<in> set seen")
    case True
    then show ?thesis using 2 [OF refl refl refl] by (auto simp: Let_def)
  next
    case False
    then show ?thesis using 2 [OF refl refl refl] by (auto simp: Let_def)
  qed
qed simp

lemma samples_of_length:
  "0 < room \<Longrightarrow> length (samples_of room seen vs) = min room (card (norm_name ` set vs - set seen))"
proof (induction room seen vs rule: samples_of.induct)
  case (2 room seen v vs)
  let ?S = "norm_name ` set vs - set seen" and ?k = "norm_name v"
  show ?case
  proof (cases "?k \<in> set seen")
    case True
    then have "norm_name ` set (v # vs) - set seen = ?S" by auto
    then show ?thesis using "2.IH" [OF refl refl refl] True by (simp add: Let_def)
  next
    case False
    have c: "card (norm_name ` set (v # vs) - set seen) = Suc (card (norm_name ` set vs - set (?k # seen)))"
    proof -
      have "norm_name ` set (v # vs) - set seen = insert ?k (norm_name ` set vs - set (?k # seen))"
        using False by auto
      then show ?thesis by simp
    qed
    show ?thesis
    proof (cases "room - 1 = 0")
      case True
      then have "room = 1" using "2.prems" by simp
      then show ?thesis using c False by (simp add: Let_def)
    next
      case nz: False
      then show ?thesis using "2.IH" [OF refl refl refl] False c by (simp add: Let_def)
    qed
  qed
qed simp

lemma count_label: "length (filter (\<lambda>x. x = c) xs) = count_list xs c"
  by (induction xs) auto

lemma distinct_count_one: "distinct xs \<longleftrightarrow> (\<forall>c\<in>set xs. count_list xs c = 1)"
proof (induction xs)
  case (Cons x xs)
  have "x \<in> set xs \<Longrightarrow> count_list xs x \<noteq> 0" by (simp add: count_list_0_iff)
  then show ?case using Cons by (auto simp: count_list_0_iff)
qed simp

lemma column_ok: "(\<exists>cs. column f c = Inr cs) \<longleftrightarrow> count_list (fr_cols f) c = 1"
  "column f c = Inl e \<Longrightarrow> e = AttributeError"
  by (auto simp: column_def count_label split: if_splits)

lemma map_res_total: "(\<And>x. x \<in> set xs \<Longrightarrow> \<exists>y. f x = Inr y) \<Longrightarrow> \<exists>ys. map_res f xs = Inr ys"
  by (induction xs) (auto simp: rbind_Inr)

section \<open>Properties\<close>

text \<open>
  Profiling a table raises exactly when two columns have the same label, and then it raises
  \<open>AttributeError\<close>: a table with a repeated header never gets past this stage.
\<close>

theorem profile_raises_iff_repeated_label:
  "(\<not> distinct (fr_cols f) \<longleftrightarrow> profile f = Inl AttributeError) \<and>
   (distinct (fr_cols f) \<longleftrightarrow> (\<exists>s. profile f = Inr s))"
proof -
  let ?g = "\<lambda>c. rbind (column f c) (\<lambda>cells. Inr (profile_column c cells (length (fr_rows f))))"
  have ok: "\<exists>s. profile f = Inr s" if "distinct (fr_cols f)"
  proof -
    have "\<exists>y. ?g c = Inr y" if "c \<in> set (fr_cols f)" for c
      using that \<open>distinct (fr_cols f)\<close> column_ok(1) [of f c] distinct_count_one [of "fr_cols f"]
      by (auto simp: rbind_Inr)
    from map_res_total [of "fr_cols f" ?g, OF this] show ?thesis by (auto simp: profile_def Let_def)
  qed
  have bad: "profile f = Inl AttributeError" if nd: "\<not> distinct (fr_cols f)"
  proof (cases "map_res ?g (fr_cols f)")
    case (Inl e)
    then obtain c where "?g c = Inl e" using map_res_Inl by blast
    then have "e = AttributeError" using column_ok(2) [of f c] by (cases "column f c") auto
    then show ?thesis using Inl by (simp add: profile_def Let_def)
  next
    case (Inr ps)
    then have "\<forall>c\<in>set (fr_cols f). \<exists>cs. column f c = Inr cs"
      by (fastforce simp: map_res_Inr list_all2_conv_all_nth rbind_Inr in_set_conv_nth)
    then show ?thesis using nd column_ok(1) distinct_count_one by blast
  qed
  show ?thesis using ok bad by (metis sum.distinct(1))
qed

text \<open>
  The profile describes the columns in order; of each it counts the values that are not blank and
  the different ones among them up to case and spacing, and gives as samples the first of them that
  differ, three if there are as many.  A column without a blank or a repeated value is a candidate key.
\<close>

theorem profile_counts:
  assumes "profile f = Inr s" "i < length (fr_cols f)" "column f (fr_cols f ! i) = Inr cells"
    and "values = non_blank cells" "p = ps_profiles s ! i"
  shows "length (ps_profiles s) = length (fr_cols f) \<and> cp_name p = fr_cols f ! i \<and>
    cp_count p = length values \<and> cp_distinct p = card (norm_name ` set values) \<and>
    length (cp_samples p) = min 3 (cp_distinct p) \<and> distinct (map norm_name (cp_samples p)) \<and>
    set (cp_samples p) \<subseteq> set values \<and>
    (values \<noteq> [] \<longrightarrow> length values = length (fr_rows f) \<longrightarrow> distinct (map norm_name values) \<longrightarrow> cp_key p)"
proof -
  let ?tot = "length (fr_rows f)"
  from assms(1) have l: "list_all2 (\<lambda>c q. rbind (column f c) (\<lambda>cells. Inr (profile_column c cells ?tot)) = Inr q)
      (fr_cols f) (ps_profiles s)"
    by (auto simp: profile_def Let_def rbind_Inr map_res_Inr)
  then have len: "length (ps_profiles s) = length (fr_cols f)" by (simp add: list_all2_lengthD)
  have p: "p = profile_column (fr_cols f ! i) cells ?tot"
    using list_all2_nthD [OF l assms(2)] assms(3,5) by simp
  have d: "length (dedup (map norm_name values)) = card (norm_name ` set values)"
    by (metis distinct_card distinct_dedup list.set_map set_dedup)
  show ?thesis
  proof (cases "values = []")
    case True
    then show ?thesis using assms(4) len by (simp add: p profile_column_def)
  next
    case False
    have key: "fl (99 / 100) \<le> 1" "0 \<le> fl (1 / 100)" by code_simp+
    have "ratio n n = 1" if "n \<noteq> 0" for n using that by (simp add: ratio_def f_div_def)
    moreover have "f_sub 1 1 = 0" by (simp add: f_sub_def fl_def)
    moreover have "card (norm_name ` set values) = length values" if "distinct (map norm_name values)"
      using distinct_card [OF that] by simp
    ultimately show ?thesis
      using False assms(4) len d key samples_of_sound [of 3 Nil "values"] samples_of_length [of 3 Nil "values"]
      by (auto simp: p profile_column_def Let_def)
  qed
qed

theorem profile_counts_witness:
  "cp_distinct (profile_column ''Name'' [CStr ''Cash'', CNA, CStr '' cash '', CStr ''Bank''] 4) = 2"
proof -
  let ?f = "\<lparr>fr_cols = [''Name''], fr_rows = [[CStr ''Cash''], [CNA], [CStr '' cash ''], [CStr ''Bank'']]\<rparr>"
  let ?cs = "[CStr ''Cash'', CNA, CStr '' cash '', CStr ''Bank'']"
  have c: "column ?f ''Name'' = Inr ?cs" by code_simp
  then have s: "profile ?f = Inr \<lparr>ps_rows = 4, ps_columns = 1, ps_profiles = [profile_column ''Name'' ?cs 4]\<rparr>"
    by (simp add: profile_def eval_nat_numeral)
  have "non_blank ?cs = [''Cash'', '' cash '', ''Bank'']" by code_simp
  moreover have "norm_name ''Cash'' = ''cash''" "norm_name '' cash '' = ''cash''" "norm_name ''Bank'' = ''bank''"
    by code_simp+
  ultimately show ?thesis using profile_counts [OF s _ _ refl refl, of 0 ?cs] c by simp
qed

end
