(* ===== verification/Resolution.thy ===== *)
theory Resolution
  imports Coercion PyFloat
begin

text \<open>
  \<open>app/pipeline/resolution/__init__.py\<close>: whether an incoming master is created, updated or held back
  as a conflict, given the masters that exist.  The phonetic code and the Jaro-Winkler similarity
  are those of the string libraries, and the order in which a set of indices is walked is the
  interpreter's: they are fields of \<open>matcher\<close>.  The rows of both lists are dictionaries; the row
  number of an incoming row is kept beside it.
\<close>

section \<open>Definitions\<close>

record matcher =
  mt_metaphone :: "string \<Rightarrow> string"
  mt_jaro :: "string \<Rightarrow> string \<Rightarrow> rat"
  mt_order :: "nat list \<Rightarrow> nat list"

definition match_threshold :: rat where "match_threshold = fl (95 / 100)"

definition conflict_threshold :: rat where "conflict_threshold = fl (85 / 100)"

definition name_similarity_conflict :: rat where "name_similarity_conflict = fl (90 / 100)"

definition ambiguous_gap :: rat where "ambiguous_gap = fl (5 / 100)"

definition w_exact :: rat where "w_exact = fl (60 / 100)"

definition w_jw :: rat where "w_jw = fl (30 / 100)"

definition w_parent :: rat where "w_parent = fl (10 / 100)"

datatype decision = Create | Update | Conflict

record candidate =
  cd_name :: string
  cd_parent :: "string option"
  cd_guid :: "string option"
  cd_score :: rat

record verdict =
  vd_row :: "nat option"
  vd_name :: string
  vd_decision :: decision
  vd_action :: "tally_action option"
  vd_matched_name :: "string option"
  vd_matched_guid :: "string option"
  vd_score :: rat
  vd_candidates :: "candidate list"

definition norm_cell :: "cell \<Rightarrow> string" where
  "norm_cell c = (if c = CNone then '''' else norm_name (py_str c))"

definition opt_cell :: "cell \<Rightarrow> string option" where
  "opt_cell c = (if c = CNone then None else Some (py_str c))"

fun cell_truthy :: "cell \<Rightarrow> bool" where
  "cell_truthy CNone \<longleftrightarrow> False"
| "cell_truthy CNA \<longleftrightarrow> True"
| "cell_truthy (CStr s) \<longleftrightarrow> s \<noteq> ''''"
| "cell_truthy (CNum s) \<longleftrightarrow> (case dec_of_string s of Some d \<Rightarrow> dec_truthy d | None \<Rightarrow> True)"
| "cell_truthy (CDate d s) \<longleftrightarrow> True"

definition text_or_empty :: "cell \<Rightarrow> string" where
  \<comment> \<open>\<open>str(value or "")\<close>\<close>
  "text_or_empty c = (if cell_truthy c then py_str c else '''')"

definition block_keys :: "matcher \<Rightarrow> string \<Rightarrow> string list" where
  "block_keys mt s =
     (if s = '''' then []
      else (''p:'' @ take 4 s) # (if mt_metaphone mt s = '''' then [] else [''m:'' @ mt_metaphone mt s]))"

definition exact_index :: "string list \<Rightarrow> string \<Rightarrow> nat option" where
  "exact_index names s = find (\<lambda>i. names ! i = s) [0..<length names]"

definition block :: "matcher \<Rightarrow> string list \<Rightarrow> string \<Rightarrow> nat list" where
  "block mt names key = filter (\<lambda>i. key \<in> set (block_keys mt (names ! i))) [0..<length names]"

definition candidate_ids :: "matcher \<Rightarrow> string list \<Rightarrow> string \<Rightarrow> nat list" where
  "candidate_ids mt names s =
     dedup ((case exact_index names s of None \<Rightarrow> [] | Some i \<Rightarrow> [i]) @ concat (map (block mt names) (block_keys mt s)))"

type_synonym scored = "rat \<times> rat \<times> row"

definition score_one :: "matcher \<Rightarrow> string \<Rightarrow> string \<Rightarrow> row \<Rightarrow> string \<Rightarrow> scored" where
  "score_one mt name_norm parent_norm ex other_norm =
     (let name_exact = (if other_norm = name_norm \<and> name_norm \<noteq> '''' then 1 else 0);
          name_jw = (if name_norm \<noteq> '''' \<and> other_norm \<noteq> '''' then mt_jaro mt name_norm other_norm else 0);
          parent_exact = (if parent_norm \<noteq> '''' \<and> parent_norm = norm_cell (rget ex ''parent'') then 1 else 0)
      in (f_add (f_add (f_mul w_exact name_exact) (f_mul w_jw name_jw)) (f_mul w_parent parent_exact), name_jw, ex))"

definition decide :: "nat option \<Rightarrow> string \<Rightarrow> string \<Rightarrow> scored list \<Rightarrow> verdict" where
  "decide src name name_norm scored =
     (case scored of
        [] \<Rightarrow> \<lparr>vd_row = src, vd_name = name, vd_decision = Create, vd_action = Some CREATE, vd_matched_name = None,
               vd_matched_guid = None, vd_score = 0, vd_candidates = []\<rparr>
      | (best_score, best_jw, best) # rest \<Rightarrow>
          let cands = map (\<lambda>(s, _, e). \<lparr>cd_name = py_str (rget e ''name''), cd_parent = opt_cell (rget e ''parent''),
                                         cd_guid = opt_cell (rget e ''guid''), cd_score = round4 s\<rparr>) (take 3 scored);
              name_exact = (name_norm = norm_cell (rget best ''name'') \<and> name_norm \<noteq> '''');
              ambiguous = (case rest of [] \<Rightarrow> False
                           | (second, _) # _ \<Rightarrow> conflict_threshold \<le> second \<and> f_sub best_score second < ambiguous_gap);
              base = (\<lambda>d a. \<lparr>vd_row = src, vd_name = name, vd_decision = d, vd_action = a,
                        vd_matched_name = Some (py_str (rget best ''name'')),
                        vd_matched_guid = opt_cell (rget best ''guid''), vd_score = round4 best_score,
                        vd_candidates = cands\<rparr>)
          in if (name_exact \<or> match_threshold \<le> best_score) \<and> \<not> ambiguous then base Update (Some ALTER)
             else if ambiguous \<or> conflict_threshold \<le> best_score \<or> name_similarity_conflict \<le> best_jw
             then base Conflict None
             else base Create (Some CREATE))"

definition ranked :: "matcher \<Rightarrow> row list \<Rightarrow> row \<Rightarrow> scored list" where
  \<comment> \<open>the candidates of one incoming row, best first; the sort is stable, also in reverse\<close>
  "ranked mt existing r =
     (let names = map (\<lambda>e. norm_cell (rget e ''name'')) existing;
          name_norm = norm_name (text_or_empty (rget r ''name''));
          parent_norm = norm_cell (rget r ''parent'')
      in sort_key (\<lambda>t. - fst t)
           (map (\<lambda>i. score_one mt name_norm parent_norm (existing ! i) (names ! i))
             (mt_order mt (candidate_ids mt names name_norm))))"

definition resolve :: "matcher \<Rightarrow> (nat option \<times> row) list \<Rightarrow> row list \<Rightarrow> verdict list" where
  "resolve mt incoming existing =
     map (\<lambda>(src, r). let name = text_or_empty (rget r ''name'') in
            decide src name (norm_name name) (ranked mt existing r)) incoming"

section \<open>Facts\<close>

definition walks_sets :: "matcher \<Rightarrow> bool" where
  "walks_sets mt \<longleftrightarrow> (\<forall>xs. set (mt_order mt xs) = set xs)"

lemma exact_index_Some:
  assumes "s \<in> set names" shows "\<exists>i<length names. exact_index names s = Some i \<and> names ! i = s"
proof -
  obtain j where "j < length names" "names ! j = s" using assms by (auto simp: in_set_conv_nth)
  then have "exact_index names s \<noteq> None" by (auto simp: exact_index_def find_None_iff)
  then obtain i where i: "exact_index names s = Some i" by blast
  then obtain k where "k < length names" "[0..<length names] ! k = i" "names ! i = s"
    by (auto simp: exact_index_def find_Some_iff)
  then show ?thesis using i by simp
qed

lemma weights:
  "w_exact = 5404319552844595 / 2 ^ 53" "w_jw = 5404319552844595 / 2 ^ 54" "w_parent = 7205759403792794 / 2 ^ 56"
  "conflict_threshold = 7656119366529843 / 2 ^ 53"
  unfolding w_exact_def w_jw_def w_parent_def conflict_threshold_def
  using fl_eqI [of "- 1" "60 / 100" 5404319552844595] fl_eqI [of "- 2" "30 / 100" 5404319552844595]
    fl_eqI [of "- 4" "10 / 100" 7205759403792794] fl_eqI [of "- 1" "85 / 100" 7656119366529843]
  by (simp_all add: pow2_def)

lemma full_scores:
  "f_add (f_add (f_mul w_exact 1) (f_mul w_jw 1)) (f_mul w_parent 0) = 8106479329266892 / 2 ^ 53"
  "f_add (f_add (f_mul w_exact 1) (f_mul w_jw 1)) (f_mul w_parent 1) = 9007199254740991 / 2 ^ 53"
proof -
  have 1: "fl w_exact = w_exact" "fl w_jw = w_jw" "fl w_parent = w_parent"
    using fl_eqI [of "- 1" w_exact 5404319552844595] fl_eqI [of "- 2" w_jw 5404319552844595]
      fl_eqI [of "- 4" w_parent 7205759403792794] by (simp_all add: pow2_def weights)
  have 2: "fl (w_exact + w_jw) = 8106479329266892 / 2 ^ 53"
    using fl_eqI [of "- 1" "w_exact + w_jw" 8106479329266892] by (simp add: pow2_def weights)
  have "fl (8106479329266892 / 2 ^ 53 + w_parent) = 9007199254740991 / 2 ^ 53"
    "fl (8106479329266892 / 2 ^ 53) = (8106479329266892 / 2 ^ 53)"
    using fl_eqI [of "- 1" "8106479329266892 / 2 ^ 53 + w_parent" 9007199254740991]
      fl_eqI [of "- 1" "8106479329266892 / 2 ^ 53" 8106479329266892] by (simp_all add: pow2_def weights)
  then show "f_add (f_add (f_mul w_exact 1) (f_mul w_jw 1)) (f_mul w_parent 0) = 8106479329266892 / 2 ^ 53"
    "f_add (f_add (f_mul w_exact 1) (f_mul w_jw 1)) (f_mul w_parent 1) = 9007199254740991 / 2 ^ 53"
    unfolding f_add_def f_mul_def by (simp_all only: mult_1_right mult_zero_right 1 2 add_0_right) (simp add: fl_def)
qed

lemma exact_score:
  assumes "mt_jaro mt s s = 1" "s \<noteq> ''''"
  shows "conflict_threshold \<le> fst (score_one mt s p ex s)"
  using assms full_scores by (simp add: score_one_def Let_def weights)

lemma hd_sort_key_max:
  assumes "x \<in> set xs" shows "sort_key (\<lambda>t. - f t) xs \<noteq> [] \<and> f x \<le> (f (hd (sort_key (\<lambda>t. - f t) xs)) :: rat)"
proof -
  let ?s = "sort_key (\<lambda>t. - f t) xs"
  have ne: "?s \<noteq> []" using assms by (metis empty_iff list.set(1) set_sort)
  have "sorted (map (\<lambda>t. - f t) ?s)" by simp
  moreover have "x \<in> set ?s" using assms by simp
  ultimately have "- f (hd ?s) \<le> - f x" using ne by (cases ?s) auto
  then show ?thesis using ne by simp
qed

text \<open>
  C21: No master is created when one of its name, up to case and spacing, already exists: the row is
  either an update of an existing master or held back.
\<close>

theorem existing_name_never_created:
  assumes "walks_sets mt" "\<And>s. mt_jaro mt s s = 1" "(src, r) \<in> set incoming"
    and "norm_name (text_or_empty (rget r ''name'')) \<noteq> ''''"
    and "ex \<in> set existing" "norm_cell (rget ex ''name'') = norm_name (text_or_empty (rget r ''name''))"
  shows "\<exists>v\<in>set (resolve mt incoming existing). vd_row v = src \<and> vd_name v = text_or_empty (rget r ''name'') \<and>
    (vd_decision v = Update \<and> vd_action v = Some ALTER \<and> vd_matched_name v \<noteq> None \<or>
     vd_decision v = Conflict \<and> vd_action v = None)"
proof -
  let ?name = "text_or_empty (rget r ''name'')" and ?names = "map (\<lambda>e. norm_cell (rget e ''name'')) existing"
  let ?s = "norm_name ?name" and ?p = "norm_cell (rget r ''parent'')"
  have "?s \<in> set ?names" using assms(5,6) by force
  from exact_index_Some [OF this] obtain i where i: "i < length ?names" "exact_index ?names ?s = Some i" "?names ! i = ?s"
    by blast
  then have "i \<in> set (mt_order mt (candidate_ids mt ?names ?s))"
    using assms(1) by (simp add: walks_sets_def candidate_ids_def)
  then have "score_one mt ?s ?p (existing ! i) ?s \<in> set (map (\<lambda>i. score_one mt ?s ?p (existing ! i) (?names ! i))
      (mt_order mt (candidate_ids mt ?names ?s)))"
    using i(3) by force
  from hd_sort_key_max [OF this, of fst] have ne: "ranked mt existing r \<noteq> []"
    and "fst (score_one mt ?s ?p (existing ! i) ?s) \<le> fst (hd (ranked mt existing r))"
    by (simp_all add: ranked_def Let_def)
  then have best: "conflict_threshold \<le> fst (hd (ranked mt existing r))"
    using exact_score [of mt ?s ?p "existing ! i"] assms(2,4) by auto
  obtain b j e rest where rk: "ranked mt existing r = (b, j, e) # rest" using ne by (cases "ranked mt existing r") auto
  let ?v = "decide src ?name ?s (ranked mt existing r)"
  have "?v \<in> set (resolve mt incoming existing)"
    using assms(3) unfolding resolve_def by (auto simp: Let_def intro!: image_eqI [of _ _ "(src, r)"])
  moreover have "vd_row ?v = src \<and> vd_name ?v = ?name \<and>
      (vd_decision ?v = Update \<and> vd_action ?v = Some ALTER \<and> vd_matched_name ?v \<noteq> None \<or>
       vd_decision ?v = Conflict \<and> vd_action ?v = None)"
    using best by (auto simp: decide_def rk Let_def)
  ultimately show ?thesis by blast
qed

definition sample_matcher :: matcher where
  "sample_matcher = \<lparr>mt_metaphone = (\<lambda>s. ''''), mt_jaro = (\<lambda>s t. if s = t then 1 else 0), mt_order = id\<rparr>"

theorem existing_name_never_created_witness:
  "\<exists>v\<in>set (resolve sample_matcher [(Some 1, [''name'' \<mapsto> CStr '' CASH''])] [[''name'' \<mapsto> CStr ''Cash'']]).
     vd_row v = Some 1 \<and> vd_decision v \<noteq> Create"
proof -
  let ?r = "[''name'' \<mapsto> CStr '' CASH''] :: row" and ?e = "[''name'' \<mapsto> CStr ''Cash''] :: row"
  have n: "norm_name '' CASH'' = ''cash''" "norm_name ''Cash'' = ''cash''" by code_simp+
  have "walks_sets sample_matcher" "mt_jaro sample_matcher s s = 1" for s
    by (simp_all add: walks_sets_def sample_matcher_def)
  from existing_name_never_created [OF this, of "Some 1" ?r "[(Some 1, ?r)]" ?e "[?e]"]
  show ?thesis using n by (force simp: rget_def norm_cell_def text_or_empty_def)
qed

end
