(* ===== verification/PushResponse.thy ===== *)
theory PushResponse
  imports Coercion
begin

text \<open>
  \<open>app/pipeline/push/response_parser.py\<close>: the counters and error lines of the answer Tally gives to an
  import.  The parser of the XML library is a parameter that yields the tree of the answer, \<open>None\<close>
  where it raises; a comment or a processing instruction is a node without a name.
\<close>

section \<open>The answer as a tree\<close>

datatype rnode = RElem (rn_tag: string) (rn_text: "string option") "rnode list" | RComment

fun iter :: "rnode \<Rightarrow> rnode list" where
  \<comment> \<open>\<open>root.iter()\<close>: the nodes in document order\<close>
  "iter (RElem tag txt cs) = RElem tag txt cs # concat (map iter cs)"
| "iter RComment = [RComment]"

definition localname :: "string \<Rightarrow> string" where
  \<comment> \<open>a qualified name is \<open>{namespace}name\<close>\<close>
  "localname tag = (if starts_with ''{'' tag then tl (dropWhile (\<lambda>c. c \<noteq> CHR ''}'') tag) else tag)"

section \<open>Numbers\<close>

text \<open>
  \<open>int(text)\<close>: a sign, then digits with single underscores between them; more than 4300 digits are
  refused by the interpreter.
\<close>

fun digit_groups :: "bool \<Rightarrow> string \<Rightarrow> string option" where
  \<comment> \<open>the digits, if the text is a digit, then digits each after at most one underscore\<close>
  "digit_groups after_digit [] = (if after_digit then Some [] else None)"
| "digit_groups after_digit (c # cs) =
     (if is_dec_digit c then map_option (Cons c) (digit_groups True cs)
      else if c = CHR ''_'' \<and> after_digit then
        (case cs of [] \<Rightarrow> None | d # ds \<Rightarrow> if is_dec_digit d then digit_groups False cs else None)
      else None)"

definition int_of_text :: "string \<Rightarrow> int option" where
  "int_of_text s =
     (let (neg, r) = split_sign (strip s) in
      case digit_groups False r of None \<Rightarrow> None
      | Some ds \<Rightarrow> if 4300 < length ds then None else Some (if neg then - int (digits_val ds) else int (digits_val ds)))"

definition to_int :: "string option \<Rightarrow> int" where
  "to_int text =
     (case int_of_text (strip (if truthy text then the text else ''0'')) of None \<Rightarrow> 0 | Some n \<Rightarrow> n)"

section \<open>The result\<close>

definition count_tags :: "string list" where
  "count_tags = [''CREATED'', ''ALTERED'', ''DELETED'', ''COMBINED'', ''IGNORED'', ''ERRORS'', ''CANCELLED'',
                 ''EXCEPTIONS'', ''LASTVCHID'', ''LASTMID'']"

record import_result =
  ir_created :: int
  ir_altered :: int
  ir_deleted :: int
  ir_combined :: int
  ir_ignored :: int
  ir_errors :: int
  ir_cancelled :: int
  ir_exceptions :: int
  ir_last_vch_id :: int
  ir_last_master_id :: int
  ir_line_errors :: "string list"
  ir_raw_xml :: string

definition is_success :: "import_result \<Rightarrow> bool" where
  "is_success r \<longleftrightarrow> ir_errors r = 0 \<and> ir_exceptions r = 0 \<and> ir_cancelled r = 0 \<and> ir_line_errors r = []"

definition count_node :: "rnode \<Rightarrow> (string \<Rightarrow> int) \<times> string list \<Rightarrow> (string \<Rightarrow> int) \<times> string list" where
  \<comment> \<open>one turn of the loop over the nodes\<close>
  "count_node nd acc =
     (case nd of
        RComment \<Rightarrow> acc
      | RElem tag txt _ \<Rightarrow>
          let local = upper (localname tag); (counts, errs) = acc in
          if local \<in> set count_tags then (counts(local := to_int txt), errs)
          else if local = ''LINEERROR'' \<and> truthy txt \<and> strip (the txt) \<noteq> '''' then (counts, errs @ [strip (the txt)])
          else acc)"

definition ascii_upper :: "string \<Rightarrow> string" where
  \<comment> \<open>\<open>bytes.upper\<close>\<close>
  "ascii_upper s = map (\<lambda>c. if 97 \<le> ord c \<and> ord c \<le> (122 :: nat) then char_of (ord c - (32 :: nat)) else c) s"

definition utf8 :: "string \<Rightarrow> string" where
  \<comment> \<open>\<open>encode("utf-8")\<close> of code points below 256\<close>
  "utf8 s = concat (map (\<lambda>c. if ord c < (128 :: nat) then [c]
                             else [char_of (192 + ord c div 64 :: nat), char_of (128 + ord c mod 64 :: nat)]) s)"

datatype response = Bytes string | Str string

record response_env =
  re_parse :: "string \<Rightarrow> rnode option"
  re_decode :: "string \<Rightarrow> string"

definition parse_import_response :: "response_env \<Rightarrow> response \<Rightarrow> import_result res" where
  "parse_import_response env data =
     (let raw = (case data of Bytes b \<Rightarrow> b | Str s \<Rightarrow> utf8 s) in
      if is_infix ''<!DOCTYPE'' (ascii_upper raw) then Inl XMLSecurityError
      else case re_parse env raw of
          None \<Rightarrow> Inl XMLSecurityError
        | Some doc \<Rightarrow>
            let (counts, errs) = fold count_node (iter doc) (\<lambda>_. 0, [])
            in Inr \<lparr>ir_created = counts ''CREATED'', ir_altered = counts ''ALTERED'', ir_deleted = counts ''DELETED'',
                    ir_combined = counts ''COMBINED'', ir_ignored = counts ''IGNORED'', ir_errors = counts ''ERRORS'',
                    ir_cancelled = counts ''CANCELLED'', ir_exceptions = counts ''EXCEPTIONS'',
                    ir_last_vch_id = counts ''LASTVCHID'', ir_last_master_id = counts ''LASTMID'',
                    ir_line_errors = errs, ir_raw_xml = re_decode env raw\<rparr>)"

section \<open>A reference reading\<close>

text \<open>The value of a counter is that of its last element; the error lines are the non-blank ones in order.\<close>

definition named :: "string \<Rightarrow> rnode \<Rightarrow> bool" where
  "named t nd \<longleftrightarrow> nd \<noteq> RComment \<and> upper (localname (rn_tag nd)) = t"

definition last_count :: "rnode list \<Rightarrow> string \<Rightarrow> int" where
  "last_count nds t = (case rev (filter (named t) nds) of [] \<Rightarrow> 0 | nd # _ \<Rightarrow> to_int (rn_text nd))"

definition line_error_texts :: "rnode list \<Rightarrow> string list" where
  "line_error_texts nds =
     filter (\<lambda>s. s \<noteq> '''') (map (\<lambda>nd. strip (case rn_text nd of None \<Rightarrow> '''' | Some s \<Rightarrow> s)) (filter (named ''LINEERROR'') nds))"

lemma fold_count_node:
  assumes "fold count_node nds (\<lambda>_. 0, []) = (counts, errs)"
  shows "(t \<in> set count_tags \<longrightarrow> counts t = last_count nds t) \<and> errs = line_error_texts nds"
  using assms
proof (induction nds arbitrary: counts errs rule: rev_induct)
  case Nil
  then show ?case by (auto simp: last_count_def line_error_texts_def)
next
  case (snoc nd nds)
  obtain c e where ce: "fold count_node nds (\<lambda>_. 0, []) = (c, e)" by fastforce
  note ih = snoc.IH [OF ce]
  have step: "count_node nd (c, e) = (counts, errs)" using snoc.prems ce by simp
  have le: "''LINEERROR'' \<notin> set count_tags" by (simp add: count_tags_def)
  show ?case
  proof (cases nd)
    case RComment
    then show ?thesis
      using step ih by (simp add: count_node_def last_count_def line_error_texts_def named_def)
  next
    case (RElem tag body cs)
    let ?l = "upper (localname tag)"
    have n: "named t' (RElem tag b cs) \<longleftrightarrow> ?l = t'" for t' b by (simp add: named_def)
    have e0: "strip a \<noteq> '''' \<Longrightarrow> a \<noteq> ''''" for a by auto
    have counts: "counts = (if ?l \<in> set count_tags then c(?l := to_int body) else c)"
      and errs: "errs = (if ?l \<notin> set count_tags \<and> ?l = ''LINEERROR'' \<and> truthy body \<and> strip (the body) \<noteq> ''''
        then e @ [strip (the body)] else e)"
      using step by (auto simp: count_node_def RElem Let_def split: if_splits)
    have "line_error_texts (nds @ [nd]) = line_error_texts nds @
        (if ?l = ''LINEERROR'' \<and> truthy body \<and> strip (the body) \<noteq> '''' then [strip (the body)] else [])"
      using e0 by (cases body) (auto simp: line_error_texts_def n RElem truthy_def)
    then have "errs = line_error_texts (nds @ [nd])" using ih le by (auto simp: errs)
    moreover have "last_count (nds @ [nd]) t = (if ?l = t then to_int body else last_count nds t)"
      by (simp add: last_count_def n RElem)
    then have "t \<in> set count_tags \<longrightarrow> counts t = last_count (nds @ [nd]) t" using ih by (simp add: counts)
    ultimately show ?thesis by blast
  qed
qed

section \<open>Properties\<close>

text \<open>
  An answer with a document type in any case, or one that is not well formed, is refused; any
  other is read as the last value of each counter and all error lines, so it counts as a success
  exactly when no error line has a text and the counters of errors, exceptions and cancellations
  are zero.
\<close>

theorem response_reading:
  "(case parse_import_response env (Bytes b) of
      Inl e \<Rightarrow> e = XMLSecurityError \<and> (is_infix ''<!DOCTYPE'' (ascii_upper b) \<or> re_parse env b = None)
    | Inr r \<Rightarrow> \<not> is_infix ''<!DOCTYPE'' (ascii_upper b) \<and> (\<exists>doc. re_parse env b = Some doc \<and>
        ir_created r = last_count (iter doc) ''CREATED'' \<and> ir_altered r = last_count (iter doc) ''ALTERED'' \<and>
        ir_combined r = last_count (iter doc) ''COMBINED'' \<and> ir_line_errors r = line_error_texts (iter doc) \<and>
        (is_success r \<longleftrightarrow> line_error_texts (iter doc) = [] \<and> last_count (iter doc) ''ERRORS'' = 0 \<and>
           last_count (iter doc) ''EXCEPTIONS'' = 0 \<and> last_count (iter doc) ''CANCELLED'' = 0)))"
proof (cases "is_infix ''<!DOCTYPE'' (ascii_upper b) \<or> re_parse env b = None")
  case True
  then show ?thesis by (auto simp: parse_import_response_def)
next
  case False
  then obtain doc where doc: "re_parse env b = Some doc" by blast
  obtain c e where ce: "fold count_node (iter doc) (\<lambda>_. 0, []) = (c, e)" by fastforce
  from fold_count_node [OF ce] have "t \<in> set count_tags \<Longrightarrow> c t = last_count (iter doc) t" "e = line_error_texts (iter doc)" for t
    by blast+
  then show ?thesis using False doc
    by (auto simp: parse_import_response_def ce is_success_def count_tags_def)
qed

text \<open>
  An answer without any counter or error line, such as that of a page that is no answer of Tally
  at all, is read as a success although nothing was imported.
\<close>

theorem empty_answer_is_success:
  "\<exists>r. parse_import_response \<lparr>re_parse = (\<lambda>_. Some (RElem ''html'' None [])), re_decode = id\<rparr> (Bytes ''<html/>'') = Inr r \<and>
     is_success r \<and> ir_created r + ir_altered r + ir_combined r = 0"
proof -
  have "\<not> is_infix ''<!DOCTYPE'' (ascii_upper ''<html/>'')" by code_simp
  moreover have "upper (localname ''html'') \<notin> set count_tags" "upper (localname ''html'') \<noteq> ''LINEERROR''" by code_simp+
  ultimately show ?thesis by (simp add: parse_import_response_def count_node_def is_success_def)
qed

end
