(* ===== verification/Jobs.thy ===== *)
theory Jobs
  imports Parsing Profiling Resolution PushResponse
begin

text \<open>
  \<open>app/services/job_store.py\<close>: a job with what its stages have produced, the states it may be in, and
  the store that keeps jobs in memory and evicts the one used longest ago.  Times are whole seconds.
  The locks of the store are the identifiers that have one.
\<close>

section \<open>States and actions\<close>

datatype job_status =
    CREATED | PARSED | MAPPED | VALIDATED | RESOLVED | GENERATED
  | PUSHING | PUSHED | PUSHED_PARTIAL | PUSH_FAILED

fun status_value :: "job_status \<Rightarrow> string" where
  "status_value CREATED = ''created''"
| "status_value PARSED = ''parsed''"
| "status_value MAPPED = ''mapped''"
| "status_value VALIDATED = ''validated''"
| "status_value RESOLVED = ''resolved''"
| "status_value GENERATED = ''generated''"
| "status_value PUSHING = ''pushing''"
| "status_value PUSHED = ''pushed''"
| "status_value PUSHED_PARTIAL = ''pushed_partial''"
| "status_value PUSH_FAILED = ''push_failed''"

definition statuses :: "job_status list" where
  "statuses = [CREATED, PARSED, MAPPED, VALIDATED, RESOLVED, GENERATED, PUSHING, PUSHED, PUSHED_PARTIAL, PUSH_FAILED]"

definition status_of_value :: "string \<Rightarrow> job_status option" where
  \<comment> \<open>\<open>JobStatus(value)\<close>\<close>
  "status_of_value s = find (\<lambda>st. status_value st = s) statuses"

definition stale_push_seconds :: int where
  "stale_push_seconds = 300"

datatype action = Upload | Map_Columns | Validate | Resolve | Generate | Push

fun allowed :: "action \<Rightarrow> job_status list" where
  "allowed Upload = filter (\<lambda>s. s \<noteq> PUSHING) statuses"
| "allowed Map_Columns = [PARSED, MAPPED, VALIDATED, RESOLVED]"
| "allowed Validate = [MAPPED, VALIDATED, RESOLVED]"
| "allowed Resolve = [VALIDATED, RESOLVED, GENERATED]"
| "allowed Generate = [VALIDATED, RESOLVED, GENERATED, PUSH_FAILED, PUSHED_PARTIAL]"
| "allowed Push = [GENERATED, PUSH_FAILED]"

section \<open>Jobs\<close>

record job =
  j_id :: string
  j_entity :: entity_type
  j_status :: job_status
  j_created_at :: int
  j_updated_at :: int
  j_org :: "string option"
  j_filename :: "string option"
  j_company :: "string option"
  j_upload :: "string option"
  j_df :: "frame option"
  j_profile :: "profile_signals option"
  j_mapping :: "(string, string option) dict option"
  j_constants :: "(string, string) dict"
  j_mapped_df :: "frame option"
  j_validation :: "stage_result option"
  j_resolution :: "verdict list option"
  j_xml :: "string option"
  j_push :: "import_result option"
  j_notes :: "string list"

definition new_job :: "string \<Rightarrow> entity_type \<Rightarrow> int \<Rightarrow> job" where
  "new_job i ent now =
     \<lparr>j_id = i, j_entity = ent, j_status = CREATED, j_created_at = now, j_updated_at = now, j_org = None,
      j_filename = None, j_company = None, j_upload = None, j_df = None, j_profile = None, j_mapping = None,
      j_constants = [], j_mapped_df = None, j_validation = None, j_resolution = None, j_xml = None,
      j_push = None, j_notes = []\<rparr>"

definition raise_default :: "app_class \<Rightarrow> 'a res" where
  \<comment> \<open>an application error with the code of its class\<close>
  "raise_default cls = Inl (AppErr (app_error_new cls None []))"

definition require :: "action \<Rightarrow> job \<Rightarrow> unit res" where
  "require a j = (if j_status j \<in> set (allowed a) then Inr () else raise_default InvalidState)"

definition advance :: "int \<Rightarrow> job_status \<Rightarrow> job \<Rightarrow> job" where
  "advance now st j = j\<lparr>j_status := st, j_updated_at := now\<rparr>"

lemma require_Inr [simp]: "require a j = Inr u \<longleftrightarrow> j_status j \<in> set (allowed a)"
  by (simp add: require_def raise_default_def)

lemma require_Inl: "require a j = Inl e \<longleftrightarrow> j_status j \<notin> set (allowed a) \<and> e = AppErr (app_error_new InvalidState None [])"
  by (auto simp: require_def raise_default_def)

lemma advance_simps [simp]:
  "j_status (advance now st j) = st" "j_updated_at (advance now st j) = now" "j_id (advance now st j) = j_id j"
  "j_xml (advance now st j) = j_xml j" "j_df (advance now st j) = j_df j" "j_mapped_df (advance now st j) = j_mapped_df j"
  "j_validation (advance now st j) = j_validation j" "j_resolution (advance now st j) = j_resolution j"
  "j_push (advance now st j) = j_push j" "j_notes (advance now st j) = j_notes j" "j_org (advance now st j) = j_org j"
  "j_entity (advance now st j) = j_entity j" "j_mapping (advance now st j) = j_mapping j"
  "j_constants (advance now st j) = j_constants j" "j_upload (advance now st j) = j_upload j"
  "j_filename (advance now st j) = j_filename j" "j_company (advance now st j) = j_company j"
  "j_profile (advance now st j) = j_profile j"
  by (simp_all add: advance_def)

section \<open>A map in the order of last use\<close>

text \<open>
  An \<open>OrderedDict\<close> as its items, oldest first: \<open>move_to_end\<close> after a lookup or an assignment, and
  \<open>popitem(last=False)\<close>.
\<close>

definition touch :: "'k \<Rightarrow> ('k \<times> 'v) list \<Rightarrow> ('k \<times> 'v) list" where
  "touch k d = filter (\<lambda>kv. fst kv \<noteq> k) d @ filter (\<lambda>kv. fst kv = k) d"

definition put_last :: "'k \<Rightarrow> 'v \<Rightarrow> ('k \<times> 'v) list \<Rightarrow> ('k \<times> 'v) list" where
  "put_last k v d = filter (\<lambda>kv. fst kv \<noteq> k) d @ [(k, v)]"

lemma map_of_filter_key [simp]: "map_of (filter (\<lambda>kv. fst kv \<noteq> k) d) x = (if x = k then None else map_of d x)"
  by (induction d) auto

lemma map_of_filter_key' [simp]: "map_of (filter (\<lambda>kv. fst kv = k) d) x = (if x = k then map_of d k else None)"
  by (induction d) auto

lemma map_of_touch [simp]: "map_of (touch k d) x = map_of d x"
  by (auto simp: touch_def map_add_def split: option.split)

lemma map_of_put_last [simp]: "map_of (put_last k v d) x = (if x = k then Some v else map_of d x)"
  by (auto simp: put_last_def map_add_def split: option.split)

lemma distinct_touch: "distinct (map fst d) \<Longrightarrow> distinct (map fst (touch k d))"
proof -
  assume d: "distinct (map fst d)"
  have "filter (\<lambda>kv. fst kv = k) d = [] \<or> (\<exists>v. filter (\<lambda>kv. fst kv = k) d = [(k, v)])"
    using d by (induction d) (auto simp: filter_empty_conv image_iff)
  then show ?thesis using d by (auto simp: touch_def distinct_map_filter)
qed

lemma distinct_put_last: "distinct (map fst d) \<Longrightarrow> distinct (map fst (put_last k v d))"
  by (auto simp: put_last_def distinct_map_filter)

lemma keys_touch [simp]: "fst ` set (touch k d) = fst ` set d"
  by (auto simp: touch_def)

lemma keys_put_last [simp]: "fst ` set (put_last k v d) = insert k (fst ` set d)"
  by (auto simp: put_last_def)

lemma length_touch [simp]: "length (touch k d) = length d"
  unfolding touch_def by (induction d) auto

lemma set_touch [simp]: "set (touch k d) = set d"
  by (auto simp: touch_def)

section \<open>The store in memory\<close>

record mem_store =
  ms_jobs :: "(string \<times> job) list"
  ms_locks :: "string list"
  ms_max :: nat

definition mem_create :: "string \<Rightarrow> int \<Rightarrow> entity_type \<Rightarrow> mem_store \<Rightarrow> mem_store \<times> job" where
  \<comment> \<open>the identifier is a fresh random one\<close>
  "mem_create i now ent s =
     (let s1 = (if ms_max s \<le> length (ms_jobs s) \<and> ms_jobs s \<noteq> []
                then s\<lparr>ms_jobs := tl (ms_jobs s), ms_locks := removeAll (fst (hd (ms_jobs s))) (ms_locks s)\<rparr> else s);
          j = new_job i ent now
      in (s1\<lparr>ms_jobs := AList.update i j (ms_jobs s1), ms_locks := List.insert i (ms_locks s1)\<rparr>, j))"

definition mem_get :: "string \<Rightarrow> mem_store \<Rightarrow> mem_store \<times> job res" where
  "mem_get i s =
     (case map_of (ms_jobs s) i of
        None \<Rightarrow> (s, raise_app JobNotFound ''job_not_found'')
      | Some j \<Rightarrow> (s\<lparr>ms_jobs := touch i (ms_jobs s)\<rparr>, Inr j))"

definition mem_lock :: "string \<Rightarrow> mem_store \<Rightarrow> mem_store \<times> job res" where
  \<comment> \<open>entering the block: the job, and the lock that is held while the block runs\<close>
  "mem_lock i s =
     (case map_of (ms_jobs s) i of
        None \<Rightarrow> (s, raise_app JobNotFound ''job_not_found'')
      | Some j \<Rightarrow> (s\<lparr>ms_jobs := touch i (ms_jobs s), ms_locks := List.insert i (ms_locks s)\<rparr>, Inr j))"

definition mem_count :: "mem_store \<Rightarrow> nat" where
  "mem_count s = length (ms_jobs s)"

definition mem_inv :: "mem_store \<Rightarrow> bool" where
  "mem_inv s \<longleftrightarrow> distinct (map fst (ms_jobs s)) \<and> length (ms_jobs s) \<le> ms_max s \<and> 0 < ms_max s \<and>
     set (ms_locks s) = fst ` set (ms_jobs s) \<and> (\<forall>(k, j)\<in>set (ms_jobs s). j_id j = k)"

text \<open>
  The store in memory never holds more jobs than allowed and keeps one lock per job; creating a
  job evicts none but the one used longest ago, and only when the store is full, and a job that was
  just looked up is evicted last.
\<close>

theorem mem_store_bounded:
  assumes "mem_inv s" "i \<notin> fst ` set (ms_jobs s)" "mem_create i now ent s = (s', j)" "mem_get k s = (s'', r)"
  shows "mem_inv s' \<and> mem_count s' \<le> ms_max s' \<and> map_of (ms_jobs s') i = Some j \<and>
    (\<forall>x. x \<noteq> i \<longrightarrow> map_of (ms_jobs s') x = map_of (ms_jobs s) x \<or>
       mem_count s = ms_max s \<and> x = fst (hd (ms_jobs s))) \<and>
    mem_inv s'' \<and> (\<forall>x. map_of (ms_jobs s'') x = map_of (ms_jobs s) x) \<and>
    (k \<in> fst ` set (ms_jobs s) \<longrightarrow> fst (last (ms_jobs s'')) = k)"
proof -
  let ?full = "ms_max s \<le> length (ms_jobs s) \<and> ms_jobs s \<noteq> []"
  note inv = assms(1) [unfolded mem_inv_def]
  have upd: "AList.update i v d = d @ [(i, v)]" if "i \<notin> fst ` set d" for v and d :: "(string \<times> job) list"
    using that by (induction d) auto
  have c: "mem_inv s' \<and> map_of (ms_jobs s') i = Some j \<and>
    (\<forall>x. x \<noteq> i \<longrightarrow> map_of (ms_jobs s') x = map_of (ms_jobs s) x \<or> mem_count s = ms_max s \<and> x = fst (hd (ms_jobs s)))"
  proof (cases ?full)
    case True
    then obtain k0 j0 rest where h: "ms_jobs s = (k0, j0) # rest" by (cases "ms_jobs s") auto
    have "i \<notin> fst ` set rest" using assms(2) h by simp
    then have s': "s' = s\<lparr>ms_jobs := rest @ [(i, j)], ms_locks := List.insert i (removeAll k0 (ms_locks s))\<rparr>"
      "j = new_job i ent now"
      using assms(3) True h upd by (auto simp: mem_create_def Let_def)
    then show ?thesis using inv h True assms(2)
      by (auto simp: mem_inv_def mem_count_def new_job_def map_add_def image_iff split: option.split)
  next
    case False
    then have s': "s' = s\<lparr>ms_jobs := ms_jobs s @ [(i, j)], ms_locks := List.insert i (ms_locks s)\<rparr>"
      "j = new_job i ent now"
      using assms(3) upd assms(2) by (auto simp: mem_create_def Let_def)
    have "length (ms_jobs s) < ms_max s" using False inv by (cases "ms_jobs s") auto
    then show ?thesis using inv assms(2) s'
      by (auto simp: mem_inv_def new_job_def map_add_def image_iff split: option.split)
  qed
  have g: "mem_inv s'' \<and> (\<forall>x. map_of (ms_jobs s'') x = map_of (ms_jobs s) x)"
  proof -
    have "mem_inv (s\<lparr>ms_jobs := touch k (ms_jobs s)\<rparr>)"
      using inv distinct_touch [of "ms_jobs s" k] by (simp add: mem_inv_def)
    then show ?thesis using assms(1,4) by (auto simp: mem_get_def split: option.splits)
  qed
  have "fst (last (ms_jobs s'')) = k" if "k \<in> fst ` set (ms_jobs s)"
  proof -
    from that obtain v where kv: "(k, v) \<in> set (ms_jobs s)" by auto
    then have "map_of (ms_jobs s) k = Some v" using inv by simp
    then have "ms_jobs s'' = touch k (ms_jobs s)" using assms(4) by (auto simp: mem_get_def)
    moreover have "filter (\<lambda>kv. fst kv = k) (ms_jobs s) \<noteq> []" using kv by (force simp: filter_empty_conv)
    then have "last (touch k (ms_jobs s)) \<in> set (filter (\<lambda>kv. fst kv = k) (ms_jobs s))"
      unfolding touch_def by (metis last_appendR last_in_set)
    ultimately show ?thesis by simp
  qed
  then show ?thesis using c g by (simp add: mem_inv_def mem_count_def)
qed

theorem mem_store_bounded_witness:
  "\<exists>s' j. mem_create ''c'' 9 LEDGER \<lparr>ms_jobs = [(''a'', new_job ''a'' LEDGER 1), (''b'', new_job ''b'' LEDGER 2)],
       ms_locks = [''a'', ''b''], ms_max = 2\<rparr> = (s', j) \<and> mem_count s' \<le> 2 \<and> map_of (ms_jobs s') ''c'' = Some j"
proof -
  let ?s = "\<lparr>ms_jobs = [(''a'', new_job ''a'' LEDGER 1), (''b'', new_job ''b'' LEDGER 2)], ms_locks = [''a'', ''b''], ms_max = 2\<rparr>"
  have inv: "mem_inv ?s" by (simp add: mem_inv_def new_job_def)
  obtain s' j where c: "mem_create ''c'' 9 LEDGER ?s = (s', j)" by fastforce
  obtain s'' r where g: "mem_get ''a'' ?s = (s'', r)" by fastforce
  have "ms_max s' = 2" using c by (auto simp: mem_create_def Let_def)
  then show ?thesis using mem_store_bounded [OF inv _ c g] c by simp
qed

end
