(* ===== verification/Templates.thy ===== *)
theory Templates
  imports Contracts PyFloat "HOL-Library.Multiset"
begin

text \<open>
  \<open>app/services/template_service.py\<close> and \<open>app/pipeline/mapping/templates.py\<close>: the mapping templates an
  organization has saved, the choice of the one that fits an upload, and the built-in one.  The
  table is the list of its rows; \<open>order by name\<close> is the database's, a parameter that rearranges the
  rows of a query.
\<close>

section \<open>Built-in templates\<close>

record builtin_template =
  bt_name :: string
  bt_mapping :: "(string, string) dict"
  bt_constants :: "(string, string) dict"

definition shopify_template :: builtin_template where
  "shopify_template =
     \<lparr>bt_name = ''shopify'',
      bt_mapping = [(''voucher_number'', ''Name''), (''date'', ''Created at''), (''ledger_name'', ''Lineitem name''),
                    (''amount'', ''Lineitem price''), (''party_ledger'', ''Billing Name''), (''narration'', ''Name'')],
      bt_constants = [(''voucher_type'', ''Sales''), (''dr_cr'', ''Cr''), (''opening_balance_drcr'', ''Cr'')]\<rparr>"

definition templates :: "(string, builtin_template) dict" where
  "templates = [(''shopify'', shopify_template)]"

definition apply_template :: "string \<Rightarrow> ((string, string) dict \<times> (string, string) dict) res" where
  "apply_template name =
     (case dget templates (lower name) of
        None \<Rightarrow> Inl ValueError
      | Some t \<Rightarrow> Inr (bt_mapping t, bt_constants t))"

section \<open>Saved templates\<close>

record stored_template =
  tp_id :: string
  tp_org :: string
  tp_created_by :: string
  tp_entity :: string
  tp_name :: string
  tp_mapping :: "(string, string) dict"
  tp_constants :: "(string, string) dict"
  tp_columns :: "string list"
  tp_created_at :: int

type_synonym template_table = "stored_template list"

record template_view =
  tv_id :: string
  tv_name :: string
  tv_entity :: string
  tv_mapping :: "(string, string) dict"
  tv_constants :: "(string, string) dict"
  tv_columns :: "string list"
  tv_builtin :: bool
  tv_created_at :: int

definition view :: "stored_template \<Rightarrow> template_view" where
  "view t = \<lparr>tv_id = tp_id t, tv_name = tp_name t, tv_entity = tp_entity t, tv_mapping = tp_mapping t,
             tv_constants = tp_constants t, tv_columns = tp_columns t, tv_builtin = False, tv_created_at = tp_created_at t\<rparr>"

definition list_templates ::
    "(stored_template list \<Rightarrow> stored_template list) \<Rightarrow> template_table \<Rightarrow> string \<Rightarrow> entity_type \<Rightarrow> template_view list" where
  "list_templates by_name_order db org ent =
     map view (by_name_order (filter (\<lambda>t. tp_org t = org \<and> tp_entity t = entity_value ent) db))"

definition clean_mapping :: "(string, string option) dict \<Rightarrow> (string, string) dict" where
  \<comment> \<open>the entries with a source column\<close>
  "clean_mapping m = map (\<lambda>(k, s). (k, the s)) (filter (\<lambda>(k, s). s \<noteq> None \<and> s \<noteq> Some '''') m)"

definition same_key :: "string \<Rightarrow> entity_type \<Rightarrow> string \<Rightarrow> stored_template \<Rightarrow> bool" where
  "same_key org ent name t \<longleftrightarrow> tp_org t = org \<and> tp_entity t = entity_value ent \<and> tp_name t = name"

definition save_template ::
    "template_table \<Rightarrow> string \<times> int \<Rightarrow> string \<Rightarrow> string \<Rightarrow> entity_type \<Rightarrow> string \<Rightarrow> (string, string option) dict \<Rightarrow>
     (string, string) dict \<Rightarrow> string list \<Rightarrow> template_table \<times> template_view" where
  \<comment> \<open>the identifier and the time are those a new row gets\<close>
  "save_template db fresh org user ent name mapping constants cols =
     (let fill = (\<lambda>t. t\<lparr>tp_mapping := clean_mapping mapping,
                        tp_constants := filter (\<lambda>(k, v). strip v \<noteq> '''') constants, tp_columns := cols\<rparr>)
      in case find (same_key org ent name) db of
           Some t \<Rightarrow> (map (\<lambda>u. if same_key org ent name u then fill u else u) db, view (fill t))
         | None \<Rightarrow>
             let t = fill \<lparr>tp_id = fst fresh, tp_org = org, tp_created_by = user, tp_entity = entity_value ent,
                           tp_name = name, tp_mapping = [], tp_constants = [], tp_columns = [], tp_created_at = snd fresh\<rparr>
             in (db @ [t], view t))"

definition delete_template :: "template_table \<Rightarrow> string \<Rightarrow> string \<Rightarrow> template_table \<times> bool" where
  "delete_template db org tid =
     (let hit = (\<lambda>t. tp_org t = org \<and> tp_id t = tid) in
      if list_ex hit db then (filter (\<lambda>t. \<not> hit t) db, True) else (db, False))"

section \<open>The best match\<close>

definition template_cols :: "template_view \<Rightarrow> string list" where
  "template_cols t = filter (\<lambda>c. c \<noteq> '''') (tv_columns t)"

definition overlap :: "string list \<Rightarrow> template_view \<Rightarrow> nat" where
  "overlap present t = length (filter (\<lambda>c. c \<in> set present) (template_cols t))"

definition score :: "string list \<Rightarrow> template_view \<Rightarrow> rat" where
  "score present t = ratio (overlap present t) (length (template_cols t))"

definition better :: "string list \<Rightarrow> template_view \<Rightarrow> template_view option \<times> rat \<Rightarrow> template_view option \<times> rat" where
  "better present t best =
     (if length (template_cols t) < 2 then best
      else if fl (6 / 10) \<le> score present t \<and> snd best < score present t then (Some t, score present t)
      else best)"

definition pick :: "string list \<Rightarrow> template_view list \<Rightarrow> template_view option" where
  "pick present ts = fst (fold (better present) ts (None, 0))"

definition best_match ::
    "(stored_template list \<Rightarrow> stored_template list) \<Rightarrow> template_table \<Rightarrow> string \<Rightarrow> entity_type \<Rightarrow> string list \<Rightarrow>
     template_view option" where
  "best_match by_name_order db org ent cols = pick cols (list_templates by_name_order db org ent)"

section \<open>Facts\<close>

definition fits :: "string list \<Rightarrow> template_view \<Rightarrow> bool" where
  "fits present t \<longleftrightarrow> 2 \<le> length (template_cols t) \<and> fl (6 / 10) \<le> score present t"

text \<open>The best of the templates seen so far.\<close>

definition best_of :: "string list \<Rightarrow> template_view set \<Rightarrow> template_view option \<times> rat \<Rightarrow> bool" where
  "best_of present S p \<longleftrightarrow>
     (case fst p of None \<Rightarrow> snd p = 0 | Some t \<Rightarrow> fits present t \<and> snd p = score present t \<and> t \<in> S) \<and>
     (\<forall>t\<in>S. fits present t \<longrightarrow> score present t \<le> snd p)"

lemma better_taken:
  "better present t p = (if fits present t \<and> snd p < score present t then (Some t, score present t) else p)"
  by (auto simp: better_def fits_def not_less)

lemma best_of_better: "best_of present S p \<Longrightarrow> best_of present (insert t S) (better present t p)"
  by (cases "fits present t \<and> snd p < score present t")
    (auto simp: better_taken best_of_def not_less split: option.splits intro: less_imp_le le_less_trans)

lemma best_of_fold: "best_of present S p \<Longrightarrow> best_of present (S \<union> set ts) (fold (better present) ts p)"
proof (induction ts arbitrary: S p)
  case (Cons t ts)
  from Cons.IH [OF best_of_better [OF Cons.prems]] show ?case by simp
qed simp

definition rearranges :: "(stored_template list \<Rightarrow> stored_template list) \<Rightarrow> bool" where
  "rearranges f \<longleftrightarrow> (\<forall>xs. mset (f xs) = mset xs)"

lemma rearranges_set: "rearranges f \<Longrightarrow> set (f xs) = set xs"
  by (metis rearranges_def set_mset_mset)

lemma list_templates_iff:
  assumes "rearranges f"
  shows "t \<in> set (list_templates f db org ent) \<longleftrightarrow>
    (\<exists>u\<in>set db. t = view u \<and> tp_org u = org \<and> tp_entity u = entity_value ent)"
  unfolding list_templates_def set_map rearranges_set [OF assms] by auto

text \<open>
  The template laid over a proposal is one the organization saved for this kind of data, has at
  least two columns of which at least three fifths are in the file, and no other of its templates
  fits better; when there is none, no saved template fits.
\<close>

theorem best_match_sound:
  assumes "rearranges f" "best_match f db org ent cols = b"
  shows "(case b of None \<Rightarrow> \<forall>t\<in>set (list_templates f db org ent). \<not> fits cols t
     | Some t \<Rightarrow> (\<exists>u\<in>set db. t = view u \<and> tp_org u = org \<and> tp_entity u = entity_value ent) \<and> fits cols t \<and>
         (\<forall>u\<in>set (list_templates f db org ent). fits cols u \<longrightarrow> score cols u \<le> score cols t))"
proof -
  let ?ts = "list_templates f db org ent"
  obtain s where s: "fold (better cols) ?ts (None, 0) = (b, s)"
    using assms(2) by (metis best_match_def pick_def prod.collapse)
  have "best_of cols (set ?ts) (b, s)"
    using best_of_fold [of cols "{}" "(None, 0)" ?ts] s by (simp add: best_of_def)
  then have r: "case b of None \<Rightarrow> s = 0 | Some t \<Rightarrow> fits cols t \<and> s = score cols t \<and> t \<in> set ?ts"
    "\<forall>t\<in>set ?ts. fits cols t \<longrightarrow> score cols t \<le> s" by (simp_all add: best_of_def split: option.splits)
  have pos: "0 < fl (6 / 10)" by code_simp
  show ?thesis
  proof (cases b)
    case None
    then have "s = 0" using r(1) by simp
    then have "\<not> fits cols t" if "t \<in> set ?ts" for t using r(2) that pos by (fastforce simp: fits_def)
    then show ?thesis using None by simp
  next
    case (Some t)
    then show ?thesis using r list_templates_iff [OF assms(1)] by simp
  qed
qed

definition sample_template :: "string \<Rightarrow> string \<Rightarrow> string list \<Rightarrow> stored_template" where
  "sample_template i org cols =
     \<lparr>tp_id = i, tp_org = org, tp_created_by = ''u'', tp_entity = ''ledger'', tp_name = i, tp_mapping = [],
      tp_constants = [], tp_columns = cols, tp_created_at = 0\<rparr>"

theorem best_match_sound_witness:
  "\<exists>t. best_match id [sample_template ''a'' ''x'' [''Name'', ''Group''], sample_template ''b'' ''y'' [''Name'', ''Group'']]
     ''y'' LEDGER [''Group'', ''Name''] = Some t \<and> tv_id t = ''b'' \<and> fits [''Group'', ''Name''] t"
proof -
  let ?db = "[sample_template ''a'' ''x'' [''Name'', ''Group''], sample_template ''b'' ''y'' [''Name'', ''Group'']]"
  have "rearranges id" by (simp add: rearranges_def)
  moreover have "best_match id ?db ''y'' LEDGER [''Group'', ''Name''] = Some (view (sample_template ''b'' ''y'' [''Name'', ''Group'']))"
    by code_simp
  ultimately show ?thesis
    using best_match_sound [of id ?db "''y''" LEDGER "[''Group'', ''Name'']"] by (simp add: view_def sample_template_def)
qed

definition key_of :: "stored_template \<Rightarrow> string \<times> string \<times> string" where
  "key_of t = (tp_org t, tp_entity t, tp_name t)"

lemma same_key_iff: "same_key org ent name t \<longleftrightarrow> key_of t = (org, entity_value ent, name)"
  by (auto simp: same_key_def key_of_def)

lemma map_key_fixed: "(\<And>t. key_of (g t) = key_of t) \<Longrightarrow> map key_of (map (\<lambda>u. if P u then g u else u) db) = map key_of db"
  by (induction db) simp_all

text \<open>
  Saving a template keeps one row per organization, kind of data and name; it is then listed with
  the mapped columns that were given and nothing else, every other row is as before, and no row of
  another organization can be changed or deleted.
\<close>

theorem save_then_list:
  assumes "save_template db fresh org user ent name mapping constants cols = (db', v)"
    and "distinct (map key_of db)" "rearranges f"
  shows "distinct (map key_of db') \<and> v \<in> set (list_templates f db' org ent) \<and>
    tv_name v = name \<and> tv_mapping v = clean_mapping mapping \<and> tv_columns v = cols \<and>
    filter (\<lambda>t. \<not> same_key org ent name t) db' = filter (\<lambda>t. \<not> same_key org ent name t) db \<and>
    (\<forall>other tid. other \<noteq> org \<longrightarrow>
       filter (\<lambda>t. tp_org t = org) (fst (delete_template db' other tid)) = filter (\<lambda>t. tp_org t = org) db')"
proof -
  let ?fill = "\<lambda>t. t\<lparr>tp_mapping := clean_mapping mapping, tp_constants := filter (\<lambda>(k, v). strip v \<noteq> '''') constants, tp_columns := cols\<rparr>"
  have k: "key_of (?fill t) = key_of t" for t by (simp add: key_of_def)
  have listed: "view t \<in> set (list_templates f db' org ent)" if "t \<in> set db'" "same_key org ent name t" for t
    using that list_templates_iff [OF assms(3)] by (auto simp: same_key_def)
  have del: "filter (\<lambda>t. tp_org t = org) (fst (delete_template db' other tid)) = filter (\<lambda>t. tp_org t = org) db'"
    if "other \<noteq> org" for other tid
    using that by (auto simp: delete_template_def Let_def intro: filter_cong)
  show ?thesis
  proof (cases "find (same_key org ent name) db")
    case None
    let ?t = "?fill \<lparr>tp_id = fst fresh, tp_org = org, tp_created_by = user, tp_entity = entity_value ent,
        tp_name = name, tp_mapping = [], tp_constants = [], tp_columns = [], tp_created_at = snd fresh\<rparr>"
    have db': "db' = db @ [?t]" "v = view ?t" using assms(1) None by (auto simp: save_template_def Let_def)
    have t: "same_key org ent name ?t" by (simp add: same_key_def)
    then have "key_of ?t \<notin> set (map key_of db)"
      using None by (force simp: find_None_iff same_key_iff)
    then have "distinct (map key_of db')" using assms(2) by (simp add: db')
    moreover have "filter (\<lambda>t. \<not> same_key org ent name t) db' = filter (\<lambda>t. \<not> same_key org ent name t) db"
      using t by (simp add: db')
    ultimately show ?thesis using listed [of ?t] t del by (simp add: db') (simp add: view_def)
  next
    case (Some t)
    then have t: "t \<in> set db" "same_key org ent name t" by (auto simp: find_Some_iff)
    have db': "db' = map (\<lambda>u. if same_key org ent name u then ?fill u else u) db" "v = view (?fill t)"
      using assms(1) Some by (auto simp: save_template_def Let_def)
    have "?fill t \<in> set db'" using t by (force simp: db')
    moreover have s: "same_key org ent name (?fill u) = same_key org ent name u" for u by (simp add: same_key_def)
    moreover have "distinct (map key_of db')" using assms(2) map_key_fixed [of ?fill, OF k] by (simp only: db')
    moreover have "filter (\<lambda>t. \<not> same_key org ent name t) db' = filter (\<lambda>t. \<not> same_key org ent name t) db"
      unfolding db'(1) by (induction db) (simp_all add: s)
    ultimately show ?thesis using listed [of "?fill t"] t del by (simp add: db'(2)) (simp add: view_def same_key_def)
  qed
qed

theorem save_then_list_witness:
  "\<exists>db' v. save_template [sample_template ''a'' ''x'' [''Name'']] (''b'', 5) ''x'' ''u'' LEDGER ''a'' [(''name'', Some ''N''), (''pan'', None)] [] [''N''] = (db', v) \<and>
     tv_mapping v = [(''name'', ''N'')] \<and> length db' = 1"
proof -
  let ?db = "[sample_template ''a'' ''x'' [''Name'']]" and ?m = "[(''name'', Some ''N''), (''pan'', None)]"
  let ?u = "sample_template ''a'' ''x'' [''N'']\<lparr>tp_mapping := [(''name'', ''N'')]\<rparr>"
  have s: "save_template ?db (''b'', 5) ''x'' ''u'' LEDGER ''a'' ?m [] [''N''] = ([?u], view ?u)"
    by (simp add: save_template_def same_key_def sample_template_def clean_mapping_def view_def)
  have "distinct (map key_of ?db)" "rearranges id" by (simp_all add: rearranges_def)
  from save_then_list [OF s this] show ?thesis using s by (simp add: clean_mapping_def)
qed

end
