(* ===== verification/Mapping_Proposal.thy ===== *)
theory Mapping_Proposal
  imports Profiling
begin

text \<open>
  \<open>app/pipeline/mapping/__init__.py\<close> and \<open>catalog.py\<close>: the proposal which column of an upload feeds
  which canonical field.  The fuzzy ratio of two texts and the solver of the assignment problem are
  library code, and the catalogs are data files: they are parameters.  Scores are floats.
\<close>

section \<open>Catalog\<close>

record canonical_field =
  cf_key :: string
  cf_label :: string
  cf_dtype :: string
  cf_required :: bool
  cf_unique :: bool
  cf_synonyms :: "string list"

type_synonym catalog = "canonical_field list"

definition by_key :: "catalog \<Rightarrow> string \<Rightarrow> canonical_field option" where
  "by_key fs k = find (\<lambda>f. cf_key f = k) fs"

section \<open>Scores\<close>

record scorer =
  sc_ratio :: "string \<Rightarrow> string \<Rightarrow> rat"
  sc_assign :: "rat list list \<Rightarrow> (nat \<times> nat) list"

definition auto_accept :: rat where "auto_accept = fl (85 / 100)"

definition needs_confirm :: rat where "needs_confirm = fl (62 / 100)"

definition near_tie :: rat where "near_tie = fl (7 / 100)"

definition header_score :: "scorer \<Rightarrow> string \<Rightarrow> canonical_field \<Rightarrow> rat" where
  "header_score sc source field =
     (let scores = map (\<lambda>t. sc_ratio sc (norm_name source) (norm_name t)) (cf_label field # cf_key field # cf_synonyms field)
      in f_div (foldl max (hd scores) (tl scores)) 100)"

record source_stats =
  st_n :: nat
  st_numeric :: rat
  st_distinct :: rat
  st_null :: rat
  st_boolish :: rat

definition source_stats_of :: "cell list \<Rightarrow> source_stats" where
  "source_stats_of cells =
     (let tot = length cells; vs = non_blank cells; n = length vs in
      if n = 0 then \<lparr>st_n = 0, st_numeric = 0, st_distinct = 0, st_null = 1, st_boolish = 0\<rparr>
      else \<lparr>st_n = n, st_numeric = ratio (count_if is_number vs) n,
            st_distinct = ratio (length (dedup (map norm_name vs))) n,
            st_null = (if tot \<noteq> 0 then f_sub 1 (ratio n tot) else 0),
            st_boolish = ratio (count_if (\<lambda>v. norm_name v \<in> set boolish) vs) n\<rparr>)"

definition type_mult :: "canonical_field \<Rightarrow> source_stats \<Rightarrow> rat" where
  "type_mult field st =
     (if st_n st = 0 then 1
      else if cf_dtype field \<in> {''amount'', ''decimal'', ''integer''} then
        (if fl (8 / 10) \<le> st_numeric st then 1 else if fl (4 / 10) \<le> st_numeric st then fl (8 / 10) else fl (3 / 10))
      else if cf_dtype field = ''bool'' then (if fl (8 / 10) \<le> st_boolish st then 1 else fl (5 / 10))
      else if cf_unique field then
        (if fl (95 / 100) \<le> st_distinct st \<and> st_null st \<le> fl (5 / 100) then 1
         else if st_distinct st < fl (5 / 10) then fl (6 / 10) else fl (9 / 10))
      else 1)"

datatype map_status = Auto_Accept | Needs_Confirm | Unmapped

definition status_of :: "canonical_field \<Rightarrow> rat \<Rightarrow> rat list \<Rightarrow> map_status" where
  "status_of field best ranked =
     (let tie = (case ranked of a # b # _ \<Rightarrow> f_sub a b < near_tie \<and> needs_confirm \<le> b | _ \<Rightarrow> False);
          status = (if auto_accept \<le> best then (if tie then Needs_Confirm else Auto_Accept)
                    else if needs_confirm \<le> best then Needs_Confirm else Unmapped)
      in if status \<noteq> Unmapped \<and> cf_required field \<and> status = Auto_Accept then Needs_Confirm else status)"

section \<open>The proposal\<close>

datatype map_method = Fuzzy | Template

record suggestion =
  sg_target :: string
  sg_label :: string
  sg_required :: bool
  sg_source :: "string option"
  sg_confidence :: rat
  sg_status :: map_status
  sg_method :: map_method
  sg_alternatives :: "(string \<times> rat) list"

record proposal =
  mp_entity :: entity_type
  mp_suggestions :: "suggestion list"
  mp_unmapped_sources :: "string list"
  mp_unmapped_required :: "string list"
  mp_applied_template :: "string option"
  mp_applied_constants :: "(string, string) dict"

definition ranked_sources :: "rat list \<Rightarrow> nat list" where
  "ranked_sources conf = sort_key (\<lambda>si. - (conf ! si)) [0..<length conf]"

definition suggestion_for ::
    "string list \<Rightarrow> (nat \<rightharpoonup> nat) \<Rightarrow> nat \<Rightarrow> canonical_field \<Rightarrow> rat list \<Rightarrow> suggestion \<times> nat option" where
  \<comment> \<open>one field: the suggestion and the source it uses; \<open>conf\<close> is the field's row of scores\<close>
  "suggestion_for sources assignment ti field conf =
     (let ranked = ranked_sources conf; best_si = assignment ti;
          best = (case best_si of None \<Rightarrow> 0 | Some si \<Rightarrow> conf ! si);
          taken = (case best_si of None \<Rightarrow> None | Some si \<Rightarrow> if needs_confirm \<le> best then Some si else None)
      in (\<lparr>sg_target = cf_key field, sg_label = cf_label field, sg_required = cf_required field,
           sg_source = map_option (\<lambda>si. sources ! si) taken, sg_confidence = round4 best,
           sg_status = (if taken = None then Unmapped else status_of field best (map (\<lambda>si. conf ! si) ranked)),
           sg_method = Fuzzy,
           sg_alternatives = take 3 (map (\<lambda>si. (sources ! si, round4 (conf ! si)))
             (filter (\<lambda>si. best_si \<noteq> Some si) (take 4 ranked)))\<rparr>, taken))"

definition unmapped_required_of :: "suggestion list \<Rightarrow> string list" where
  "unmapped_required_of ss = map sg_target (filter (\<lambda>s. sg_required s \<and> sg_source s = None) ss)"

definition conf_matrix :: "scorer \<Rightarrow> catalog \<Rightarrow> string list \<Rightarrow> source_stats list \<Rightarrow> rat list list" where
  "conf_matrix sc cat sources stats =
     map (\<lambda>field. map (\<lambda>(col, st). f_mul (type_mult field st) (header_score sc col field)) (zip sources stats)) cat"

definition assignment_of :: "scorer \<Rightarrow> catalog \<Rightarrow> string list \<Rightarrow> rat list list \<Rightarrow> nat \<rightharpoonup> nat" where
  "assignment_of sc cat sources conf =
     (if cat = [] \<or> sources = [] then Map.empty
      else map_of (rev (sc_assign sc (map (map uminus) conf))))"

definition auto_map :: "scorer \<Rightarrow> catalog \<Rightarrow> frame \<Rightarrow> entity_type \<Rightarrow> proposal res" where
  "auto_map sc cat f ent =
     (let sources = fr_cols f in
      rbind (map_res (column f) sources) (\<lambda>cols.
        let conf = conf_matrix sc cat sources (map source_stats_of cols);
            assignment = assignment_of sc cat sources conf;
            both = map (\<lambda>ti. suggestion_for sources assignment ti (cat ! ti) (conf ! ti)) [0..<length cat];
            suggestions = map fst both;
            used = set (concat (map (\<lambda>b. case snd b of None \<Rightarrow> [] | Some si \<Rightarrow> [si]) both))
        in Inr \<lparr>mp_entity = ent, mp_suggestions = suggestions,
                mp_unmapped_sources = map (\<lambda>si. sources ! si) (filter (\<lambda>si. si \<notin> used) [0..<length sources]),
                mp_unmapped_required = unmapped_required_of suggestions,
                mp_applied_template = None, mp_applied_constants = []\<rparr>))"

definition map_ok :: "proposal \<Rightarrow> bool" where
  "map_ok p \<longleftrightarrow> mp_unmapped_required p = []"

definition map_stats :: "proposal \<Rightarrow> nat \<Rightarrow> (string, nat) dict" where
  "map_stats p n =
     [(''sources'', n), (''auto_accepted'', count_if (\<lambda>s. sg_status s = Auto_Accept) (mp_suggestions p)),
      (''needs_confirm'', count_if (\<lambda>s. sg_status s = Needs_Confirm) (mp_suggestions p))]"

record column_mapping =
  cm_source :: string
  cm_target :: string
  cm_confidence :: rat
  cm_method :: map_method

definition to_plan :: "proposal \<Rightarrow> column_mapping list" where
  "to_plan p =
     map (\<lambda>s. \<lparr>cm_source = the (sg_source s), cm_target = sg_target s, cm_confidence = sg_confidence s, cm_method = Fuzzy\<rparr>)
       (filter (\<lambda>s. sg_source s \<noteq> None) (mp_suggestions p))"

section \<open>Properties\<close>

text \<open>What the solver promises: a matching of rows with columns of the matrix.\<close>

definition matching :: "nat \<Rightarrow> (nat \<times> nat) list \<Rightarrow> bool" where
  "matching ncols ps \<longleftrightarrow> distinct (map fst ps) \<and> distinct (map snd ps) \<and> (\<forall>(r, c)\<in>set ps. c < ncols)"

definition solves_assignment :: "scorer \<Rightarrow> bool" where
  "solves_assignment sc \<longleftrightarrow> (\<forall>m. m \<noteq> [] \<longrightarrow> hd m \<noteq> [] \<longrightarrow> matching (length (hd m)) (sc_assign sc m))"

lemma map_of_rev_distinct:
  assumes "distinct (map fst ps)" shows "map_of (rev ps) = map_of ps"
proof
  fix x
  show "map_of (rev ps) x = map_of ps x"
  proof (cases "map_of ps x")
    case None
    then show ?thesis by (metis map_of_eq_None_iff set_rev)
  next
    case (Some y)
    then have "(x, y) \<in> set (rev ps)" by (simp add: map_of_SomeD)
    then show ?thesis using Some assms by (intro trans [OF map_of_is_SomeI]) (simp_all add: rev_map [symmetric])
  qed
qed

lemma assignment_inj:
  assumes "solves_assignment sc" "length conf = length cat" "\<forall>c\<in>set conf. length c = length sources"
    and "a = assignment_of sc cat sources conf"
  shows "a i = Some k \<Longrightarrow> k < length sources" "a i = Some k \<Longrightarrow> a j = Some k \<Longrightarrow> i = j"
proof -
  let ?m = "map (map uminus) conf"
  have m: "matching (length sources) (sc_assign sc ?m)" if "cat \<noteq> []" "sources \<noteq> []"
  proof -
    have "?m \<noteq> []" "length (hd ?m) = length sources"
      using that assms(2,3) by (cases conf; simp)+
    then show ?thesis using assms(1) that unfolding solves_assignment_def
      by (metis length_0_conv)
  qed
  have s: "(i, k) \<in> set (sc_assign sc ?m) \<and> matching (length sources) (sc_assign sc ?m)" if "a i = Some k" for i k
    using that m by (auto simp: assms(4) assignment_of_def split: if_splits dest: map_of_SomeD)
  show "a i = Some k \<Longrightarrow> k < length sources" using s by (fastforce simp: matching_def)
  show "a i = Some k \<Longrightarrow> a j = Some k \<Longrightarrow> i = j"
    using s [of i k] s [of j k] by (auto simp: matching_def) (metis distinct_map inj_onD prod.inject snd_conv)
qed

lemma status_of_auto:
  "cf_required field \<Longrightarrow> status_of field best rs \<noteq> Auto_Accept"
  "status_of field best rs = Auto_Accept \<Longrightarrow> auto_accept \<le> best"
  by (simp_all add: status_of_def Let_def split: if_splits)

lemma status_of_mapped: "needs_confirm \<le> best \<Longrightarrow> status_of field best rs \<noteq> Unmapped"
  by (simp add: status_of_def Let_def)

lemma suggestion_taken:
  assumes "suggestion_for sources a ti field conf = (s, taken)"
  shows "sg_target s = cf_key field" "sg_required s = cf_required field"
    "sg_source s = map_option (\<lambda>si. sources ! si) taken"
    "taken = Some si \<Longrightarrow> a ti = Some si \<and> needs_confirm \<le> conf ! si"
    "sg_status s = Unmapped \<longleftrightarrow> taken = None"
    "sg_required s \<Longrightarrow> sg_status s \<noteq> Auto_Accept"
    "sg_status s = Auto_Accept \<Longrightarrow> taken = Some si \<Longrightarrow> auto_accept \<le> conf ! si"
proof -
  define best where "best = (case a ti of None \<Rightarrow> 0 | Some si \<Rightarrow> conf ! si)"
  have t: "taken = (case a ti of None \<Rightarrow> None | Some si \<Rightarrow> if needs_confirm \<le> best then Some si else None)"
    and st: "sg_status s = (if taken = None then Unmapped else status_of field best (map (\<lambda>si. conf ! si) (ranked_sources conf)))"
    using assms by (cases "a ti"; auto simp: suggestion_for_def Let_def best_def)+
  have b: "best = conf ! si \<and> a ti = Some si \<and> needs_confirm \<le> best" if "taken = Some si" for si
    using that by (auto simp: t best_def split: option.splits if_splits)
  show "sg_target s = cf_key field" "sg_required s = cf_required field" "sg_source s = map_option (\<lambda>si. sources ! si) taken"
    using assms by (cases "a ti"; auto simp: suggestion_for_def Let_def)+
  then show "sg_required s \<Longrightarrow> sg_status s \<noteq> Auto_Accept" by (simp add: st status_of_auto)
  show "taken = Some si \<Longrightarrow> a ti = Some si \<and> needs_confirm \<le> conf ! si" using b by metis
  show "sg_status s = Unmapped \<longleftrightarrow> taken = None" using b status_of_mapped by (cases taken) (auto simp: st)
  show "sg_status s = Auto_Accept \<Longrightarrow> taken = Some si \<Longrightarrow> auto_accept \<le> conf ! si"
    using b status_of_auto(2) by (simp add: st)
qed

lemma auto_map_nth:
  assumes "auto_map sc cat f ent = Inr p"
  obtains conf t where "length conf = length cat" "\<forall>c\<in>set conf. length c = length (fr_cols f)"
    and "length (mp_suggestions p) = length cat"
    and "\<forall>i<length cat.
      suggestion_for (fr_cols f) (assignment_of sc cat (fr_cols f) conf) i (cat ! i) (conf ! i) = (mp_suggestions p ! i, t i)"
    and "set (mp_unmapped_sources p) = {fr_cols f ! k |k. k < length (fr_cols f) \<and> (\<forall>i<length cat. t i \<noteq> Some k)}"
    and "mp_unmapped_required p = unmapped_required_of (mp_suggestions p)"
proof -
  let ?S = "fr_cols f"
  from assms obtain cols where cols: "map_res (column f) ?S = Inr cols"
    by (auto simp: auto_map_def Let_def rbind_Inr)
  then have len: "length cols = length ?S" by (simp add: map_res_Inr list_all2_lengthD)
  let ?conf = "conf_matrix sc cat ?S (map source_stats_of cols)"
  let ?a = "assignment_of sc cat ?S ?conf"
  let ?b = "\<lambda>i. suggestion_for ?S ?a i (cat ! i) (?conf ! i)"
  have p: "mp_suggestions p = map (fst \<circ> ?b) [0..<length cat]"
    "mp_unmapped_sources p = map (\<lambda>si. ?S ! si)
       (filter (\<lambda>si. si \<notin> set (concat (map (\<lambda>b. case snd b of None \<Rightarrow> [] | Some si \<Rightarrow> [si]) (map ?b [0..<length cat])))) [0..<length ?S])"
    "mp_unmapped_required p = unmapped_required_of (mp_suggestions p)"
    using assms cols by (auto simp: auto_map_def Let_def)
  have u: "si \<in> set (concat (map (\<lambda>b. case snd b of None \<Rightarrow> [] | Some si \<Rightarrow> [si]) (map ?b [0..<length cat]))) \<longleftrightarrow>
      (\<exists>i<length cat. snd (?b i) = Some si)" for si
    by (force split: option.splits)
  show ?thesis
  proof (rule that [of ?conf "\<lambda>i. snd (?b i)"])
    show "length ?conf = length cat" "\<forall>c\<in>set ?conf. length c = length ?S"
      using len by (auto simp: conf_matrix_def)
    show "set (mp_unmapped_sources p) = {?S ! k |k. k < length ?S \<and> (\<forall>i<length cat. snd (?b i) \<noteq> Some k)}"
      unfolding p(2) set_map set_filter u by auto
  qed (use p in \<open>simp_all add: p\<close>)
qed


definition sample_scorer :: scorer where
  "sample_scorer =
     \<lparr>sc_ratio = (\<lambda>s t. if s = t then 100 else 0),
      sc_assign = (\<lambda>m. zip [0..<min (length m) (length (hd m))] [0..<min (length m) (length (hd m))])\<rparr>"

definition sample_catalog :: catalog where
  "sample_catalog =
     [\<lparr>cf_key = ''name'', cf_label = ''Name'', cf_dtype = ''string'', cf_required = True, cf_unique = False, cf_synonyms = []\<rparr>,
      \<lparr>cf_key = ''gstin'', cf_label = ''GSTIN'', cf_dtype = ''string'', cf_required = False, cf_unique = False, cf_synonyms = []\<rparr>]"

lemma sample_solves: "solves_assignment sample_scorer"
  by (auto simp: solves_assignment_def matching_def sample_scorer_def set_zip)


end
