(* ===== verification/Validation.thy ===== *)
theory Validation
  imports Vouchers GroupOrder Parsing
begin

text \<open>
  \<open>app/pipeline/validation\<close>: the schema of each kind of master, the failures of a table turned into
  envelopes, the check for cycles among groups and the validation of vouchers.

  The schema library and the fuzzy matcher are parameters: \<open>va_run\<close> lists the failure cases of a
  table against a schema, \<open>va_matches\<close> is its regular expression test and \<open>va_extract\<close> the best of
  some choices for a text, if one scores 80.  What the code relies on, that a cell that fails a check
  is listed under the name of the check, is the predicate \<open>reports_failures\<close>.
\<close>

section \<open>Schemas\<close>

datatype check = Str_length nat nat | Is_in "string list" | Str_matches string | Decimal_parseable | Unit_symbol

record column_spec =
  cs_nullable :: bool
  cs_unique :: bool
  cs_required :: bool
  cs_checks :: "check list"

type_synonym schema = "(string \<times> column_spec) list"

record known_values =
  kn_groups :: "string list option"
  kn_units :: "string list option"
  kn_states :: "string list option"
  kn_stock_groups :: "string list option"

definition gstin_re :: string where
  "gstin_re = ''^[0-9]{2}[A-Z]{5}[0-9]{4}[A-Z]{1}[1-9A-Z]{1}Z[0-9A-Z]{1}$''"

definition pan_re :: string where "pan_re = ''^[A-Z]{5}[0-9]{4}[A-Z]$''"

definition hsn_re :: string where "hsn_re = ''^[0-9]{4,8}$''"

definition pincode_re :: string where "pincode_re = ''^[0-9]{6}$''"

definition email_re :: string where "email_re = ''^[^@'' @ [char_of (92::nat)] @ ''s]+@[^@'' @ [char_of (92::nat)] @ ''s]+'' @ [char_of (92::nat)] @ ''.[^@'' @ [char_of (92::nat)] @ ''s]+$''"

definition max_name_len :: nat where "max_name_len = 100"

definition choices_of :: "string list option \<Rightarrow> string list option" where
  \<comment> \<open>\<open>sorted(set(values))\<close>, if there are any\<close>
  "choices_of vs = (case vs of None \<Rightarrow> None | Some xs \<Rightarrow> if xs = [] then None else Some (sort (remdups xs)))"

definition isin_or_empty :: "string list option \<Rightarrow> check list" where
  "isin_or_empty vs = (case choices_of vs of None \<Rightarrow> [] | Some xs \<Rightarrow> [Is_in xs])"

definition name_column :: "check list \<Rightarrow> column_spec" where
  "name_column extra =
     \<lparr>cs_nullable = False, cs_unique = True, cs_required = True, cs_checks = Str_length 1 max_name_len # extra\<rparr>"

definition required_column :: "check list \<Rightarrow> column_spec" where
  "required_column cs = \<lparr>cs_nullable = False, cs_unique = False, cs_required = True, cs_checks = cs\<rparr>"

definition optional_column :: "check list \<Rightarrow> column_spec" where
  "optional_column cs = \<lparr>cs_nullable = True, cs_unique = False, cs_required = False, cs_checks = cs\<rparr>"

definition is_decimal :: "string \<Rightarrow> bool" where
  "is_decimal v \<longleftrightarrow> dec_of_string (strip (filter (\<lambda>c. c \<noteq> CHR '','') v)) \<noteq> None"

definition ledger_columns :: "known_values \<Rightarrow> schema" where
  "ledger_columns kn =
     [(''name'', name_column []), (''parent'', required_column (isin_or_empty (kn_groups kn))),
      (''opening_balance'', optional_column [Decimal_parseable]),
      (''opening_balance_drcr'', optional_column [Is_in [''Dr'', ''Cr'', ''DR'', ''CR'', ''dr'', ''cr'', '''']]),
      (''gstin'', optional_column [Str_matches gstin_re]), (''pan'', optional_column [Str_matches pan_re]),
      (''state'', optional_column (isin_or_empty (kn_states kn))),
      (''email'', optional_column [Str_matches email_re]), (''pincode'', optional_column [Str_matches pincode_re]),
      (''credit_limit'', optional_column [Decimal_parseable])]"

definition build_schema :: "entity_type \<Rightarrow> known_values \<Rightarrow> schema res" where
  "build_schema ent kn =
     (case ent of
        LEDGER \<Rightarrow> Inr (ledger_columns kn)
      | GROUP \<Rightarrow> Inr [(''name'', name_column []), (''parent'', required_column [])]
      | STOCK_ITEM \<Rightarrow> Inr
          [(''name'', name_column []), (''base_units'', required_column (isin_or_empty (kn_units kn))),
           (''parent'', optional_column (isin_or_empty (kn_stock_groups kn))),
           (''hsn'', optional_column [Str_matches hsn_re]), (''opening_qty'', optional_column [Decimal_parseable]),
           (''opening_rate'', optional_column [Decimal_parseable]),
           (''opening_value'', optional_column [Decimal_parseable]), (''gst_rate'', optional_column [Decimal_parseable])]
      | UNIT \<Rightarrow> Inr
          [(''name'', name_column [Unit_symbol]), (''decimal_places'', optional_column [Decimal_parseable]),
           (''conversion'', optional_column [Decimal_parseable])]
      | VOUCHER \<Rightarrow> Inl ValueError)"

section \<open>Failures\<close>

record failure =
  fc_column :: "string option"
  fc_check :: "string option"
  fc_case :: "string option"
  fc_index :: "nat option"

record validator =
  va_run :: "schema \<Rightarrow> frame \<Rightarrow> failure list"
  va_matches :: "string \<Rightarrow> string \<Rightarrow> bool"
  va_extract :: "string \<Rightarrow> string list \<Rightarrow> string option"

definition suggest :: "validator \<Rightarrow> string \<Rightarrow> string list option \<Rightarrow> string option" where
  "suggest va v choices =
     (case choices of None \<Rightarrow> None
      | Some xs \<Rightarrow> if xs = [] \<or> v = '''' then None
          else (case va_extract va v xs of None \<Rightarrow> None
                | Some m \<Rightarrow> Some (''Did you mean '' @ [char_of (39::nat)] @ m @ [char_of (39::nat)] @ ''?'')))"

definition classify ::
    "validator \<Rightarrow> failure \<Rightarrow> entity_type \<Rightarrow> (string \<rightharpoonup> string list) \<Rightarrow> error_code \<times> severity \<times> string option" where
  "classify va f ent sets =
     (let col = (case fc_column f of None \<Rightarrow> ''(table)'' | Some c \<Rightarrow> if c = '''' then ''(table)'' else c);
          check = (case fc_check f of None \<Rightarrow> '''' | Some c \<Rightarrow> c);
          fc = (case fc_case f of None \<Rightarrow> '''' | Some s \<Rightarrow> s)
      in if starts_with ''column_in_dataframe'' check then (MISSING_COLUMN, Sev_Error, None)
         else if check = ''not_nullable'' then (REQUIRED_MISSING, Sev_Error, None)
         else if check = ''field_uniqueness'' then (DUPLICATE_IN_FILE, Sev_Error, None)
         else if starts_with ''str_length'' check then (NAME_TOO_LONG, Sev_Error, None)
         else if check = ''unit_symbol'' then (BAD_UNIT_NAME, Sev_Error, None)
         else if starts_with ''isin'' check then
           (let (code, sev) =
              (if col = ''parent'' \<and> ent \<in> {LEDGER, GROUP} then (UNKNOWN_GROUP, Sev_Error)
               else if col = ''base_units'' then (UNKNOWN_UNIT, Sev_Error)
               else (VALUE_NOT_ALLOWED, Sev_Warning))
            in (code, sev, suggest va fc (sets col)))
         else if starts_with ''str_matches'' check then
           (if col = ''gstin'' then BAD_GSTIN else if col = ''pan'' then BAD_PAN
            else if col = ''hsn'' then BAD_HSN else VALUE_NOT_ALLOWED, Sev_Warning, None)
         else if check = ''decimal_parseable'' then (BAD_DECIMAL, Sev_Warning, None)
         else (VALIDATION_ERROR, Sev_Error, None))"

definition source_row :: "nat option \<Rightarrow> nat option" where
  "source_row i = map_option Suc i"

definition failure_envelope ::
    "validator \<Rightarrow> entity_type \<Rightarrow> (string \<rightharpoonup> string list) \<Rightarrow> failure \<Rightarrow> envelope" where
  "failure_envelope va ent sets f =
     (let (code, sev, sugg) = classify va f ent sets
      in \<lparr>e_code = code, e_severity = sev, e_stage = VALIDATE, e_entity = Some ent, e_row = source_row (fc_index f),
          e_column = fc_column f, e_target = fc_column f, e_suggestion = sugg\<rparr>)"

section \<open>Cycles among groups\<close>

definition group_named :: "string \<Rightarrow> string \<Rightarrow> group_master res" where
  \<comment> \<open>the model class with its defaults\<close>
  "group_named name parent =
     rbind (strip_name name) (\<lambda>n.
       Inr (master_base.extend
              \<lparr>m_source_row = None, m_name = n, m_action = CREATE, m_guid = None, m_master_id = None,
               m_alter_id = None, m_old_name = None\<rparr>
              (group_master.fields parent None None None None)))"

definition group_of_record :: "row \<Rightarrow> group_master list res" where
  \<comment> \<open>one turn of the loop: a row without a name adds no group\<close>
  "group_of_record r =
     (let name = rget r ''name'' in
      if is_null name \<or> strip (py_str name) = '''' then Inr []
      else let parent = rget r ''parent'' in
        rbind (group_named (py_str name) (if is_null parent then ''Primary'' else py_str parent)) (\<lambda>g. Inr [g]))"

definition groups_of :: "frame \<Rightarrow> group_master list res" where
  "groups_of f = rbind (foldM (\<lambda>r gs. rbind (group_of_record r) (\<lambda>g. Inr (gs @ g))) (records f) []) Inr"

definition cycle_envelope :: envelope where
  "cycle_envelope =
     \<lparr>e_code = GROUP_CYCLE, e_severity = Sev_Error, e_stage = VALIDATE, e_entity = Some GROUP, e_row = None,
      e_column = None, e_target = None, e_suggestion = None\<rparr>"

definition detect_group_cycle :: "frame \<Rightarrow> envelope list res" where
  "detect_group_cycle f =
     (if ''name'' \<notin> set (fr_cols f) \<or> ''parent'' \<notin> set (fr_cols f) then Inr []
      else rbind (groups_of f) (\<lambda>gs.
        case topological_sort_groups gs of
          Inr _ \<Rightarrow> Inr []
        | Inl e \<Rightarrow> if e = ValueError then Inr [cycle_envelope] else Inl e))"

section \<open>The stage\<close>

text \<open>All cells as text without surrounding space, blank ones as nulls.\<close>

definition text_cell :: "cell \<Rightarrow> cell" where
  "text_cell c = (if is_null c \<or> strip (py_str c) = '''' then CNA else CStr (strip (py_str c)))"

definition work_frame :: "frame \<Rightarrow> frame" where
  "work_frame f = \<lparr>fr_cols = fr_cols f, fr_rows = map (map text_cell) (fr_rows f)\<rparr>"

definition count_sev :: "severity \<Rightarrow> envelope list \<Rightarrow> nat" where
  "count_sev s es = length (filter (\<lambda>e. e_severity e = s) es)"

definition validate_vouchers :: "date_parser \<Rightarrow> frame \<Rightarrow> frame \<Rightarrow> stage_result res" where
  "validate_vouchers pd work original =
     (case rows_to_vouchers pd VALIDATE (records work) [] of
        (Inl x, _) \<Rightarrow> Inl x
      | (Inr vs, es) \<Rightarrow> Inr
          \<lparr>r_ok = (count_sev Sev_Error es = 0), r_stage = VALIDATE, r_errors = es,
           r_stats = [(''rows_in'', length (fr_rows original)), (''vouchers'', length vs),
                      (''error_count'', count_sev Sev_Error es), (''warning_count'', count_sev Sev_Warning es)]\<rparr>)"

definition suggestion_sets :: "entity_type \<Rightarrow> known_values \<Rightarrow> string \<rightharpoonup> string list" where
  "suggestion_sets ent kn c =
     (if c = ''parent'' then
        (if ent \<in> {LEDGER, GROUP} \<and> choices_of (kn_groups kn) \<noteq> None then choices_of (kn_groups kn)
         else choices_of (kn_stock_groups kn))
      else if c = ''base_units'' then choices_of (kn_units kn)
      else if c = ''state'' then choices_of (kn_states kn)
      else None)"

definition validate :: "validator \<Rightarrow> date_parser \<Rightarrow> frame \<Rightarrow> entity_type \<Rightarrow> known_values \<Rightarrow> stage_result res" where
  "validate va pd f ent kn =
     (let work = work_frame f in
      if ent = VOUCHER then validate_vouchers pd work f
      else
        rbind (build_schema ent kn) (\<lambda>sch.
        rbind (if ent = GROUP then detect_group_cycle work else Inr []) (\<lambda>cycle.
          let es = map (failure_envelope va ent (suggestion_sets ent kn)) (va_run va sch work) @ cycle
          in Inr \<lparr>r_ok = (count_sev Sev_Error es = 0), r_stage = VALIDATE, r_errors = es,
                  r_stats = [(''rows_in'', length (fr_rows f)), (''error_count'', count_sev Sev_Error es),
                             (''warning_count'', count_sev Sev_Warning es)]\<rparr>)))"

section \<open>What the schema library promises\<close>

fun passes :: "validator \<Rightarrow> check \<Rightarrow> string \<Rightarrow> bool" where
  "passes va (Str_length lo hi) v \<longleftrightarrow> lo \<le> length v \<and> length v \<le> hi"
| "passes va (Is_in xs) v \<longleftrightarrow> v \<in> set xs"
| "passes va (Str_matches re) v \<longleftrightarrow> va_matches va re v"
| "passes va Decimal_parseable v \<longleftrightarrow> is_decimal v"
| "passes va Unit_symbol v \<longleftrightarrow> \<not> list_ex is_space v"

fun check_label :: "check \<Rightarrow> string" where
  "check_label (Str_length lo hi) = ''str_length''"
| "check_label (Is_in xs) = ''isin''"
| "check_label (Str_matches re) = ''str_matches''"
| "check_label Decimal_parseable = ''decimal_parseable''"
| "check_label Unit_symbol = ''unit_symbol''"

text \<open>The label stands alone for a named check and is followed by the arguments for the others.\<close>

definition names_check :: "check \<Rightarrow> string \<Rightarrow> bool" where
  "names_check c t \<longleftrightarrow> (if c = Decimal_parseable \<or> c = Unit_symbol then t = check_label c
                        else starts_with (check_label c @ ''('') t)"

definition failed_at :: "failure list \<Rightarrow> string \<Rightarrow> (string \<Rightarrow> bool) \<Rightarrow> bool" where
  "failed_at fs col P \<longleftrightarrow> (\<exists>f\<in>set fs. fc_column f = Some col \<and> (\<exists>t. fc_check f = Some t \<and> P t))"

definition reports_failures :: "validator \<Rightarrow> bool" where
  "reports_failures va \<longleftrightarrow> (\<forall>sch f col spec cells. (col, spec) \<in> set sch \<longrightarrow>
     (col \<notin> set (fr_cols f) \<longrightarrow> cs_required spec \<longrightarrow>
        (\<exists>x\<in>set (va_run va sch f). \<exists>t. fc_check x = Some t \<and> starts_with ''column_in_dataframe'' t)) \<and>
     (column f col = Inr cells \<longrightarrow>
        (\<not> cs_nullable spec \<longrightarrow> list_ex is_null cells \<longrightarrow> failed_at (va_run va sch f) col (\<lambda>t. t = ''not_nullable'')) \<and>
        (cs_unique spec \<longrightarrow> \<not> distinct (filter (\<lambda>c. \<not> is_null c) cells) \<longrightarrow>
           failed_at (va_run va sch f) col (\<lambda>t. t = ''field_uniqueness'')) \<and>
        (\<forall>c\<in>set (cs_checks spec). list_ex (\<lambda>x. \<not> is_null x \<and> \<not> passes va c (py_str x)) cells \<longrightarrow>
           failed_at (va_run va sch f) col (names_check c))))"

section \<open>What a table that passes looks like\<close>

lemma starts_with_eq: "starts_with p s \<longleftrightarrow> (\<exists>r. s = p @ r)"
  unfolding starts_with_def by (metis append_eq_conv_conj append_take_drop_id)

text \<open>The failures that block.\<close>

definition blocking :: "validator \<Rightarrow> entity_type \<Rightarrow> (string \<rightharpoonup> string list) \<Rightarrow> failure \<Rightarrow> bool" where
  "blocking va ent sets f \<longleftrightarrow> fst (snd (classify va f ent sets)) = Sev_Error"

lemma blocking_missing:
  "fc_check f = Some t \<Longrightarrow> starts_with ''column_in_dataframe'' t \<Longrightarrow> blocking va ent sets f"
  by (simp add: blocking_def classify_def Let_def)

lemma blocking_exact:
  assumes "fc_check f = Some t" "t \<in> {''not_nullable'', ''field_uniqueness''}"
  shows "blocking va ent sets f"
  using assms by (auto simp: blocking_def classify_def Let_def starts_with_def)

lemma blocking_label:
  assumes "fc_check f = Some t" "names_check c t" "fc_column f = Some col"
    and "(\<exists>lo hi. c = Str_length lo hi) \<or> c = Unit_symbol \<or>
      (\<exists>xs. c = Is_in xs) \<and> (col = ''base_units'' \<or> col = ''parent'' \<and> ent \<in> {LEDGER, GROUP})"
  shows "blocking va ent sets f"
proof (cases c)
  case (Str_length lo hi)
  then obtain rest where "t = ''str_length('' @ rest" using assms(2) by (auto simp: names_check_def starts_with_eq)
  then show ?thesis using assms(1) by (simp add: blocking_def classify_def Let_def starts_with_def)
next
  case (Is_in xs)
  then obtain rest where t: "t = ''isin('' @ rest" using assms(2) by (auto simp: names_check_def starts_with_eq)
  have "col = ''base_units'' \<or> col = ''parent'' \<and> ent \<in> {LEDGER, GROUP}" using assms(4) Is_in by simp
  then show ?thesis using assms(1,3) t by (elim disjE; simp add: blocking_def classify_def Let_def starts_with_def)
next
  case Unit_symbol
  then have "t = ''unit_symbol''" using assms(2) by (simp add: names_check_def)
  then show ?thesis using assms(1) by (simp add: blocking_def classify_def Let_def starts_with_def)
qed (use assms(4) in simp_all)

lemma envelope_severity: "e_severity (failure_envelope va ent sets f) = fst (snd (classify va f ent sets))"
  by (simp add: failure_envelope_def split: prod.split)

lemma detect_group_cycle_cases:
  assumes "detect_group_cycle f = Inr c"
  shows "c = [] \<or> c = [cycle_envelope]"
    "c = [] \<Longrightarrow> ''name'' \<in> set (fr_cols f) \<Longrightarrow> ''parent'' \<in> set (fr_cols f) \<Longrightarrow>
       \<exists>gs os. groups_of f = Inr gs \<and> topological_sort_groups gs = Inr os"
proof -
  have "c = [] \<or> c = [cycle_envelope]" "c = [] \<Longrightarrow> ''name'' \<in> set (fr_cols f) \<Longrightarrow> ''parent'' \<in> set (fr_cols f) \<Longrightarrow>
       \<exists>gs os. groups_of f = Inr gs \<and> topological_sort_groups gs = Inr os"
    if "groups_of f = Inr gs" for gs
    using assms that by (cases "topological_sort_groups gs"; auto simp: detect_group_cycle_def split: if_splits)+
  then show "c = [] \<or> c = [cycle_envelope]"
    "c = [] \<Longrightarrow> ''name'' \<in> set (fr_cols f) \<Longrightarrow> ''parent'' \<in> set (fr_cols f) \<Longrightarrow>
       \<exists>gs os. groups_of f = Inr gs \<and> topological_sort_groups gs = Inr os"
    using assms by (cases "groups_of f"; auto simp: detect_group_cycle_def split: if_splits)+
qed

lemma validate_ok_cases:
  assumes "validate va pd f ent kn = Inr r" "r_ok r" "ent \<noteq> VOUCHER"
  obtains sch where "build_schema ent kn = Inr sch"
    and "\<forall>x\<in>set (va_run va sch (work_frame f)). \<not> blocking va ent (suggestion_sets ent kn) x"
    and "ent = GROUP \<longrightarrow> detect_group_cycle (work_frame f) = Inr []"
proof -
  from assms obtain sch cycle where s: "build_schema ent kn = Inr sch"
      "(if ent = GROUP then detect_group_cycle (work_frame f) else Inr []) = Inr cycle"
    and z: "count_sev Sev_Error (map (failure_envelope va ent (suggestion_sets ent kn))
        (va_run va sch (work_frame f)) @ cycle) = 0"
    by (auto simp: validate_def Let_def rbind_Inr)
  have "\<forall>x\<in>set (va_run va sch (work_frame f)). \<not> blocking va ent (suggestion_sets ent kn) x"
    using z by (auto simp: count_sev_def filter_empty_conv envelope_severity blocking_def)
  moreover have "cycle = []" if "ent = GROUP"
  proof -
    have "cycle = [] \<or> cycle = [cycle_envelope]" using s(2) that detect_group_cycle_cases(1) by simp
    then show ?thesis using z by (auto simp: count_sev_def cycle_envelope_def)
  qed
  ultimately show ?thesis using that s by (cases "ent = GROUP") simp_all
qed

lemma passed_column:
  assumes rep: "reports_failures va" and col: "(c, spec) \<in> set sch"
    and ok: "\<forall>x\<in>set (va_run va sch g). \<not> blocking va ent sets x"
  shows "cs_required spec \<Longrightarrow> c \<in> set (fr_cols g)"
    and "column g c = Inr cells \<Longrightarrow> \<not> cs_nullable spec \<Longrightarrow> x \<in> set cells \<Longrightarrow> \<not> is_null x"
    and "column g c = Inr cells \<Longrightarrow> cs_unique spec \<Longrightarrow> distinct (filter (\<lambda>c. \<not> is_null c) cells)"
    and "column g c = Inr cells \<Longrightarrow> k \<in> set (cs_checks spec) \<Longrightarrow> x \<in> set cells \<Longrightarrow> \<not> is_null x \<Longrightarrow>
      (\<exists>lo hi. k = Str_length lo hi) \<or> k = Unit_symbol \<or>
        (\<exists>xs. k = Is_in xs) \<and> (c = ''base_units'' \<or> c = ''parent'' \<and> ent \<in> {LEDGER, GROUP}) \<Longrightarrow>
      passes va k (py_str x)"
proof -
  note r = rep [unfolded reports_failures_def, rule_format, OF col, of g]
  show "cs_required spec \<Longrightarrow> c \<in> set (fr_cols g)"
    using r ok blocking_missing by meson
  have ex: False if "failed_at (va_run va sch g) c P" "\<And>t f. P t \<Longrightarrow> fc_check f = Some t \<Longrightarrow> fc_column f = Some c \<Longrightarrow> blocking va ent sets f" for P
    using that ok unfolding failed_at_def by blast
  show "column g c = Inr cells \<Longrightarrow> \<not> cs_nullable spec \<Longrightarrow> x \<in> set cells \<Longrightarrow> \<not> is_null x"
    using r [of cells] ex [of "\<lambda>t. t = ''not_nullable''"] blocking_exact by (auto simp: list_ex_iff)
  show "column g c = Inr cells \<Longrightarrow> cs_unique spec \<Longrightarrow> distinct (filter (\<lambda>c. \<not> is_null c) cells)"
    using r [of cells] ex [of "\<lambda>t. t = ''field_uniqueness''"] blocking_exact by blast
  show "passes va k (py_str x)"
    if "column g c = Inr cells" "k \<in> set (cs_checks spec)" "x \<in> set cells" "\<not> is_null x"
      "(\<exists>lo hi. k = Str_length lo hi) \<or> k = Unit_symbol \<or>
        (\<exists>xs. k = Is_in xs) \<and> (c = ''base_units'' \<or> c = ''parent'' \<and> ent \<in> {LEDGER, GROUP})"
  proof (rule ccontr)
    assume "\<not> passes va k (py_str x)"
    then have "list_ex (\<lambda>x. \<not> is_null x \<and> \<not> passes va k (py_str x)) cells"
      using that by (auto simp: list_ex_iff)
    then have "failed_at (va_run va sch g) c (names_check k)" using r [of cells] that by blast
    then show False using ex [of "names_check k"] blocking_label [of _ _ k c ent va sets] that(5) by blast
  qed
qed

lemma work_cells:
  assumes "column (work_frame f) c = Inr cells" "x \<in> set cells" "frame_wf f"
  shows "x = CNA \<or> (\<exists>s. x = CStr s \<and> s \<noteq> '''' \<and> strip s = s)"
proof -
  have "length (filter (\<lambda>x. x = c) (fr_cols f)) = 1"
    using assms(1) by (auto simp: column_def work_frame_def split: if_splits)
  then have c: "c \<in> set (fr_cols f)" by (metis (mono_tags, lifting) filter_False list.size(3) zero_neq_one)
  from assms(1,2) obtain r where r: "r \<in> set (fr_rows f)"
    and x: "x = (case map_of (zip (fr_cols f) (map text_cell r)) c of None \<Rightarrow> CNone | Some v \<Rightarrow> v)"
    by (auto simp: column_def work_frame_def split: if_splits)
  have "length (fr_cols f) = length (map text_cell r)" using assms(3) r by (simp add: frame_wf_def)
  then have "map_of (zip (fr_cols f) (map text_cell r)) c \<noteq> None"
    using c by (simp add: map_of_zip_is_None)
  then obtain v where v: "map_of (zip (fr_cols f) (map text_cell r)) c = Some v" by blast
  then have "v \<in> set (map text_cell r)" by (meson in_set_zipE map_of_SomeD)
  then show ?thesis using x v by (auto simp: text_cell_def split: if_splits)
qed

text \<open>
  C23: A table of masters is accepted only if every name is there, all different, of at most a hundred
  characters and, for units, without white space; if every ledger is under a known group and every
  item in a known unit, where those are given; and if the groups can be put in order.
\<close>

theorem accepted_masters:
  assumes "validate va pd f ent kn = Inr r" "r_ok r" "ent \<noteq> VOUCHER" "reports_failures va" "frame_wf f"
    and "column (work_frame f) ''name'' = Inr names"
  shows "(\<forall>x\<in>set names. \<exists>s. x = CStr s \<and> s \<noteq> '''' \<and> strip s = s \<and> length s \<le> 100 \<and>
      (ent = UNIT \<longrightarrow> \<not> list_ex is_space s)) \<and> distinct names \<and>
    (\<forall>ps g gs. ent = LEDGER \<longrightarrow> column (work_frame f) ''parent'' = Inr ps \<longrightarrow> kn_groups kn = Some (g # gs) \<longrightarrow>
       set ps \<subseteq> CStr ` set (g # gs)) \<and>
    (\<forall>us u vs. ent = STOCK_ITEM \<longrightarrow> column (work_frame f) ''base_units'' = Inr us \<longrightarrow> kn_units kn = Some (u # vs) \<longrightarrow>
       set us \<subseteq> CStr ` set (u # vs)) \<and>
    (ent = GROUP \<longrightarrow> ''parent'' \<in> set (fr_cols f) \<and>
       (\<exists>gs os. groups_of (work_frame f) = Inr gs \<and> topological_sort_groups gs = Inr os))"
proof -
  obtain sch where sch: "build_schema ent kn = Inr sch"
    and ok: "\<forall>x\<in>set (va_run va sch (work_frame f)). \<not> blocking va ent (suggestion_sets ent kn) x"
    and cyc: "ent = GROUP \<longrightarrow> detect_group_cycle (work_frame f) = Inr []"
    by (rule validate_ok_cases [OF assms(1,2,3)])
  note passed = passed_column [OF assms(4) _ ok]
  obtain extra where nm: "(''name'', name_column extra) \<in> set sch" and un: "ent = UNIT \<Longrightarrow> extra = [Unit_symbol]"
    using sch assms(3) by (cases ent) (auto simp: build_schema_def ledger_columns_def)
  have nonnull: "\<not> is_null x" if "x \<in> set names" for x
    using passed(2) [OF nm assms(6)] that by (simp add: name_column_def)
  have name: "\<exists>s. x = CStr s \<and> s \<noteq> '''' \<and> strip s = s \<and> length s \<le> 100 \<and> (ent = UNIT \<longrightarrow> \<not> list_ex is_space s)"
    if x: "x \<in> set names" for x
  proof -
    obtain s where s: "x = CStr s" "s \<noteq> ''''" "strip s = s"
      using work_cells [OF assms(6) x assms(5)] nonnull [OF x] by (auto simp: is_null_def)
    have "passes va (Str_length 1 max_name_len) (py_str x)"
      by (rule passed(4) [OF nm assms(6) _ x nonnull [OF x]]) (auto simp: name_column_def)
    moreover have "passes va Unit_symbol (py_str x)" if "ent = UNIT"
      by (rule passed(4) [OF nm assms(6) _ x nonnull [OF x]]) (auto simp: name_column_def un that)
    ultimately show ?thesis using s by (auto simp: max_name_len_def)
  qed
  have "distinct (filter (\<lambda>c. \<not> is_null c) names)"
    using passed(3) [OF nm assms(6)] by (simp add: name_column_def)
  then have d: "distinct names" using nonnull by (metis (mono_tags, lifting) filter_True)
  have known: "set ps \<subseteq> CStr ` set (g # gs)"
    if "(c, required_column (isin_or_empty (Some (g # gs)))) \<in> set sch" "column (work_frame f) c = Inr ps"
      "c = ''base_units'' \<or> c = ''parent'' \<and> ent \<in> {LEDGER, GROUP}" for c ps g gs
  proof
    fix x assume x: "x \<in> set ps"
    have nn: "\<not> is_null x" using passed(2) [OF that(1,2) _ x] by (simp add: required_column_def)
    have "passes va (Is_in (sort (remdups (g # gs)))) (py_str x)"
      by (rule passed(4) [OF that(1,2) _ x nn]) (use that(3) in \<open>auto simp: required_column_def isin_or_empty_def choices_of_def\<close>)
    then show "x \<in> CStr ` set (g # gs)"
      using work_cells [OF that(2) x assms(5)] nn by (auto simp: is_null_def simp del: remdups.simps)
  qed
  have l: "set ps \<subseteq> CStr ` set (g # gs)"
    if "ent = LEDGER" "column (work_frame f) ''parent'' = Inr ps" "kn_groups kn = Some (g # gs)" for ps g gs
    using known [of "''parent''" g gs ps] that sch by (auto simp: build_schema_def ledger_columns_def)
  have u: "set us \<subseteq> CStr ` set (u # vs)"
    if "ent = STOCK_ITEM" "column (work_frame f) ''base_units'' = Inr us" "kn_units kn = Some (u # vs)" for us u vs
    using known [of "''base_units''" u vs us] that sch by (auto simp: build_schema_def)
  have g: "''parent'' \<in> set (fr_cols f) \<and> (\<exists>gs os. groups_of (work_frame f) = Inr gs \<and> topological_sort_groups gs = Inr os)"
    if "ent = GROUP"
  proof -
    have p: "''parent'' \<in> set (fr_cols (work_frame f))"
      by (rule passed(1) [of "''parent''" "required_column []"])
        (use sch that in \<open>auto simp: build_schema_def required_column_def\<close>)
    have n: "''name'' \<in> set (fr_cols (work_frame f))" by (rule passed(1) [OF nm]) (simp add: name_column_def)
    have "detect_group_cycle (work_frame f) = Inr []" using cyc that by simp
    from detect_group_cycle_cases(2) [OF this refl n p] show ?thesis using p by (simp add: work_frame_def)
  qed
  show ?thesis by (intro conjI allI impI ballI) (use name d l u g in \<open>simp_all only:\<close>)
qed

text \<open>A schema runner that lists what is promised, for a concrete table.\<close>

definition failure_at :: "string \<Rightarrow> string \<Rightarrow> failure" where
  "failure_at col t = \<lparr>fc_column = Some col, fc_check = Some t, fc_case = None, fc_index = None\<rparr>"

definition check_text :: "check \<Rightarrow> string" where
  "check_text c = (if c = Decimal_parseable \<or> c = Unit_symbol then check_label c else check_label c @ ''('')"

definition column_failures :: "(string \<Rightarrow> string \<Rightarrow> bool) \<Rightarrow> frame \<Rightarrow> string \<times> column_spec \<Rightarrow> failure list" where
  "column_failures re f cs =
     (let (col, spec) = cs; va = \<lparr>va_run = (\<lambda>_ _. []), va_matches = re, va_extract = (\<lambda>_ _. None)\<rparr> in
      (if col \<notin> set (fr_cols f) \<and> cs_required spec then [failure_at col ''column_in_dataframe''] else []) @
      (case column f col of Inl _ \<Rightarrow> [] | Inr cells \<Rightarrow>
        (if \<not> cs_nullable spec \<and> list_ex is_null cells then [failure_at col ''not_nullable''] else []) @
        (if cs_unique spec \<and> \<not> distinct (filter (\<lambda>c. \<not> is_null c) cells) then [failure_at col ''field_uniqueness''] else []) @
        map (\<lambda>c. failure_at col (check_text c))
          (filter (\<lambda>c. list_ex (\<lambda>x. \<not> is_null x \<and> \<not> passes va c (py_str x)) cells) (cs_checks spec))))"

definition sample_validator :: validator where
  "sample_validator =
     \<lparr>va_run = (\<lambda>sch f. concat (map (column_failures (\<lambda>_ _. True) f) sch)), va_matches = (\<lambda>_ _. True),
      va_extract = (\<lambda>_ _. None)\<rparr>"

lemma passes_sample: "passes \<lparr>va_run = a, va_matches = (\<lambda>_ _. True), va_extract = b\<rparr> c v = passes sample_validator c v"
  by (cases c) (simp_all add: sample_validator_def)

lemma failed_atI: "failure_at col t \<in> set fs \<Longrightarrow> P t \<Longrightarrow> failed_at fs col P"
  by (force simp: failed_at_def failure_at_def)

lemma sample_reports: "reports_failures sample_validator"
  unfolding reports_failures_def
proof (intro allI impI conjI ballI)
  fix sch :: schema and f col spec cells
  assume m: "(col, spec) \<in> set sch"
  have sub: "set (column_failures (\<lambda>_ _. True) f (col, spec)) \<subseteq> set (va_run sample_validator sch f)"
    using m by (auto simp: sample_validator_def)
  have listed: "failure_at col t \<in> set (column_failures (\<lambda>_ _. True) f (col, spec)) \<Longrightarrow> failure_at col t \<in> set (va_run sample_validator sch f)" for t
    using sub by blast
  show "\<exists>x\<in>set (va_run sample_validator sch f). \<exists>t. fc_check x = Some t \<and> starts_with ''column_in_dataframe'' t"
    if "col \<notin> set (fr_cols f)" "cs_required spec"
    using that by (intro bexI [OF _ listed [of "''column_in_dataframe''"]])
      (simp_all add: failure_at_def starts_with_def column_failures_def)
  show "failed_at (va_run sample_validator sch f) col (\<lambda>t. t = ''not_nullable'')"
    if "column f col = Inr cells" "\<not> cs_nullable spec" "list_ex is_null cells"
    using that by (intro failed_atI listed) (simp_all add: column_failures_def)
  show "failed_at (va_run sample_validator sch f) col (\<lambda>t. t = ''field_uniqueness'')"
    if "column f col = Inr cells" "cs_unique spec" "\<not> distinct (filter (\<lambda>c. \<not> is_null c) cells)"
    using that by (intro failed_atI listed) (simp_all add: column_failures_def)
  fix c
  assume c: "column f col = Inr cells" "c \<in> set (cs_checks spec)"
    "list_ex (\<lambda>x. \<not> is_null x \<and> \<not> passes sample_validator c (py_str x)) cells"
  then have "failure_at col (check_text c) \<in> set (column_failures (\<lambda>_ _. True) f (col, spec))"
    by (auto simp: column_failures_def passes_sample)
  moreover have "names_check c (check_text c)" by (simp add: names_check_def check_text_def starts_with_def)
  ultimately show "failed_at (va_run sample_validator sch f) col (names_check c)"
    using listed failed_atI by blast
qed

theorem accepted_masters_witness:
  "\<exists>r. validate sample_validator (\<lambda>_ _. None) \<lparr>fr_cols = [''name'', ''parent''], fr_rows = [[CStr '' Cash '', CStr ''Bank'']]\<rparr>
     LEDGER \<lparr>kn_groups = Some [''Bank''], kn_units = None, kn_states = None, kn_stock_groups = None\<rparr> = Inr r \<and>
   r_ok r \<and> length ''Cash'' \<le> 100"
proof -
  let ?f = "\<lparr>fr_cols = [''name'', ''parent''], fr_rows = [[CStr '' Cash '', CStr ''Bank'']]\<rparr>"
  let ?kn = "\<lparr>kn_groups = Some [''Bank''], kn_units = None, kn_states = None, kn_stock_groups = None\<rparr>"
  let ?r = "\<lparr>r_ok = True, r_stage = VALIDATE, r_errors = [],
      r_stats = [(''rows_in'', 1), (''error_count'', 0), (''warning_count'', 0)]\<rparr>"
  have v: "validate sample_validator (\<lambda>_ _. None) ?f LEDGER ?kn = Inr ?r" by code_simp
  have n: "column (work_frame ?f) ''name'' = Inr [CStr ''Cash'']" by code_simp
  have "frame_wf ?f" by (simp add: frame_wf_def)
  from accepted_masters [OF v _ _ sample_reports this n] show ?thesis using v by simp
qed

end
