(* ===== verification/Stages.thy ===== *)
theory Stages
  imports Jobs Templates Mapping_Proposal Validation
begin

text \<open>
  \<open>app/services/pipeline_service.py\<close>, up to resolution: what each stage does to a job.  A stage takes
  the job and returns it with a result or an exception; the caller holds the lock of the job.  What
  comes from libraries and from data files is collected in \<open>services\<close>.
\<close>

record services =
  sv_readers :: readers
  sv_scorer :: scorer
  sv_catalog :: "entity_type \<Rightarrow> catalog"
  sv_validator :: validator
  sv_dates :: date_parser
  sv_matcher :: matcher
  sv_template_order :: "stored_template list \<Rightarrow> stored_template list"

record limits =
  lm_max_rows :: nat
  lm_max_columns :: nat

record staged_record =
  sd_org :: "string option"
  sd_job :: string
  sd_order :: "string option"
  sd_data :: row
  sd_created_at :: int

section \<open>Helpers\<close>

definition is_unnamed :: "string \<Rightarrow> bool" where
  "is_unnamed c \<longleftrightarrow> starts_with ''Unnamed: '' c \<and> drop 9 c \<noteq> '''' \<and> list_all is_dec_digit (drop 9 c)"

definition frame_of_dict :: "(string, cell list) dict \<Rightarrow> frame" where
  \<comment> \<open>\<open>DataFrame(data)\<close>: no rows without a column\<close>
  "frame_of_dict d =
     \<lparr>fr_cols = map fst d,
      fr_rows = (case d of [] \<Rightarrow> [] | kc # _ \<Rightarrow> map (\<lambda>i. map (\<lambda>x. snd x ! i) d) [0..<length (snd kc)])\<rparr>"

definition merge :: "('k, 'v) dict \<Rightarrow> ('k, 'v) dict \<Rightarrow> ('k, 'v) dict" where
  \<comment> \<open>\<open>{**d, **e}\<close>\<close>
  "merge d e = fold (\<lambda>(k, v). AList.update k v) e d"

definition build_mapped_df ::
    "frame \<Rightarrow> (string, string option) dict \<Rightarrow> (string, string) dict \<Rightarrow> frame res" where
  "build_mapped_df df mapping constants =
     (let clean = filter (\<lambda>(t, s). truthy s \<and> the s \<in> set (fr_cols df)) mapping; n = length (fr_rows df) in
      rbind (map_res (\<lambda>(t, s). rbind (column df (the s)) (\<lambda>cs. Inr (t, cs))) clean) (\<lambda>data.
        Inr (frame_of_dict (merge data (map (\<lambda>(t, v). (t, replicate n (CStr v))) constants)))))"

definition reset_from :: "bool \<Rightarrow> job \<Rightarrow> job" where
  "reset_from mapping j =
     (let j1 = (if mapping then j\<lparr>j_mapping := None, j_mapped_df := None\<rparr> else j)
      in j1\<lparr>j_validation := None, j_resolution := None, j_xml := None, j_push := None\<rparr>)"

definition raise_with :: "app_class \<Rightarrow> string \<Rightarrow> envelope list \<Rightarrow> 'a res" where
  "raise_with cls code errs = Inl (AppErr (app_error_new cls (Some code) errs))"

section \<open>Ingest\<close>

definition upload_notes :: "parse_result \<Rightarrow> frame \<Rightarrow> string list" where
  "upload_notes r df =
     (let dropped = pr_dropped r; unnamed = filter is_unnamed (fr_cols df) in
      (if dropped \<noteq> [] then [nat_str (length dropped) @ '' empty column(s) ignored: '' @ join '', '' (take 6 dropped)] else []) @
      (if unnamed \<noteq> [] then [nat_str (length unnamed) @ '' unnamed column(s) detected''] else []) @
      (if length (dedup (fr_cols df)) \<noteq> length (fr_cols df) then [''duplicate column headers detected''] else []))"

definition order_id :: "row \<Rightarrow> string option" where
  "order_id r =
     (let c = (if cell_truthy (rget r ''order_id'') then rget r ''order_id''
               else if cell_truthy (rget r ''voucher_number'') then rget r ''voucher_number''
               else rget r ''Name'')
      in if cell_truthy c then Some (strip (py_str c)) else None)"

definition staged_rows :: "job \<Rightarrow> int \<Rightarrow> frame \<Rightarrow> staged_record list" where
  "staged_rows j now df =
     map (\<lambda>r. \<lparr>sd_org = j_org j, sd_job = j_id j, sd_order = order_id r, sd_data = r, sd_created_at = now\<rparr>) (records df)"

definition ingest ::
    "services \<Rightarrow> limits \<Rightarrow> int \<Rightarrow> string \<Rightarrow> string option \<Rightarrow> staged_record list \<Rightarrow> job \<Rightarrow>
     staged_record list \<times> job \<times> unit res" where
  "ingest sv lm now content filename staged j =
     (case require Upload j of
        Inl e \<Rightarrow> (staged, j, Inl e)
      | Inr _ \<Rightarrow>
          let r = parse_file (sv_readers sv) content (if truthy filename then the filename else ''upload.csv'') (lm_max_rows lm) in
          case pr_data r of
            None \<Rightarrow>
              (staged, j, raise_with UnprocessableData
                 (code_str (case pr_errors r of [] \<Rightarrow> PARSE_FAILED | e # _ \<Rightarrow> e_code e)) (pr_errors r))
          | Some df \<Rightarrow>
              if lm_max_columns lm < length (fr_cols df)
              then (staged, j, raise_with UnprocessableData ''too_many_columns'' [])
              else case profile df of
                  Inl e \<Rightarrow> (staged, j\<lparr>j_df := Some df\<rparr>, Inl e)
                | Inr p \<Rightarrow>
                    let j1 = reset_from True (j\<lparr>j_df := Some df, j_profile := Some p, j_filename := filename,
                                                j_upload := Some content, j_notes := upload_notes r df\<rparr>)
                    in (staged @ staged_rows j1 now df, advance now PARSED j1, Inr ()))"

section \<open>Mapping\<close>

definition set_source :: "string \<Rightarrow> suggestion \<Rightarrow> suggestion" where
  "set_source col s =
     s\<lparr>sg_source := Some col, sg_method := Template, sg_confidence := max (sg_confidence s) (fl (99 / 100)),
       sg_status := Auto_Accept\<rparr>"

definition overlay_entry :: "string list \<Rightarrow> string \<times> string \<Rightarrow> suggestion list \<Rightarrow> suggestion list" where
  \<comment> \<open>one column of the template: the suggestion the field's name leads to is the last one with that name\<close>
  "overlay_entry cols e ss =
     (let (field, col) = e; by_field = map_of (rev (zip (map sg_target ss) [0..<length ss])) in
      if col \<in> set cols
      then (case by_field field of None \<Rightarrow> ss | Some i \<Rightarrow> ss[i := set_source col (ss ! i)])
      else ss)"

definition overlay_template :: "string list \<Rightarrow> template_view option \<Rightarrow> proposal \<Rightarrow> proposal" where
  "overlay_template cols tmpl p =
     (case tmpl of None \<Rightarrow> p
      | Some t \<Rightarrow>
          let ss = fold (overlay_entry cols) (tv_mapping t) (mp_suggestions p);
              used = concat (map (\<lambda>s. if truthy (sg_source s) then [the (sg_source s)] else []) ss)
          in p\<lparr>mp_suggestions := ss, mp_unmapped_sources := filter (\<lambda>c. c \<notin> set used) cols,
               mp_unmapped_required := unmapped_required_of ss, mp_applied_template := Some (tv_name t),
               mp_applied_constants := tv_constants t\<rparr>)"

definition org_of :: "job \<Rightarrow> string" where
  "org_of j = (case j_org j of None \<Rightarrow> '''' | Some org \<Rightarrow> org)"

definition suggest_mapping :: "services \<Rightarrow> template_table \<Rightarrow> job \<Rightarrow> proposal res" where
  "suggest_mapping sv db j =
     (case j_df j of
        None \<Rightarrow> raise_default InvalidState
      | Some df \<Rightarrow>
          rbind (auto_map (sv_scorer sv) (sv_catalog sv (j_entity j)) df (j_entity j)) (\<lambda>p.
            Inr (overlay_template (fr_cols df)
                   (best_match (sv_template_order sv) db (org_of j) (j_entity j) (fr_cols df)) p)))"

definition extra_targets :: "string list" where
  "extra_targets = [''opening_balance_drcr'', ''guid'', ''old_name'']"

definition with_template ::
    "string option \<Rightarrow> (string, string option) dict \<Rightarrow> (string, string) dict \<Rightarrow>
     ((string, string option) dict \<times> (string, string) dict) res" where
  "with_template template mapping constants =
     (if truthy template then
        (case apply_template (the template) of
           Inl e \<Rightarrow> raise_app BadRequest ''invalid_template''
         | Inr (tm, tc) \<Rightarrow> Inr (merge (map (\<lambda>(k, v). (k, Some v)) tm) mapping, merge tc constants))
      else Inr (mapping, constants))"

definition check_mapping ::
    "catalog \<Rightarrow> frame \<Rightarrow> (string, string option) dict \<Rightarrow> (string, string) dict \<Rightarrow> unit res" where
  \<comment> \<open>the three checks: sources in the file, known targets, required fields\<close>
  "check_mapping cat df mapping constants =
     (let clean = filter (\<lambda>(t, s). truthy s) mapping;
          targets = map fst clean @ map fst constants;
          valid = map cf_key cat @ extra_targets;
          missing = filter (\<lambda>r. r \<notin> set targets) (map cf_key (filter cf_required cat))
      in if list_ex (\<lambda>(t, s). the s \<notin> set (fr_cols df)) clean then raise_default BadRequest
         else if list_ex (\<lambda>t. t \<notin> set valid) targets then raise_default BadRequest
         else if missing \<noteq> [] then raise_app UnprocessableData ''missing_required_mapping''
         else Inr ())"

definition apply_mapping ::
    "services \<Rightarrow> int \<Rightarrow> (string, string option) dict \<Rightarrow> (string, string) dict \<Rightarrow> string option \<Rightarrow> job \<Rightarrow>
     job \<times> unit res" where
  "apply_mapping sv now mapping constants template j =
     (case require Map_Columns j of
        Inl e \<Rightarrow> (j, Inl e)
      | Inr _ \<Rightarrow>
          case j_df j of
            None \<Rightarrow> (j, raise_default InvalidState)
          | Some df \<Rightarrow>
              case rbind (with_template template mapping constants) (\<lambda>mc.
                     rbind (check_mapping (sv_catalog sv (j_entity j)) df (fst mc) (snd mc)) (\<lambda>_. Inr mc)) of
                Inl e \<Rightarrow> (j, Inl e)
              | Inr (m, c) \<Rightarrow>
                  let j1 = j\<lparr>j_mapping := Some m, j_constants := c\<rparr> in
                  case build_mapped_df df m c of
                    Inl e \<Rightarrow> (j1, Inl e)
                  | Inr mdf \<Rightarrow> (advance now MAPPED (reset_from False (j1\<lparr>j_mapped_df := Some mdf\<rparr>)), Inr ()))"

section \<open>Validation and resolution\<close>

definition run_validation :: "services \<Rightarrow> int \<Rightarrow> known_values \<Rightarrow> job \<Rightarrow> job \<times> stage_result res" where
  "run_validation sv now kn j =
     (case require Validate j of
        Inl e \<Rightarrow> (j, Inl e)
      | Inr _ \<Rightarrow>
          case j_mapped_df j of
            None \<Rightarrow> (j, raise_default InvalidState)
          | Some df \<Rightarrow>
              case validate (sv_validator sv) (sv_dates sv) df (j_entity j) kn of
                Inl e \<Rightarrow> (j, Inl e)
              | Inr r \<Rightarrow>
                  (advance now VALIDATED (j\<lparr>j_validation := Some r, j_resolution := None, j_xml := None, j_push := None\<rparr>), Inr r))"

definition incoming_rows :: "frame \<Rightarrow> (nat option \<times> row) list" where
  "incoming_rows df =
     map (\<lambda>(i, r). (Some i, [''name'' \<mapsto> rget r ''name'', ''parent'' \<mapsto> rget r ''parent''])) (enumerate1 (records df))"

definition run_resolution :: "services \<Rightarrow> int \<Rightarrow> row list option \<Rightarrow> job \<Rightarrow> job \<times> verdict list res" where
  "run_resolution sv now existing j =
     (case require Resolve j of
        Inl e \<Rightarrow> (j, Inl e)
      | Inr _ \<Rightarrow>
          if j_entity j = VOUCHER then (j, raise_app BadRequest ''resolution_not_applicable'')
          else case j_mapped_df j of
              None \<Rightarrow> (j, raise_default InvalidState)
            | Some df \<Rightarrow>
                let vs = resolve (sv_matcher sv) (incoming_rows df) (case existing of None \<Rightarrow> [] | Some es \<Rightarrow> es)
                in (advance now RESOLVED (j\<lparr>j_resolution := Some vs, j_xml := None, j_push := None\<rparr>), Inr vs))"

section \<open>What a mapping does to the data\<close>

lemma column_length: "column f c = Inr cs \<Longrightarrow> length cs = length (fr_rows f)"
  by (auto simp: column_def split: if_splits)

lemma column_record:
  assumes "column f c = Inr cs" "frame_wf f" "distinct (fr_cols f)" "i < length (fr_rows f)"
  shows "length cs = length (fr_rows f)" "(records f ! i) c = Some (cs ! i)"
proof -
  have r: "length (fr_rows f ! i) = length (fr_cols f)" using assms(2,4) by (simp add: frame_wf_def)
  have cs: "cs = map (\<lambda>r. case map_of (zip (fr_cols f) r) c of None \<Rightarrow> CNone | Some v \<Rightarrow> v) (fr_rows f)"
    and one: "length (filter (\<lambda>x. x = c) (fr_cols f)) = 1"
    using assms(1) by (auto simp: column_def split: if_splits)
  show "length cs = length (fr_rows f)" by (simp add: cs)
  have "c \<in> set (fr_cols f)" using one by (metis (mono_tags, lifting) filter_False list.size(3) zero_neq_one)
  then obtain v where v: "map_of (zip (fr_cols f) (fr_rows f ! i)) c = Some v"
    using r by (metis map_of_zip_is_Some)
  have "map_of (rev (zip (fr_cols f) (fr_rows f ! i))) = map_of (zip (fr_cols f) (fr_rows f ! i))"
    using r assms(3) by (intro map_of_rev_distinct) simp
  then show "(records f ! i) c = Some (cs ! i)" using v assms(4) by (simp add: records_def cs)
qed

lemma records_unknown: "c \<notin> set (fr_cols f) \<Longrightarrow> i < length (fr_rows f) \<Longrightarrow> (records f ! i) c = None"
  by (auto simp: records_def map_of_eq_None_iff dest: set_zip_leftD)

lemma column_total: "distinct (fr_cols f) \<Longrightarrow> c \<in> set (fr_cols f) \<Longrightarrow> \<exists>cs. column f c = Inr cs"
  using column_ok(1) [of f c] distinct_count_one [of "fr_cols f"] by auto

definition mapped_data :: "frame \<Rightarrow> (string, string option) dict \<Rightarrow> (string, cell list) dict res" where
  "mapped_data df kept = map_res (\<lambda>(t, s). rbind (column df (the s)) (\<lambda>cs. Inr (t, cs))) kept"

lemma mapped_data_keys: "mapped_data df kept = Inr data \<Longrightarrow> map fst data = map fst kept"
  unfolding mapped_data_def by (induction kept arbitrary: data) (auto simp: rbind_Inr)

lemma mapped_data_get:
  "mapped_data df kept = Inr data \<Longrightarrow> map_of data t =
     (case map_of kept t of None \<Rightarrow> None | Some s \<Rightarrow> (case column df (the s) of Inr cs \<Rightarrow> Some cs | Inl _ \<Rightarrow> None))"
  unfolding mapped_data_def by (induction kept arbitrary: data) (auto simp: rbind_Inr split: option.splits)

lemma frame_of_dict_records:
  assumes "distinct (map fst d)" "\<forall>x\<in>set d. length (snd x) = n" "i < n"
  shows "d \<noteq> [] \<Longrightarrow> length (fr_rows (frame_of_dict d)) = n"
    and "d \<noteq> [] \<Longrightarrow> (records (frame_of_dict d) ! i) t = map_option (\<lambda>cs. cs ! i) (map_of d t)"
proof -
  show len: "length (fr_rows (frame_of_dict d)) = n" if "d \<noteq> []"
    using that assms(2) by (cases d) (simp_all add: frame_of_dict_def)
  show "(records (frame_of_dict d) ! i) t = map_option (\<lambda>cs. cs ! i) (map_of d t)" if "d \<noteq> []"
  proof -
    have row: "fr_rows (frame_of_dict d) ! i = map (\<lambda>x. snd x ! i) d"
      using that assms(2,3) by (cases d) (simp_all add: frame_of_dict_def del: upt_Suc)
    have z: "zip (map fst d) (map (\<lambda>x. snd x ! i) d) = map (\<lambda>(k, cs). (k, cs ! i)) d"
      by (induction d) auto
    have "(records (frame_of_dict d) ! i) t = map_of (rev (map (\<lambda>(k, cs). (k, cs ! i)) d)) t"
      using len [OF that] assms(3) row z by (simp add: records_def) (simp add: frame_of_dict_def)
    also have "map_of (rev (map (\<lambda>(k, cs). (k, cs ! i)) d)) = map_of (map (\<lambda>(k, cs). (k, cs ! i)) d)"
      using assms(1) by (intro map_of_rev_distinct) (simp add: comp_def case_prod_unfold)
    also have "\<dots> t = map_option (\<lambda>cs. cs ! i) (map_of d t)" by (rule map_of_map [THEN fun_cong, unfolded comp_def])
    finally show ?thesis .
  qed
qed

lemma merge_keys: "set (map fst (merge d e)) = set (map fst d) \<union> set (map fst e)"
proof (induction e arbitrary: d)
  case (Cons kv e)
  have "fst ` set (AList.update (fst kv) (snd kv) d) = insert (fst kv) (fst ` set d)"
    using dom_update [of "fst kv" "snd kv" d] unfolding dom_map_of_conv_image_fst by simp
  with Cons show ?case by (simp add: merge_def case_prod_unfold)
qed (simp add: merge_def)

lemma distinct_merge: "distinct (map fst d) \<Longrightarrow> distinct (map fst (merge d e))"
  unfolding merge_def by (rule distinct_fold_update)

lemma merge_get: "map_of (merge d e) k = (case map_of (rev e) k of None \<Rightarrow> map_of d k | Some v \<Rightarrow> Some v)"
  unfolding merge_def by (rule map_of_fold_update)

lemma update_all: "\<forall>x\<in>set d. P (snd x) \<Longrightarrow> P v \<Longrightarrow> \<forall>x\<in>set (AList.update k v d). P (snd x)"
  by (induction d) auto

lemma merge_all: "\<forall>x\<in>set d. P (snd x) \<Longrightarrow> \<forall>x\<in>set e. P (snd x) \<Longrightarrow> \<forall>x\<in>set (merge d e). P (snd x)"
proof (induction e arbitrary: d)
  case (Cons kv e)
  have "\<forall>x\<in>set (AList.update (fst kv) (snd kv) d). P (snd x)"
    by (rule update_all) (use Cons.prems in simp_all)
  from Cons.IH [OF this] Cons.prems(2) show ?case by (simp add: merge_def case_prod_unfold)
qed (simp add: merge_def)

text \<open>What a target holds in row \<open>i\<close>: its constant, or the cell of the column it is mapped to.\<close>

definition mapped_cell ::
    "frame \<Rightarrow> (string, string option) dict \<Rightarrow> (string, string) dict \<Rightarrow> nat \<Rightarrow> string \<Rightarrow> cell option" where
  "mapped_cell df mapping constants i t =
     (case dget constants t of
        Some v \<Rightarrow> Some (CStr v)
      | None \<Rightarrow> (case dget mapping t of
                   Some (Some s) \<Rightarrow> if s \<noteq> '''' then (records df ! i) s else None
                 | _ \<Rightarrow> None))"

text \<open>
  C29: The mapped table has the rows of the upload, and in each row every target holds its constant
  or, without one, the cell of the column it is mapped to; nothing else is in it.
\<close>

theorem mapped_table_content:
  assumes "frame_wf df" "distinct (fr_cols df)" "distinct (map fst mapping)" "distinct (map fst constants)"
    and "build_mapped_df df mapping constants = Inr g" "fr_cols g \<noteq> []" "i < length (fr_rows df)"
  shows "length (fr_rows g) = length (fr_rows df) \<and> (records g ! i) t = mapped_cell df mapping constants i t"
proof -
  let ?n = "length (fr_rows df)" and ?P = "\<lambda>(t, s). truthy s \<and> the s \<in> set (fr_cols df)"
  let ?clean = "filter ?P mapping" and ?C = "map (\<lambda>(t, v). (t, replicate ?n (CStr v))) constants"
  from assms(5) obtain data where data: "mapped_data df ?clean = Inr data" and g: "g = frame_of_dict (merge data ?C)"
    by (auto simp: build_mapped_df_def mapped_data_def Let_def rbind_Inr)
  let ?D = "merge data ?C"
  have dist: "distinct (map fst data)" using assms(3) by (simp add: mapped_data_keys [OF data] distinct_map_filter)
  have clean: "map_of ?clean t = (case map_of mapping t of None \<Rightarrow> None | Some s \<Rightarrow> if ?P (t, s) then Some s else None)" for t
    using assms(3) by (induction mapping) (auto split: option.splits simp: image_iff)
  have len: "\<forall>x\<in>set data. length (snd x) = ?n"
  proof
    fix x assume x: "x \<in> set data"
    then have "map_of data (fst x) = Some (snd x)" using dist by simp
    then obtain s where "column df s = Inr (snd x)"
      using mapped_data_get [OF data, of "fst x"] by (auto split: option.splits sum.splits)
    then show "length (snd x) = ?n" by (rule column_length)
  qed
  have "\<forall>x\<in>set ?C. length (snd x) = ?n" by auto
  then have D: "distinct (map fst ?D)" "\<forall>x\<in>set ?D. length (snd x) = ?n"
    using distinct_merge [OF dist] merge_all [OF len] by blast+
  have ne: "?D \<noteq> []" using assms(6) by (auto simp: g frame_of_dict_def)
  note f = frame_of_dict_records [OF D assms(7)]
  have "map_of (rev ?C) = map_of ?C" using assms(4) by (intro map_of_rev_distinct) (simp add: comp_def case_prod_unfold)
  also have "map_of ?C = (\<lambda>t. map_option (\<lambda>v. replicate ?n (CStr v)) (map_of constants t))"
    by (rule ext) (simp add: map_of_map)
  finally have D_get: "map_of ?D t = (case map_of constants t of Some v \<Rightarrow> Some (replicate ?n (CStr v)) | None \<Rightarrow> map_of data t)"
    by (simp add: merge_get split: option.splits)
  have "map_option (\<lambda>cs. cs ! i) (map_of data t) =
      (case map_of mapping t of Some (Some s) \<Rightarrow> if s \<noteq> '''' then (records df ! i) s else None | _ \<Rightarrow> None)"
  proof (cases "map_of ?clean t")
    case None
    then have "map_of data t = None" by (simp add: mapped_data_get [OF data])
    then show ?thesis using None clean [of t] records_unknown [OF _ assms(7)]
      by (auto simp: truthy_def split: option.splits if_splits)
  next
    case (Some s)
    then obtain u where u: "s = Some u" "u \<noteq> ''''" "u \<in> set (fr_cols df)" "map_of mapping t = Some (Some u)"
      using clean [of t] by (auto simp: truthy_def split: option.splits if_splits)
    obtain cs where cs: "column df u = Inr cs" using column_total [OF assms(2) u(3)] by blast
    then have "map_of data t = Some cs" using Some u by (simp add: mapped_data_get [OF data])
    then show ?thesis using u column_record(2) [OF cs assms(1,2,7)] by simp
  qed
  then show ?thesis using f(1) [OF ne] f(2) [OF ne, of t] D_get assms(7) by (auto simp: g mapped_cell_def split: option.splits)
qed

theorem mapped_table_content_witness:
  "\<exists>g. build_mapped_df \<lparr>fr_cols = [''Ledger'', ''Pan''], fr_rows = [[CStr ''Cash'', CNA]]\<rparr>
     [(''name'', Some ''Ledger''), (''pan'', None)] [(''parent'', ''Bank'')] = Inr g \<and>
   (records g ! 0) ''name'' = Some (CStr ''Cash'') \<and> (records g ! 0) ''parent'' = Some (CStr ''Bank'') \<and> (records g ! 0) ''pan'' = None"
proof -
  let ?df = "\<lparr>fr_cols = [''Ledger'', ''Pan''], fr_rows = [[CStr ''Cash'', CNA]]\<rparr>"
  let ?m = "[(''name'', Some ''Ledger''), (''pan'', None)]" and ?c = "[(''parent'', ''Bank'')]"
  let ?g = "\<lparr>fr_cols = [''name'', ''parent''], fr_rows = [[CStr ''Cash'', CStr ''Bank'']]\<rparr>"
  have b: "build_mapped_df ?df ?m ?c = Inr ?g" by code_simp
  have "frame_wf ?df" by (simp add: frame_wf_def)
  note t = mapped_table_content [OF this _ _ _ b, of 0]
  show ?thesis using t [of "''name''"] t [of "''parent''"] t [of "''pan''"] b
    by (simp add: mapped_cell_def records_def)
qed

section \<open>What a stage does to a job\<close>

lemma merge_Nil [simp]: "merge d [] = d"
  by (simp add: merge_def)

lemma build_mapped_df_total: "distinct (fr_cols df) \<Longrightarrow> \<exists>g. build_mapped_df df m c = Inr g"
proof -
  assume d: "distinct (fr_cols df)"
  let ?kept = "filter (\<lambda>(t, s). truthy s \<and> the s \<in> set (fr_cols df)) m"
  let ?f = "\<lambda>(t, s). rbind (column df (the s)) (\<lambda>cs. Inr (t, cs))"
  have ok: "\<exists>y. ?f x = Inr y" if "x \<in> set ?kept" for x
  proof -
    obtain t s where x: "x = (t, s)" by fastforce
    then have "the s \<in> set (fr_cols df)" using that by simp
    then show ?thesis using column_total [OF d] by (auto simp: x rbind_Inr)
  qed
  have "\<exists>ys. map_res ?f ?kept = Inr ys" by (rule map_res_total) (rule ok)
  then show ?thesis by (auto simp: build_mapped_df_def Let_def)
qed



end
