(* ===== verification/Generation.thy ===== *)
theory Generation
  imports Stages Settlements MasterXml
begin

text \<open>
  \<open>run_generation\<close> and \<open>_generate_vouchers\<close> of \<open>app/services/pipeline_service.py\<close>: from the mapped
  table to the import document.  The printer of trees is a parameter.
\<close>

type_synonym printer = "xml \<Rightarrow> string"

record request =
  rq_company :: "string option"
  rq_cutover :: "string option"
  rq_b2c_summary :: bool
  rq_settlement :: bool

record summary_result =
  sm_generated :: nat
  sm_held :: nat
  sm_skipped :: nat
  sm_errors :: "envelope list"
  sm_bytes :: nat
  sm_debit_total :: "fdec option"
  sm_credit_total :: "fdec option"

definition pick_company :: "request \<Rightarrow> job \<Rightarrow> string" where
  "pick_company rq j =
     (if truthy (rq_company rq) then the (rq_company rq)
      else if truthy (j_company j) then the (j_company j) else ''Company'')"

section \<open>Masters\<close>

record batch =
  ba_units :: "unit_master list"
  ba_groups :: "group_master list"
  ba_items :: "stock_item list"
  ba_ledgers :: "ledger_master list"
  ba_held :: nat
  ba_skipped :: nat

definition empty_batch :: batch where
  "empty_batch = \<lparr>ba_units = [], ba_groups = [], ba_items = [], ba_ledgers = [], ba_held = 0, ba_skipped = 0\<rparr>"

definition batch_total :: "batch \<Rightarrow> nat" where
  "batch_total b = length (ba_units b) + length (ba_groups b) + length (ba_items b) + length (ba_ledgers b)"

fun add_master :: "master \<Rightarrow> batch \<Rightarrow> batch" where
  "add_master (MUnit u) b = b\<lparr>ba_units := ba_units b @ [u]\<rparr>"
| "add_master (MGroup g) b = b\<lparr>ba_groups := ba_groups b @ [g]\<rparr>"
| "add_master (MItem i) b = b\<lparr>ba_items := ba_items b @ [i]\<rparr>"
| "add_master (MLedger l) b = b\<lparr>ba_ledgers := ba_ledgers b @ [l]\<rparr>"

definition apply_verdict :: "verdict \<Rightarrow> row \<Rightarrow> row" where
  \<comment> \<open>the copy of a row with the action and the identity the resolution gave it\<close>
  "apply_verdict v r =
     (let r1 = r(''_action'' \<mapsto> CStr (case vd_action v of None \<Rightarrow> ''Create'' | Some a \<Rightarrow> action_value a)) in
      if vd_decision v = Update then
        (let r2 = (if truthy (vd_matched_guid v) then r1(''guid'' \<mapsto> CStr (the (vd_matched_guid v))) else r1) in
         if truthy (vd_matched_name v) \<and> norm_name (the (vd_matched_name v)) \<noteq> norm_name (text_or_empty (rget r ''name''))
         then r2(''old_name'' \<mapsto> CStr (the (vd_matched_name v))) else r2)
      else r1)"

definition verdict_for :: "verdict list option \<Rightarrow> nat \<Rightarrow> verdict option" where
  "verdict_for vs i = map_of (rev (map (\<lambda>v. (vd_row v, v)) (case vs of None \<Rightarrow> [] | Some l \<Rightarrow> l))) (Some i)"

definition convert_row :: "entity_type \<Rightarrow> verdict list option \<Rightarrow> nat \<times> row \<Rightarrow> batch \<Rightarrow> batch logged" where
  "convert_row ent vs ir b =
     (let (i, r) = ir; v = verdict_for vs i in
      if v \<noteq> None \<and> vd_decision (the v) = Conflict then lret (b\<lparr>ba_held := Suc (ba_held b)\<rparr>)
      else lbind (row_to_master ent (case v of None \<Rightarrow> r | Some w \<Rightarrow> apply_verdict w r) (Some i)) (\<lambda>m.
        case m of
          None \<Rightarrow> lret (b\<lparr>ba_skipped := Suc (ba_skipped b)\<rparr>)
        | Some x \<Rightarrow> lret (add_master x b)))"

definition xml_or_422 :: "'a res \<Rightarrow> 'a res" where
  \<comment> \<open>\<open>except ValueError\<close>, turned into an answer\<close>
  "xml_or_422 m = (case m of Inl ValueError \<Rightarrow> raise_app UnprocessableData ''xml_build_failed'' | _ \<Rightarrow> m)"

definition with_xml :: "int \<Rightarrow> string \<Rightarrow> string \<Rightarrow> string list \<Rightarrow> job \<Rightarrow> job" where
  "with_xml now company xml notes j =
     advance now GENERATED (j\<lparr>j_company := Some company, j_xml := Some xml, j_push := None, j_notes := notes\<rparr>)"

definition count_note :: "string \<Rightarrow> nat \<Rightarrow> string" where
  "count_note key n = key @ ''='' @ nat_str n"

definition generate_masters :: "printer \<Rightarrow> int \<Rightarrow> request \<Rightarrow> frame \<Rightarrow> job \<Rightarrow> job \<times> summary_result res" where
  "generate_masters pr now rq df j =
     (case lfold (convert_row (j_entity j) (j_resolution j)) (enumerate1 (records df)) empty_batch [] of
        (Inl e, _) \<Rightarrow> (j, Inl e)
      | (Inr b, errs) \<Rightarrow>
          if batch_total b = 0 then (j, raise_with UnprocessableData ''nothing_to_generate'' errs)
          else
            let company = pick_company rq j in
            case xml_or_422 (build_and_serialize pr company (ba_units b) (ba_groups b) (ba_items b)
                               (ba_ledgers b) [] (Some default_import_dups)) of
              Inl e \<Rightarrow> (j, Inl e)
            | Inr xml \<Rightarrow>
                (with_xml now company xml
                   [count_note ''generated'' (batch_total b), count_note ''held'' (ba_held b), count_note ''skipped'' (ba_skipped b),
                    count_note ''convert_errors'' (length errs)] j,
                 Inr \<lparr>sm_generated = batch_total b, sm_held = ba_held b, sm_skipped = ba_skipped b, sm_errors = errs,
                      sm_bytes = length xml, sm_debit_total = None, sm_credit_total = None\<rparr>))"

section \<open>Opening balances before a cutover date\<close>

definition strptime_ymd :: "string \<Rightarrow> date option" where
  \<comment> \<open>\<open>strptime(s, "%Y-%m-%d")\<close>; a day below ten may have a blank before it\<close>
  "strptime_ymd s =
     (let y = take 4 s; r = drop 4 s; m = takeWhile is_dec_digit (tl r); q = dropWhile is_dec_digit (tl r);
          d = (if starts_with '' '' (tl q) then tl (tl q) else tl q);
          yv = digits_val y; mv = digits_val m; dv = digits_val d
      in if length y = 4 \<and> list_all is_dec_digit y \<and> starts_with ''-'' r \<and> starts_with ''-'' q \<and>
            length m \<in> {1, 2} \<and> list_all is_dec_digit d \<and> length d \<in> {1, 2} \<and>
            (starts_with '' '' (tl q) \<longrightarrow> length d = 1) \<and> 1 \<le> yv \<and> 1 \<le> mv \<and> mv \<le> 12 \<and> 1 \<le> dv \<and>
            dv \<le> (if mv = 2 then (if yv mod 4 = 0 \<and> (yv mod 100 \<noteq> 0 \<or> yv mod 400 = 0) then 29 else 28)
                  else if mv \<in> {4, 6, 9, 11} then 30 else 31)
         then Some (Date yv mv dv) else None)"

definition is_post_cutover :: "date_parser \<Rightarrow> date \<Rightarrow> cell \<Rightarrow> bool res" where
  "is_post_cutover pd cutover c =
     (case coerce_date pd c of
        Inl e \<Rightarrow> if e = ValueError then Inr True else Inl e
      | Inr None \<Rightarrow> Inr True
      | Inr (Some d) \<Rightarrow> Inr (cutover \<le> d))"

definition row_text :: "row \<Rightarrow> string \<Rightarrow> string" where
  \<comment> \<open>\<open>str(row.get(key, "")).strip()\<close>\<close>
  "row_text r k = (case r k of None \<Rightarrow> '''' | Some c \<Rightarrow> strip (py_str c))"

definition accrue :: "string \<Rightarrow> dec \<Rightarrow> (string, dec) dict \<Rightarrow> (string, dec) dict res" where
  "accrue name change ob =
     rbind (of_trap (dec_add (setdefault name (Fin d_zero) ob) change)) (\<lambda>s. Inr (AList.update name s ob))"

definition accrue_row :: "row \<Rightarrow> (string, dec) dict \<Rightarrow> (string, dec) dict res" where
  "accrue_row r ob =
     (let ledger = row_text r ''ledger_name''; party = row_text r ''party_ledger'' in
      if ledger = '''' then Inr ob
      else rbind (coerce_amount_drcr (rget r ''amount'') (rget r ''dr_cr'')) (\<lambda>ad.
        case ad of
          None \<Rightarrow> Inr ob
        | Some (mag, is_debit) \<Rightarrow>
            rbind (of_trap (dec_neg mag)) (\<lambda>minus.
            rbind (accrue ledger (if is_debit then mag else minus) ob) (\<lambda>ob1.
              if party = '''' then Inr ob1 else accrue party (if is_debit then minus else mag) ob1))))"

text \<open>
  The loop over the rows before the cutover: a \<open>ValueError\<close> ends it and what was accrued stays, any
  other exception leaves the function.
\<close>

fun accrue_rows :: "row list \<Rightarrow> (string, dec) dict \<Rightarrow> (string, dec) dict res" where
  "accrue_rows [] ob = Inr ob"
| "accrue_rows (r # rs) ob =
     (case accrue_row r ob of
        Inl e \<Rightarrow> if e = ValueError then Inr ob else Inl e
      | Inr ob1 \<Rightarrow> accrue_rows rs ob1)"

definition split_cutover :: "date_parser \<Rightarrow> date \<Rightarrow> row list \<Rightarrow> (row list \<times> row list) res" where
  \<comment> \<open>the rows before the cutover and the others\<close>
  "split_cutover pd cutover rows =
     foldM (\<lambda>r (pre, post). rbind (is_post_cutover pd cutover (rget r ''date'')) (\<lambda>p.
              Inr (if p then (pre, post @ [r]) else (pre @ [r], post)))) rows ([], [])"

definition cutover_balances ::
    "date_parser \<Rightarrow> request \<Rightarrow> frame \<Rightarrow> (row list \<times> (string, dec) dict) res" where
  \<comment> \<open>the rows left for vouchers, and the balance of each ledger\<close>
  "cutover_balances pd rq df =
     (let rows = records df in
      if truthy (rq_cutover rq) \<and> ''date'' \<in> set (fr_cols df) \<and> \<not> rq_settlement rq
      then (case strptime_ymd (the (rq_cutover rq)) of
              None \<Rightarrow> Inr (rows, [])
            | Some cutover \<Rightarrow>
                rbind (split_cutover pd cutover rows) (\<lambda>(pre, post).
                rbind (accrue_rows pre []) (\<lambda>ob. Inr (post, ob))))
      else Inr (rows, []))"

definition party_ledgers :: "row list \<Rightarrow> string list" where
  "party_ledgers rows = filter (\<lambda>s. s \<noteq> '''') (map (\<lambda>r. row_text r ''party_ledger'') rows)"

definition opening_ledger :: "string list \<Rightarrow> string \<times> dec \<Rightarrow> ledger_master list \<Rightarrow> ledger_master list res" where
  \<comment> \<open>one turn of the loop over the balances; the model class refuses a number that is not finite\<close>
  "opening_ledger parties nb ls =
     (let (name, net) = nb in
      rbind (of_trap (dec_eq net (Fin d_zero))) (\<lambda>zero.
      if zero then Inr ls
      else
        rbind (of_trap (dec_abs net)) (\<lambda>a.
        rbind (of_trap (dec_lt (Fin d_zero) net)) (\<lambda>pos.
        rbind (strip_name name) (\<lambda>nm.
        rbind (finite_dec a) (\<lambda>ob.
          Inr (ls @ [master_base.extend
            \<lparr>m_source_row = None, m_name = nm, m_action = CREATE, m_guid = None, m_master_id = None,
             m_alter_id = None, m_old_name = None\<rparr>
            (ledger_master.fields (if name \<in> set parties then ''Sundry Debtors'' else ''Primary'') ob pos
               None None None (Some ''India'') None None [] None None None None)])))))))"

section \<open>Vouchers\<close>

definition opening_ledgers :: "row list \<Rightarrow> (string, dec) dict \<Rightarrow> ledger_master list res" where
  "opening_ledgers rows ob = foldM (opening_ledger (party_ledgers rows)) ob []"

definition voucher_rows ::
    "date_parser \<Rightarrow> request \<Rightarrow> row list \<Rightarrow> (voucher list \<times> envelope list) res" where
  \<comment> \<open>the vouchers of the rows, summarised if asked for, and the errors of the conversion\<close>
  "voucher_rows pd rq rows =
     (case (if rq_settlement rq then settlement_rows_to_vouchers pd ''Bank'' CONVERT rows []
            else rows_to_vouchers pd CONVERT rows []) of
        (Inl e, _) \<Rightarrow> Inl e
      | (Inr vs, errs) \<Rightarrow>
          rbind (if rq_b2c_summary rq then aggregate_b2c_daily vs ''B2C Sales'' else Inr vs) (\<lambda>ws. Inr (ws, errs)))"

definition generate_vouchers ::
    "printer \<Rightarrow> date_parser \<Rightarrow> int \<Rightarrow> request \<Rightarrow> frame \<Rightarrow> job \<Rightarrow> job \<times> summary_result res" where
  "generate_vouchers pr pd now rq df j =
     (let company = pick_company rq j in
      case rbind (cutover_balances pd rq df) (\<lambda>(rows, ob).
           rbind (voucher_rows pd rq rows) (\<lambda>(vs, errs).
           rbind (opening_ledgers (records df) ob) (\<lambda>ls.
           rbind (xml_or_422 (build_and_serialize pr company [] [] [] ls vs (Some default_import_dups))) (\<lambda>xml.
             Inr (vs, errs, ls, xml))))) of
        Inl e \<Rightarrow> (j, Inl e)
      | Inr (vs, errs, ls, xml) \<Rightarrow>
          (with_xml now company xml
             [count_note ''generated'' (length vs), count_note ''voucher_lines'' (sum_list (map (\<lambda>v. length (v_lines v)) vs)),
              count_note ''convert_errors'' (length errs), count_note ''opening_balances'' (length ls)] j,
           Inr \<lparr>sm_generated = length vs, sm_held = 0, sm_skipped = 0, sm_errors = errs, sm_bytes = length xml,
                sm_debit_total = Some (d_sum (map debit_total vs)), sm_credit_total = Some (d_sum (map credit_total vs))\<rparr>))"

definition run_generation ::
    "printer \<Rightarrow> date_parser \<Rightarrow> int \<Rightarrow> request \<Rightarrow> job \<Rightarrow> job \<times> summary_result res" where
  "run_generation pr pd now rq j =
     (case require Generate j of
        Inl e \<Rightarrow> (j, Inl e)
      | Inr _ \<Rightarrow>
          (case (j_mapped_df j, j_validation j) of
             (Some df, Some vr) \<Rightarrow>
               let blocking = filter is_error (r_errors vr) in
               if blocking \<noteq> [] then (j, raise_with UnprocessableData ''validation_failed'' blocking)
               else if j_entity j = VOUCHER then generate_vouchers pr pd now rq df j
               else generate_masters pr now rq df j
           | _ \<Rightarrow> (j, raise_default InvalidState)))"

section \<open>Where every row goes\<close>

fun source_of :: "master \<Rightarrow> nat option" where
  "source_of (MUnit u) = m_source_row u"
| "source_of (MGroup g) = m_source_row g"
| "source_of (MItem i) = m_source_row i"
| "source_of (MLedger l) = m_source_row l"

lemma base_extend_source [simp]:
  "m_source_row (master_base.extend (common_fields name src r) (unit_master.fields a b c d e)) = src"
  "m_source_row (master_base.extend (common_fields name src r) (group_master.fields f g h i k)) = src"
  by (simp_all add: common_fields_def master_base.defs unit_master.defs group_master.defs)

lemma row_to_master_source:
  assumes "row_to_master ent r src es = (Inr (Some m), es')"
  shows "source_of m = src"
  using assms
  by (auto simp: row_to_master_def unit_of_row_def group_of_row_def ledger_of_row_def item_of_row_def
      lbind_Inr lcatch_Inr common_fields_def master_base.defs unit_master.defs group_master.defs ledger_master.defs
      stock_item.defs split: option.splits entity_type.splits)

lemma logs_fields:
  "logs (\<lambda>e. is_error e \<and> e_row e = src) (num_field ent src r f)"
  "logs (\<lambda>e. is_error e \<and> e_row e = src) (flag_field ent src r f)"
  unfolding num_field_def flag_field_def
  by (intro logs_intros; simp add: row_err_def field_err_def is_error_def)+

lemma logs_of_row:
  "logs (\<lambda>e. is_error e \<and> e_row e = src) (unit_of_row name src r)"
  "logs (\<lambda>e. is_error e \<and> e_row e = src) (group_of_row name src r)"
  "logs (\<lambda>e. is_error e \<and> e_row e = src) (ledger_of_row name src r)"
  "logs (\<lambda>e. is_error e \<and> e_row e = src) (item_of_row name src r)"
  unfolding unit_of_row_def group_of_row_def ledger_of_row_def item_of_row_def
  by (intro logs_intros logs_fields; simp add: row_err_def field_err_def is_error_def)+

lemma row_to_master_logs: "logs (\<lambda>e. is_error e \<and> e_row e = src) (row_to_master ent r src)"
proof -
  have "logs (\<lambda>e. is_error e \<and> e_row e = src)
      (case ent of UNIT \<Rightarrow> unit_of_row name src r | GROUP \<Rightarrow> group_of_row name src r | LEDGER \<Rightarrow> ledger_of_row name src r
       | STOCK_ITEM \<Rightarrow> item_of_row name src r | VOUCHER \<Rightarrow> llift (Inl ValueError))" for name
    by (cases ent) (simp_all add: logs_of_row logs_llift)
  then show ?thesis unfolding row_to_master_def
    by (intro logs_intros; simp add: row_err_def field_err_def is_error_def)
qed

lemma row_to_master_None:
  assumes "row_to_master ent r src es = (Inr None, es')"
  shows "\<exists>e\<in>set es'. is_error e \<and> e_row e = src"
  using assms
  by (auto simp: row_to_master_def unit_of_row_def group_of_row_def ledger_of_row_def item_of_row_def
      lbind_Inr lcatch_Inr row_err_def field_err_def is_error_def split: option.splits entity_type.splits)

definition batch_sources :: "batch \<Rightarrow> nat option list" where
  "batch_sources b = map m_source_row (ba_units b) @ map m_source_row (ba_groups b) @
     map m_source_row (ba_items b) @ map m_source_row (ba_ledgers b)"

lemma add_master_simps [simp]:
  "set (batch_sources (add_master m b)) = insert (source_of m) (set (batch_sources b))"
  "batch_total (add_master m b) = Suc (batch_total b)"
  "ba_held (add_master m b) = ba_held b" "ba_skipped (add_master m b) = ba_skipped b"
  by (cases m; auto simp: batch_sources_def batch_total_def)+

lemma held_simps [simp]:
  "batch_sources (b\<lparr>ba_held := n\<rparr>) = batch_sources b" "batch_total (b\<lparr>ba_held := n\<rparr>) = batch_total b"
  "batch_sources (b\<lparr>ba_skipped := n\<rparr>) = batch_sources b" "batch_total (b\<lparr>ba_skipped := n\<rparr>) = batch_total b"
  by (simp_all add: batch_sources_def batch_total_def)

definition is_conflict :: "verdict list option \<Rightarrow> nat \<Rightarrow> bool" where
  "is_conflict vs i \<longleftrightarrow> verdict_for vs i \<noteq> None \<and> vd_decision (the (verdict_for vs i)) = Conflict"

definition converted :: "verdict list option \<Rightarrow> (nat \<times> row) list \<Rightarrow> batch \<Rightarrow> envelope list \<Rightarrow> bool" where
  \<comment> \<open>what has become of the rows done so far\<close>
  "converted vs irs b es \<longleftrightarrow>
     batch_total b + ba_held b + ba_skipped b = length irs \<and>
     ba_held b = length (filter (\<lambda>ir. is_conflict vs (fst ir)) irs) \<and>
     set (batch_sources b) \<subseteq> {Some i |i. i \<in> fst ` set irs \<and> \<not> is_conflict vs i} \<and>
     (\<forall>i\<in>fst ` set irs. is_conflict vs i \<or> Some i \<in> set (batch_sources b) \<or> (\<exists>e\<in>set es. is_error e \<and> e_row e = Some i))"

lemma convert_row_cases:
  assumes "convert_row ent vs (i, r) b es = (Inr b', es')"
  shows "(is_conflict vs i \<and> b' = b\<lparr>ba_held := Suc (ba_held b)\<rparr> \<and> es' = es) \<or>
    (\<not> is_conflict vs i \<and> set es \<subseteq> set es' \<and>
      ((\<exists>m. source_of m = Some i \<and> b' = add_master m b) \<or>
       (b' = b\<lparr>ba_skipped := Suc (ba_skipped b)\<rparr> \<and> (\<exists>e\<in>set es'. is_error e \<and> e_row e = Some i))))"
proof (cases "is_conflict vs i")
  case True
  then show ?thesis using assms by (auto simp: convert_row_def is_conflict_def Let_def)
next
  case False
  let ?r = "case verdict_for vs i of None \<Rightarrow> r | Some w \<Rightarrow> apply_verdict w r"
  from False assms obtain m es1 where m: "row_to_master ent ?r (Some i) es = (Inr m, es1)"
    and k: "(case m of None \<Rightarrow> lret (b\<lparr>ba_skipped := Suc (ba_skipped b)\<rparr>) | Some x \<Rightarrow> lret (add_master x b)) es1 = (Inr b', es')"
    by (auto simp: convert_row_def is_conflict_def Let_def lbind_Inr simp del: fun_upd_apply)
  have "set es \<subseteq> set es1" by (rule logs_prefix [OF row_to_master_logs m])
  then show ?thesis using False k m row_to_master_None [of ent ?r "Some i" es es1]
      row_to_master_source [of ent ?r "Some i" es _ es1] by (cases m) auto
qed

lemma fst_enumerate1: "map fst (enumerate1 xs) = [1..<Suc (length xs)]"
  by (simp add: enumerate1_def)

lemma converted_all:
  assumes "lfold (convert_row ent vs) (enumerate1 rows) empty_batch [] = (Inr b, es)"
  shows "converted vs (enumerate1 rows) b es"
  using assms
proof (rule lfold_prefix)
  show "converted vs [] empty_batch []"
    by (simp add: converted_def empty_batch_def batch_total_def batch_sources_def)
next
  fix ys x zs b es b' es'
  assume xs: "enumerate1 rows = ys @ x # zs" and inv: "converted vs ys b es"
    and step: "convert_row ent vs x b es = (Inr b', es')"
  obtain i r where x: "x = (i, r)" by fastforce
  let ?err = "\<lambda>es i. \<exists>e\<in>set es. is_error e \<and> e_row e = Some i"
  note inv = inv [unfolded converted_def]
  from convert_row_cases [OF step [unfolded x]]
  have grow: "set es \<subseteq> set es'" "set (batch_sources b) \<subseteq> set (batch_sources b')"
    and new: "is_conflict vs i \<or> Some i \<in> set (batch_sources b') \<or> ?err es' i"
    and only: "set (batch_sources b') \<subseteq> (if is_conflict vs i then {} else {Some i}) \<union> set (batch_sources b)"
    and nums: "batch_total b' + ba_held b' + ba_skipped b' = Suc (batch_total b + ba_held b + ba_skipped b)"
      "ba_held b' = (if is_conflict vs i then Suc (ba_held b) else ba_held b)"
    by (elim disjE conjE exE; simp; blast)+
  have "is_conflict vs k \<or> Some k \<in> set (batch_sources b') \<or> ?err es' k" if "k \<in> fst ` set (ys @ [x])" for k
    using that new inv grow unfolding x by (simp; blast)
  moreover have "set (batch_sources b') \<subseteq> {Some i |i. i \<in> fst ` set (ys @ [x]) \<and> \<not> is_conflict vs i}"
    using only inv unfolding x by (auto split: if_splits)
  ultimately show "converted vs (ys @ [x]) b' es'"
    using nums inv by (simp add: converted_def x)
qed

text \<open>
  C6: Generating the masters accounts for every row of the table: the number of masters, of rows held
  for a conflict and of rows skipped add up to the number of rows; a row held for a conflict is the
  source of no master, and any other row is the source of one or has an error of its own.
\<close>

theorem masters_rows_accounted:
  assumes "lfold (convert_row ent vs) (enumerate1 (records df)) empty_batch [] = (Inr b, errs)"
  shows "batch_total b + ba_held b + ba_skipped b = length (fr_rows df) \<and>
    ba_held b = card {i. 1 \<le> i \<and> i \<le> length (fr_rows df) \<and> is_conflict vs i} \<and>
    (\<forall>i. 1 \<le> i \<longrightarrow> i \<le> length (fr_rows df) \<longrightarrow>
       (if is_conflict vs i then Some i \<notin> set (batch_sources b)
        else Some i \<in> set (batch_sources b) \<or> (\<exists>e\<in>set errs. is_error e \<and> e_row e = Some i)))"
proof -
  note c = converted_all [OF assms]
  let ?xs = "enumerate1 (records df)" and ?n = "length (fr_rows df)"
  have len: "length ?xs = ?n" by (simp add: enumerate1_def records_def del: upt_Suc)
  have m: "map fst ?xs = [1..<Suc ?n]" by (simp add: fst_enumerate1 records_def)
  have keys: "fst ` set ?xs = {1..?n}" using arg_cong [OF m, of set] by auto
  have "length (filter (\<lambda>ir. is_conflict vs (fst ir)) ?xs) = length (filter (is_conflict vs) (map fst ?xs))"
    by (simp add: filter_map comp_def)
  also have "\<dots> = card (set (filter (is_conflict vs) (map fst ?xs)))"
    by (rule distinct_card [symmetric]) (simp add: m)
  also have "set (filter (is_conflict vs) (map fst ?xs)) = {i. 1 \<le> i \<and> i \<le> ?n \<and> is_conflict vs i}"
    using keys by auto
  finally have held: "ba_held b = card {i. 1 \<le> i \<and> i \<le> ?n \<and> is_conflict vs i}"
    using c by (simp add: converted_def)
  have "if is_conflict vs i then Some i \<notin> set (batch_sources b)
      else Some i \<in> set (batch_sources b) \<or> (\<exists>e\<in>set errs. is_error e \<and> e_row e = Some i)"
    if "1 \<le> i" "i \<le> ?n" for i
  proof -
    have "i \<in> fst ` set ?xs" using that keys by auto
    then show ?thesis using c by (auto simp: converted_def)
  qed
  then show ?thesis using c held len by (simp add: converted_def)
qed

definition sample_frame :: frame where
  "sample_frame = \<lparr>fr_cols = [''name'', ''parent''], fr_rows = [[CStr ''Cash'', CStr ''Bank''], [CNA, CStr ''Bank'']]\<rparr>"

lemma sample_conversion:
  "\<exists>b es. lfold (convert_row GROUP None) (enumerate1 (records sample_frame)) empty_batch [] = (Inr b, es) \<and> batch_total b = 1"
proof -
  have e: "enumerate1 (records sample_frame) = [(1, [''name'' \<mapsto> CStr ''Cash'', ''parent'' \<mapsto> CStr ''Bank'']), (2, [''name'' \<mapsto> CNA, ''parent'' \<mapsto> CStr ''Bank''])]"
    by (simp add: enumerate1_def records_def sample_frame_def fun_eq_iff upt_rec numeral_2_eq_2)
  have c: "coerce_str (CStr ''Cash'') = Some ''Cash''" "coerce_str (CStr ''Bank'') = Some ''Bank''" "coerce_str CNA = None"
    "coerce_bool CNone = Inr None"
    by code_simp+
  show ?thesis unfolding e
    by (simp add: convert_row_def verdict_for_def row_to_master_def group_of_row_def flag_field_def rget_def c
        logged_eval lcatch_def empty_batch_def batch_total_def lbind_def lret_def llift_def lfail_def llog_def)
qed

theorem masters_rows_accounted_witness:
  "\<exists>b es. lfold (convert_row GROUP None) (enumerate1 (records sample_frame)) empty_batch [] = (Inr b, es) \<and>
     batch_total b + ba_held b + ba_skipped b = 2"
proof -
  obtain b es where b: "lfold (convert_row GROUP None) (enumerate1 (records sample_frame)) empty_batch [] = (Inr b, es)"
    using sample_conversion by blast
  from masters_rows_accounted [OF b] show ?thesis using b by (simp add: sample_frame_def)
qed

section \<open>The whole stage\<close>

lemma xml_or_422_Inr [simp]: "xml_or_422 m = Inr x \<longleftrightarrow> m = Inr x"
  by (auto simp: xml_or_422_def raise_app_def split: sum.splits exc.splits)

lemma xml_or_422_no_ValueError: "xml_or_422 m \<noteq> Inl ValueError"
  by (auto simp: xml_or_422_def raise_app_def split: sum.splits exc.splits)

lemma with_xml_simps [simp]:
  "j_status (with_xml now c x ns j) = GENERATED" "j_xml (with_xml now c x ns j) = Some x"
  "j_push (with_xml now c x ns j) = None" "j_mapped_df (with_xml now c x ns j) = j_mapped_df j"
  "j_df (with_xml now c x ns j) = j_df j" "j_validation (with_xml now c x ns j) = j_validation j"
  "j_id (with_xml now c x ns j) = j_id j" "j_org (with_xml now c x ns j) = j_org j"
  by (simp_all add: with_xml_def)

lemma rmap_build_voucher: "rmap build_voucher vs = Inr xs \<Longrightarrow> filter (\<lambda>v. \<not> is_balanced v) vs = []"
  by (induction vs arbitrary: xs) (auto simp: rbind_Inr build_voucher_def split: if_splits)

lemma envelope_balanced:
  "build_unified_envelope c us gs is ls vs d = Inr env \<Longrightarrow> filter (\<lambda>v. \<not> is_balanced v) vs = []"
  using rmap_build_voucher [of vs] by (cases "vs = []") (auto simp: build_unified_envelope_def rbind_Inr)

text \<open>
  C24: Import documents come only from a job in a state that allows it and whose validation has no
  blocking error; the job then is generated, holds exactly the document that was built, in which every
  voucher is balanced, and no result of an earlier push.  When the stage fails the job is as it was.
\<close>

theorem generation_guarded:
  "case run_generation pr pd now rq j of
      (j', Inl e) \<Rightarrow> j' = j
    | (j', Inr s) \<Rightarrow> j_status j \<in> set (allowed Generate) \<and>
        (\<exists>v. j_validation j = Some v \<and> filter is_error (r_errors v) = []) \<and>
        j_status j' = GENERATED \<and> j_push j' = None \<and>
        (\<exists>us gs is ls vs env. build_unified_envelope (pick_company rq j) us gs is ls vs (Some default_import_dups) = Inr env \<and>
           filter (\<lambda>v. \<not> is_balanced v) vs = [] \<and>
           j_xml j' = Some (serialize pr env) \<and> sm_bytes s = length (serialize pr env))"
proof -
  obtain j' r where jr: "run_generation pr pd now rq j = (j', r)" by fastforce
  show ?thesis
  proof (cases r)
    case (Inl e)
    then show ?thesis using jr
      by (auto simp: run_generation_def generate_vouchers_def generate_masters_def Let_def
          split: sum.splits option.splits if_splits prod.splits)
  next
    case (Inr s)
    with jr obtain df v where g: "j_status j \<in> set (allowed Generate)" "j_validation j = Some v"
        "filter is_error (r_errors v) = []"
      and rg: "generate_vouchers pr pd now rq df j = (j', Inr s) \<or> generate_masters pr now rq df j = (j', Inr s)"
      by (auto simp: run_generation_def Let_def raise_with_def raise_default_def
          split: sum.splits option.splits if_splits)
    from rg have "j_status j' = GENERATED \<and> j_push j' = None \<and>
        (\<exists>us gs is ls vs xml. build_and_serialize pr (pick_company rq j) us gs is ls vs (Some default_import_dups) = Inr xml \<and>
           j_xml j' = Some xml \<and> sm_bytes s = length xml)"
    proof
      assume "generate_vouchers pr pd now rq df j = (j', Inr s)"
      then show ?thesis
        by (fastforce simp: generate_vouchers_def Let_def rbind_Inr split: sum.splits prod.splits)
    next
      assume "generate_masters pr now rq df j = (j', Inr s)"
      then show ?thesis
        by (fastforce simp: generate_masters_def Let_def raise_with_def split: sum.splits prod.splits if_splits)
    qed
    then obtain us gs sis ls vs env where st: "j_status j' = GENERATED" "j_push j' = None"
      and b: "build_unified_envelope (pick_company rq j) us gs sis ls vs (Some default_import_dups) = Inr env"
      and x: "j_xml j' = Some (serialize pr env)" "sm_bytes s = length (serialize pr env)"
      by (auto simp: build_and_serialize_def rbind_Inr)
    have "\<exists>us gs is ls vs env. build_unified_envelope (pick_company rq j) us gs is ls vs (Some default_import_dups) = Inr env \<and>
        filter (\<lambda>v. \<not> is_balanced v) vs = [] \<and> j_xml j' = Some (serialize pr env) \<and> sm_bytes s = length (serialize pr env)"
      using b x envelope_balanced [OF b] by blast
    then show ?thesis using g st unfolding jr Inr by simp
  qed
qed

section \<open>Two gaps in the opening balances\<close>

definition cutover_request :: request where
  "cutover_request = \<lparr>rq_company = None, rq_cutover = Some ''2024-04-01'', rq_b2c_summary = False, rq_settlement = False\<rparr>"

definition debit_credit_frame :: frame where
  "debit_credit_frame =
     \<lparr>fr_cols = [''voucher_number'', ''date'', ''ledger_name'', ''debit'', ''credit''],
      fr_rows = [[CStr ''1'', CDate (Date 2024 3 31) ''2024-03-31'', CStr ''Cash'', CStr ''100'', CNA],
                 [CStr ''1'', CDate (Date 2024 3 31) ''2024-03-31'', CStr ''Sales'', CNA, CStr ''100'']]\<rparr>"

text \<open>
  With a cutover date, rows before it whose amounts are in a debit and a credit column vanish:
  they are taken out of the vouchers and add nothing to the opening balances.
\<close>

theorem cutover_drops_debit_credit_rows:
  "cutover_balances pd cutover_request debit_credit_frame = Inr ([], [])"
proof -
  have blank: "is_blank (CDate (Date 2024 3 31) ''2024-03-31'') = False" by code_simp
  have cut: "strptime_ymd ''2024-04-01'' = Some (Date 2024 4 1)" by code_simp
  have le: "(Date 2024 4 1 \<le> Date 2024 3 31) = False" by code_simp
  have tx: "strip ''Cash'' = ''Cash''" "strip ''Sales'' = ''Sales''" by code_simp+
  have none: "coerce_amount_drcr CNone CNone = Inr None" by (simp add: coerce_amount_drcr_def coerce_decimal_def)
  show ?thesis
    by (simp add: cutover_balances_def cutover_request_def debit_credit_frame_def truthy_def cut split_cutover_def
        records_def is_post_cutover_def coerce_date_def rget_def blank le [simplified] accrue_row_def row_text_def tx none Let_def)
qed

text \<open>
  A blank counter-party is carried forward as a ledger called nan: the missing cell is turned
  into text before it is tested.
\<close>

theorem blank_party_becomes_nan:
  "\<exists>ob. accrue_row [''ledger_name'' \<mapsto> CStr ''Cash'', ''party_ledger'' \<mapsto> CNA, ''amount'' \<mapsto> CStr ''100'', ''dr_cr'' \<mapsto> CStr ''Dr''] [] = Inr ob \<and>
     map fst ob = [''Cash'', ''nan'']"
proof -
  have a: "coerce_amount_drcr (CStr ''100'') (CStr ''Dr'') = Inr (Some (Fin (Dec False 100 0), True))" by code_simp
  have s: "strip ''Cash'' = ''Cash''" "strip ''nan'' = ''nan''" by code_simp+
  show ?thesis by (simp add: accrue_row_def row_text_def rget_def s a accrue_def setdefault_def Let_def)
qed

end
