(* ===== verification/TypedMasters.thy ===== *)
theory TypedMasters
  imports Generation
begin

text \<open>
  What the conversion of a row, \<open>row_to_master\<close> in \<open>app/pipeline/coercion.py\<close>, promises of a master, as the
  model classes of \<open>app/pipeline/entities.py\<close> declare it.
\<close>

definition plain_text :: "string \<Rightarrow> bool" where
  "plain_text s \<longleftrightarrow> s \<noteq> '''' \<and> strip s = s"

fun master_typed :: "entity_type \<Rightarrow> master \<Rightarrow> bool" where
  "master_typed UNIT (MUnit u) \<longleftrightarrow>
     plain_text (m_name u) \<and> (u_is_simple u \<longleftrightarrow> u_base_units u = None) \<and> (\<forall>b. u_base_units u = Some b \<longrightarrow> plain_text b)"
| "master_typed GROUP (MGroup g) \<longleftrightarrow> plain_text (m_name g) \<and> plain_text (g_parent g)"
| "master_typed STOCK_ITEM (MItem i) \<longleftrightarrow> plain_text (m_name i) \<and> plain_text (i_parent i) \<and> plain_text (i_base_units i)"
| "master_typed LEDGER (MLedger l) \<longleftrightarrow> plain_text (m_name l) \<and> plain_text (l_parent l) \<and> \<not> dneg (l_opening_balance l)"
| "master_typed ent m \<longleftrightarrow> False"

lemma coerce_str_plain: "coerce_str c = Some s \<Longrightarrow> plain_text s"
  using coerce_str_strip by (simp add: plain_text_def)

lemma primary_plain [simp]: "plain_text ''Primary''"
  by code_simp

lemma or_primary: "plain_text (or_else (coerce_str c) ''Primary'')"
  by (cases "coerce_str c") (simp_all add: coerce_str_plain)

lemma zero_not_negative: "\<not> dneg d_zero"
  by code_simp

lemma amount_not_negative:
  assumes "coerce_amount_drcr a d = Inr ob" "(case ob of None \<Rightarrow> Inr d_zero | Some (b, _) \<Rightarrow> finite_dec b) = Inr x"
  shows "\<not> dneg x"
proof (cases ob)
  case (Some p)
  then obtain b s where p: "ob = Some (b, s)" by (cases p) auto
  from assms(1) obtain q where "of_trap (dec_abs q) = Inr b" unfolding p
    by (auto simp: coerce_amount_drcr_def rbind_Inr Let_def split: option.splits)
  moreover have "b = Fin x" using assms(2) p by (simp add: finite_dec_Inr)
  ultimately have "dec_abs q = Inr (Fin x)" by (cases "dec_abs q") (auto simp: of_trap_def)
  then show ?thesis by (cases q) (auto split: if_splits)
qed (use assms(2) zero_not_negative in auto)

lemma row_to_master_typed:
  assumes "row_to_master ent r src es = (Inr (Some m), es')"
  shows "master_typed ent m"
  using assms amount_not_negative [of "rget r ''opening_balance''" "rget r ''opening_balance_drcr''"]
  by (auto simp: row_to_master_def unit_of_row_def group_of_row_def ledger_of_row_def item_of_row_def
      lbind_Inr lcatch_Inr common_fields_def master_base.defs unit_master.defs group_master.defs ledger_master.defs
      stock_item.defs or_primary coerce_str_plain split: option.splits entity_type.splits)

section \<open>What can be raised\<close>

named_theorems raising \<open>what code that records errors can raise\<close>

definition raises_only :: "exc set \<Rightarrow> 'a logged \<Rightarrow> bool" where
  "raises_only S m \<longleftrightarrow> (\<forall>es x es'. m es = (Inl x, es') \<longrightarrow> x \<in> S)"

lemma raises_lret [raising]: "raises_only S (lret x)"
  by (simp add: raises_only_def lret_def)

lemma raises_lfail [raising]: "raises_only S (lfail e)"
  by (simp add: raises_only_def logged_defs)

lemma raises_llift [raising]: "(\<And>x. m = Inl x \<Longrightarrow> x \<in> S) \<Longrightarrow> raises_only S (llift m)"
  by (simp add: raises_only_def llift_def)

lemma raises_lbind [raising]: "raises_only S m \<Longrightarrow> (\<And>x. raises_only S (f x)) \<Longrightarrow> raises_only S (lbind m f)"
  by (fastforce simp: raises_only_def lbind_def split: prod.splits sum.splits)

lemma raises_lcatch [raising]: "raises_only (insert ValueError S) m \<Longrightarrow> raises_only S h \<Longrightarrow> raises_only S (lcatch m h)"
  by (fastforce simp: raises_only_def lcatch_def split: prod.splits sum.splits if_splits)

lemma of_trap_Inl: "of_trap m = Inl x \<Longrightarrow> x = InvalidOperation"
  by (auto simp: of_trap_def split: sum.splits)

lemma coercions_raise:
  "coerce_decimal c = Inl x \<Longrightarrow> x \<in> {ValueError, InvalidOperation}"
  "coerce_bool c = Inl x \<Longrightarrow> x = ValueError"
  "coerce_amount_drcr c d = Inl x \<Longrightarrow> x \<in> {ValueError, InvalidOperation}"
  "finite_dec n = Inl x \<Longrightarrow> x = ValueError"
  "finite_opt q = Inl x \<Longrightarrow> x = ValueError"
  "dec_trunc n = Inl x \<Longrightarrow> x \<in> {ValueError, OverflowError}"
proof -
  note t = of_trap_Inl
  have signed: "(if a then Inr None else case p of None \<Rightarrow> Inl ValueError
      | Some m \<Rightarrow> if n then rbind (of_trap (dec_neg m)) (\<lambda>d. Inr (Some d)) else Inr (Some m)) = Inl x \<Longrightarrow> x \<in> {ValueError, InvalidOperation}" for a p n x
    by (auto simp: rbind_def split: if_splits option.splits sum.splits dest: t)
  have from_text: "coerce_decimal_text s = Inl x \<Longrightarrow> x \<in> {ValueError, InvalidOperation}" for s x
    unfolding coerce_decimal_text_def Let_def by (rule signed)
  show d: "coerce_decimal c = Inl x \<Longrightarrow> x \<in> {ValueError, InvalidOperation}" for c x
    using from_text by (auto simp: coerce_decimal_def split: if_splits cell.splits option.splits)
  show "coerce_bool c = Inl x \<Longrightarrow> x = ValueError" by (auto simp: coerce_bool_def Let_def split: if_splits)
  show "coerce_amount_drcr c d = Inl x \<Longrightarrow> x \<in> {ValueError, InvalidOperation}"
    using d [of c x] by (auto simp: coerce_amount_drcr_def Let_def rbind_def split: option.splits sum.splits dest: t)
  show f: "finite_dec n = Inl x \<Longrightarrow> x = ValueError" for n x by (cases n) auto
  show "finite_opt q = Inl x \<Longrightarrow> x = ValueError"
    using f by (auto simp: finite_opt_def rbind_def split: option.splits sum.splits)
  show "dec_trunc n = Inl x \<Longrightarrow> x \<in> {ValueError, OverflowError}" by (cases n) auto
qed

lemma raises_fields [raising]: "raises_only S (num_field ent src r f)" if "InvalidOperation \<in> S" for S
  unfolding num_field_def using that by (intro raising) (auto dest: coercions_raise(1))

lemma raises_flag [raising]: "raises_only S (flag_field ent src r f)"
  unfolding flag_field_def by (intro raising) (auto dest: coercions_raise(2))

lemma row_to_master_raises: "raises_only {InvalidOperation, OverflowError} (row_to_master ent r src)"
proof -
  let ?S = "{ValueError, InvalidOperation, OverflowError}"
  have o: "raises_only ?S (case ob of None \<Rightarrow> g | Some p \<Rightarrow> h p)" if "raises_only ?S g" "\<And>p. raises_only ?S (h p)" for ob :: "'z option" and g :: "'y logged" and h
    using that by (cases ob) simp_all
  have "raises_only ?S (unit_of_row name src r)" "raises_only ?S (group_of_row name src r)"
      "raises_only ?S (ledger_of_row name src r)" "raises_only ?S (item_of_row name src r)" for name
    unfolding unit_of_row_def group_of_row_def ledger_of_row_def item_of_row_def
    by (intro raising o; auto dest: coercions_raise split: option.splits)+
  then have "raises_only ?S (case ent of UNIT \<Rightarrow> unit_of_row name src r | GROUP \<Rightarrow> group_of_row name src r | LEDGER \<Rightarrow> ledger_of_row name src r
      | STOCK_ITEM \<Rightarrow> item_of_row name src r | VOUCHER \<Rightarrow> llift (Inl ValueError))" for name
    by (cases ent) (auto intro: raising)
  then show ?thesis unfolding row_to_master_def by (cases "coerce_str (rget r ''name'')") (auto intro!: raising)
qed


text \<open>A unit with an infinite number of decimal places is such a row.\<close>

lemma infinite_places_raise:
  "fst (row_to_master UNIT [''name'' \<mapsto> CStr ''Nos'', ''decimal_places'' \<mapsto> CStr ''Infinity''] (Some 2) []) = Inl OverflowError"
  by code_simp

end
