(* ===== verification/PushFlow.thy ===== *)
theory PushFlow
  imports Generation
begin

text \<open>
  The push of a document to Tally: \<open>ensure_pushable\<close>, \<open>claim_push\<close>, \<open>record_push_result\<close>,
  \<open>record_push_failure\<close> and \<open>run_push\<close> of \<open>app/services/pipeline_service.py\<close>, and \<open>push_task\<close> of
  \<open>app/workers/tasks.py\<close>, whose critical sections may be interleaved with those of other workers and
  with the stages a user runs on the same job.
\<close>

section \<open>The claim\<close>

definition ensure_pushable :: "int \<Rightarrow> job \<Rightarrow> unit res" where
  "ensure_pushable now j =
     rbind (if j_status j = PUSHING
            then (if now - j_updated_at j < stale_push_seconds then raise_app InvalidState ''push_in_progress'' else Inr ())
            else require Push j) (\<lambda>_.
     if j_xml j = None then raise_default InvalidState else Inr ())"

definition claim_push :: "int \<Rightarrow> job \<Rightarrow> job \<times> unit res" where
  "claim_push now j =
     (case ensure_pushable now j of Inl e \<Rightarrow> (j, Inl e) | Inr _ \<Rightarrow> (advance now PUSHING j, Inr ()))"

definition release_claim :: "int \<Rightarrow> job \<Rightarrow> job" where
  "release_claim now j = advance now GENERATED j"

section \<open>The outcome\<close>

definition int_text :: "int \<Rightarrow> string" where
  "int_text i = (if i < 0 then ''-'' @ nat_str (nat (- i)) else nat_str (nat i))"

definition partial_note :: "import_result \<Rightarrow> string" where
  "partial_note r =
     ''partial import: '' @ int_text (ir_created r + ir_altered r + ir_combined r) @ '' row(s) already in Tally, '' @
     int_text (ir_errors r) @ '' error(s), '' @ nat_str (length (ir_line_errors r)) @
     '' line error(s) - re-push blocked to avoid duplicates''"

definition push_verdict :: "import_result \<Rightarrow> job_status" where
  "push_verdict r =
     (if is_success r then PUSHED
      else if ir_created r + ir_altered r + ir_combined r = 0 then PUSH_FAILED else PUSHED_PARTIAL)"

definition record_push_result :: "int \<Rightarrow> import_result \<Rightarrow> job \<Rightarrow> job \<times> job_status" where
  "record_push_result now r j =
     (let st = push_verdict r; j1 = j\<lparr>j_push := Some r\<rparr>;
          j2 = (if st = PUSHED_PARTIAL then j1\<lparr>j_notes := j_notes j1 @ [partial_note r]\<rparr> else j1)
      in (advance now st j2, st))"

definition record_push_failure :: "int \<Rightarrow> string \<Rightarrow> job \<Rightarrow> job" where
  "record_push_failure now reason j =
     advance now PUSH_FAILED
       (j\<lparr>j_notes := j_notes j @ [''push failed: '' @ reason @ '' - verify in Tally before re-pushing'']\<rparr>)"

section \<open>The task\<close>

text \<open>
  What the transport does with the document: a gateway on the same machine, or the relay to the
  bridge of the organization.
\<close>

datatype gateway = Unreachable | Answer string

datatype relay_outcome = Not_Connected | Offline string | Relayed response

record push_env =
  pe_response :: response_env
  pe_direct :: bool
  pe_message :: "exc \<Rightarrow> string"

definition run_push :: "push_env \<Rightarrow> gateway \<Rightarrow> job \<Rightarrow> import_result res" where
  "run_push env gw j =
     (if j_xml j = None then raise_default InvalidState
      else if \<not> pe_direct env then raise_app ServiceUnavailable ''bridge_unavailable''
      else case gw of
          Unreachable \<Rightarrow> raise_app ServiceUnavailable (code_str TALLY_UNREACHABLE)
        | Answer body \<Rightarrow>
            (case parse_import_response (pe_response env) (Bytes body) of
               Inl XMLSecurityError \<Rightarrow> raise_app UnprocessableData ''bad_tally_response''
             | Inl e \<Rightarrow> Inl e
             | Inr r \<Rightarrow> Inr r))"

datatype task_result = Done job_status import_result | Failed problem | Crashed exc

definition failed_with :: "exc \<Rightarrow> task_result" where
  "failed_with e = (case e of AppErr a \<Rightarrow> Failed (to_problem a) | _ \<Rightarrow> Crashed e)"

definition push_direct :: "push_env \<Rightarrow> int \<Rightarrow> gateway \<Rightarrow> job \<Rightarrow> job \<times> task_result" where
  "push_direct env now gw j =
     (case run_push env gw j of
        Inr r \<Rightarrow> (let (j1, st) = record_push_result now r j in (j1, Done st r))
      | Inl (AppErr a) \<Rightarrow> (record_push_failure now (pe_message env (AppErr a)) j, failed_with (AppErr a))
      | Inl e \<Rightarrow> (j, Crashed e))"

definition app_failure :: "app_class \<Rightarrow> string \<Rightarrow> task_result" where
  "app_failure cls code = Failed (to_problem (app_error_new cls (Some code) []))"

definition push_relayed :: "push_env \<Rightarrow> int \<Rightarrow> relay_outcome \<Rightarrow> job \<Rightarrow> job \<times> task_result" where
  "push_relayed env now out j =
     (case out of
        Not_Connected \<Rightarrow> (release_claim now j, app_failure ServiceUnavailable ''bridge_unavailable'')
      | Offline reason \<Rightarrow> (record_push_failure now reason j, app_failure ServiceUnavailable ''bridge_no_result'')
      | Relayed data \<Rightarrow>
          (case parse_import_response (pe_response env) data of
             Inr r \<Rightarrow> (let (j1, st) = record_push_result now r j in (j1, Done st r))
           | Inl XMLSecurityError \<Rightarrow>
               (record_push_failure now (''unparseable Tally response: '' @ pe_message env XMLSecurityError) j,
                app_failure UnprocessableData ''bad_tally_response'')
           | Inl e \<Rightarrow> (j, Crashed e)))"

definition push_task :: "push_env \<Rightarrow> int \<Rightarrow> int \<Rightarrow> gateway \<Rightarrow> relay_outcome \<Rightarrow> job \<Rightarrow> job \<times> task_result" where
  \<comment> \<open>an undisturbed run: the time of the claim and that of the record\<close>
  "push_task env t0 t1 gw out j =
     (case claim_push t0 j of
        (j1, Inl e) \<Rightarrow> (j1, failed_with e)
      | (j1, Inr _) \<Rightarrow> if pe_direct env then push_direct env t1 gw j1 else push_relayed env t1 out j1)"

section \<open>Facts\<close>

lemma ensure_pushable_Inr:
  "ensure_pushable now j = Inr u \<longleftrightarrow> j_xml j \<noteq> None \<and>
     (j_status j = PUSHING \<and> stale_push_seconds \<le> now - j_updated_at j \<or> j_status j = GENERATED \<or> j_status j = PUSH_FAILED)"
  by (auto simp: ensure_pushable_def raise_app_def raise_default_def rbind_Inr)

lemma claim_push_Inr:
  "claim_push now j = (j', Inr u) \<longleftrightarrow> ensure_pushable now j = Inr () \<and> j' = advance now PUSHING j"
  by (auto simp: claim_push_def split: sum.splits)

lemma claim_push_Inl: "claim_push now j = (j', Inl e) \<Longrightarrow> j' = j"
  by (auto simp: claim_push_def split: sum.splits)

lemma record_push_result_simps [simp]:
  "snd (record_push_result now r j) = push_verdict r"
  "j_status (fst (record_push_result now r j)) = push_verdict r"
  "j_xml (fst (record_push_result now r j)) = j_xml j"
  "j_push (fst (record_push_result now r j)) = Some r"
  "j_updated_at (fst (record_push_result now r j)) = now"
  "j_mapped_df (fst (record_push_result now r j)) = j_mapped_df j"
  "j_df (fst (record_push_result now r j)) = j_df j"
  "j_validation (fst (record_push_result now r j)) = j_validation j"
  by (simp_all add: record_push_result_def Let_def)

lemma record_push_failure_simps [simp]:
  "j_status (record_push_failure now s j) = PUSH_FAILED" "j_xml (record_push_failure now s j) = j_xml j"
  "j_push (record_push_failure now s j) = j_push j" "j_mapped_df (record_push_failure now s j) = j_mapped_df j"
  "j_df (record_push_failure now s j) = j_df j" "j_validation (record_push_failure now s j) = j_validation j"
  by (simp_all add: record_push_failure_def)

lemma release_claim_simps [simp]:
  "j_status (release_claim now j) = GENERATED" "j_xml (release_claim now j) = j_xml j"
  "j_push (release_claim now j) = j_push j" "j_mapped_df (release_claim now j) = j_mapped_df j"
  "j_df (release_claim now j) = j_df j" "j_validation (release_claim now j) = j_validation j"
  by (simp_all add: release_claim_def)

lemma push_verdict_range: "push_verdict r \<in> {PUSHED, PUSH_FAILED, PUSHED_PARTIAL}"
  by (simp add: push_verdict_def)


end
