(* ===== verification/Lease.thy ===== *)
theory Lease
  imports Prelude
begin

text \<open>
  Claims with a time limit, the interface between those who ask for a claim and whatever keeps it: the push
  of a job under the job's lock, and the relay of a request under a key of the broker.
\<close>

text \<open>
  What the client of a claim relies on: a fresh claim refuses every other, and a successful claim
  is fresh from that moment.
\<close>

text \<open>A sequence of claims with nothing in between: the times of those that succeed.\<close>

fun claim_times :: "(int \<Rightarrow> 'j \<Rightarrow> 'j option) \<Rightarrow> int list \<Rightarrow> 'j \<Rightarrow> int list" where
  "claim_times claim [] j = []"
| "claim_times claim (t # ts) j =
     (case claim t j of None \<Rightarrow> claim_times claim ts j | Some j' \<Rightarrow> t # claim_times claim ts j')"

locale lease =
  fixes held_since :: "'j \<Rightarrow> int option"
    and claim :: "int \<Rightarrow> 'j \<Rightarrow> 'j option"
    and ttl :: int
  assumes fresh_refuses: "held_since j = Some t \<Longrightarrow> now - t < ttl \<Longrightarrow> claim now j = None"
    and claim_holds: "claim now j = Some j' \<Longrightarrow> held_since j' = Some now"
begin

lemma claims_apart: "claim t0 j = Some j1 \<Longrightarrow> claim t1 j1 = Some j2 \<Longrightarrow> ttl \<le> t1 - t0"
  using claim_holds [of t0 j j1] fresh_refuses [of j1 t0 t1] by fastforce

lemma claim_times_from: "held_since j = Some t0 \<Longrightarrow> claim_times claim ts j = t1 # rest \<Longrightarrow> ttl \<le> t1 - t0"
proof (induction ts)
  case (Cons t ts)
  then show ?case using fresh_refuses [of j t0 t] by (auto split: option.splits) force
qed simp

lemma claim_times_apart: "claim_times claim ts j = us \<Longrightarrow> i + 1 < length us \<Longrightarrow> ttl \<le> us ! (i + 1) - us ! i"
proof (induction ts arbitrary: j us i)
  case (Cons t ts)
  show ?case
  proof (cases "claim t j")
    case None
    then show ?thesis using Cons by simp
  next
    case (Some j')
    then have us: "us = t # claim_times claim ts j'" using Cons.prems by simp
    show ?thesis
    proof (cases i)
      case 0
      then obtain u rest where "claim_times claim ts j' = u # rest" using Cons.prems us by (cases "claim_times claim ts j'") auto
      then show ?thesis using claim_times_from [OF claim_holds [OF Some]] us 0 by simp
    next
      case (Suc k)
      then show ?thesis using Cons.IH [of j' "claim_times claim ts j'" k] Cons.prems us by simp
    qed
  qed
qed simp

end

end
