(* ===== verification/JobSystem.thy ===== *)
theory JobSystem
  imports PushFlow Lease
begin

text \<open>
  One job, the stages a user runs on it and any number of push workers, interleaved at the critical
  sections the job's lock makes of their code.  A worker that has claimed the push holds the document
  and either delivers it to Tally, and later records the answer, or gives up before anything is sent.
\<close>

section \<open>The claim of a push as a lease\<close>

definition pushing_since :: "job \<Rightarrow> int option" where
  "pushing_since j = (if j_status j = PUSHING then Some (j_updated_at j) else None)"

definition try_claim :: "int \<Rightarrow> job \<Rightarrow> job option" where
  "try_claim now j = (case claim_push now j of (j', Inr _) \<Rightarrow> Some j' | _ \<Rightarrow> None)"

lemma try_claim_Some: "try_claim now j = Some j' \<longleftrightarrow> ensure_pushable now j = Inr () \<and> j' = advance now PUSHING j"
  by (auto simp: try_claim_def claim_push_def split: sum.splits)

interpretation push: lease pushing_since try_claim stale_push_seconds
proof unfold_locales
  show "try_claim now j = None" if "pushing_since j = Some t" "now - t < stale_push_seconds" for j t now
    using that try_claim_Some [of now j] by (cases "try_claim now j") (auto simp: pushing_since_def ensure_pushable_Inr split: if_splits)
  show "pushing_since j' = Some now" if "try_claim now j = Some j'" for now j j'
    using that by (simp add: try_claim_Some pushing_since_def)
qed

text \<open>
  However often a push is requested for a job, the requests that get the claim are at least three
  hundred seconds apart as long as none of them has been answered: a second push of a document that is
  on its way is refused.
\<close>

theorem concurrent_pushes_apart:
  assumes "claim_times try_claim ts j = us" "i + 1 < length us"
  shows "300 \<le> us ! (i + 1) - us ! i"
  using push.claim_times_apart [OF assms] by (simp add: stale_push_seconds_def)

definition generated_job :: job where
  "generated_job = (new_job ''j1'' LEDGER 0)\<lparr>j_status := GENERATED, j_xml := Some ''<ENVELOPE/>''\<rparr>"

theorem concurrent_pushes_apart_witness:
  "\<exists>us. claim_times try_claim [5, 6, 304, 306, 700] generated_job = us \<and> us = [5, 306, 700] \<and> 300 \<le> us ! 1 - us ! 0"
proof -
  have c: "claim_times try_claim [5, 6, 304, 306, 700] generated_job = [5, 306, 700]" by code_simp
  from concurrent_pushes_apart [OF c, of 0] show ?thesis using c by simp
qed

section \<open>Stages\<close>

record stage_env =
  en_services :: services
  en_limits :: limits
  en_printer :: printer

datatype stage_call =
    C_Upload string "string option"
  | C_Map "(string, string option) dict" "(string, string) dict" "string option"
  | C_Validate known_values
  | C_Resolve "row list option"
  | C_Generate request

definition is_Inr :: "'a + 'b \<Rightarrow> bool" where
  "is_Inr x \<longleftrightarrow> (case x of Inl _ \<Rightarrow> False | Inr _ \<Rightarrow> True)"

fun run_stage :: "stage_env \<Rightarrow> int \<Rightarrow> stage_call \<Rightarrow> staged_record list \<times> job \<Rightarrow> staged_record list \<times> job \<times> bool" where
  "run_stage en now (C_Upload content fn) (st, j) =
     (case ingest (en_services en) (en_limits en) now content fn st j of (st', j', r) \<Rightarrow> (st', j', is_Inr r))"
| "run_stage en now (C_Map m c t) (st, j) =
     (case apply_mapping (en_services en) now m c t j of (j', r) \<Rightarrow> (st, j', is_Inr r))"
| "run_stage en now (C_Validate kn) (st, j) =
     (case run_validation (en_services en) now kn j of (j', r) \<Rightarrow> (st, j', is_Inr r))"
| "run_stage en now (C_Resolve ex) (st, j) =
     (case run_resolution (en_services en) now ex j of (j', r) \<Rightarrow> (st, j', is_Inr r))"
| "run_stage en now (C_Generate rq) (st, j) =
     (case run_generation (en_printer en) (sv_dates (en_services en)) now rq j of (j', r) \<Rightarrow> (st, j', is_Inr r))"

text \<open>
  A job's artefacts agree with its state: each stage has left what the later ones need, and there is
  a document exactly from generation on, so no document outlives a change of the data it was made of.
\<close>

definition coherent :: "job \<Rightarrow> bool" where
  "coherent j \<longleftrightarrow>
     (j_status j \<noteq> CREATED \<longrightarrow> j_df j \<noteq> None) \<and>
     (j_status j \<notin> {CREATED, PARSED} \<longrightarrow> j_mapped_df j \<noteq> None) \<and>
     (j_status j \<notin> {CREATED, PARSED, MAPPED} \<longrightarrow> j_validation j \<noteq> None) \<and>
     (j_xml j \<noteq> None \<longleftrightarrow> j_status j \<in> {GENERATED, PUSHING, PUSHED, PUSHED_PARTIAL, PUSH_FAILED}) \<and>
     (j_push j \<noteq> None \<longrightarrow> j_xml j \<noteq> None)"

definition stage_result_states :: "job_status set" where
  "stage_result_states = {PARSED, MAPPED, VALIDATED, RESOLVED, GENERATED}"

definition stage_effect :: "job \<Rightarrow> job \<Rightarrow> bool \<Rightarrow> bool" where
  "stage_effect j j' ok \<longleftrightarrow>
     (if ok then j_status j \<noteq> PUSHING \<and> j_status j' \<in> stage_result_states
      else j_status j' = j_status j \<and> j_updated_at j' = j_updated_at j) \<and>
     (coherent j \<longrightarrow> coherent j')"

lemma stage_effect_refl: "stage_effect j j False"
  by (simp add: stage_effect_def)

lemma is_Inr_simps [simp]: "is_Inr (Inr x)" "\<not> is_Inr (Inl e)"
  by (simp_all add: is_Inr_def)

lemma ingest_result:
  assumes "ingest sv lm now content fn st j = (st', j', r)"
  shows "\<not> is_Inr r \<and> (j' = j \<or> (\<exists>df. j' = j\<lparr>j_df := Some df\<rparr>)) \<or>
    is_Inr r \<and> j_status j \<noteq> PUSHING \<and>
      (\<exists>df p n. j' = advance now PARSED (reset_from True (j\<lparr>j_df := Some df, j_profile := Some p, j_filename := fn,
         j_upload := Some content, j_notes := n\<rparr>)))"
proof (cases "require Upload j")
  case (Inl e)
  then show ?thesis using assms by (cases r) (auto simp: ingest_def)
next
  case (Inr u)
  then have s: "j_status j \<noteq> PUSHING" by (auto simp: statuses_def)
  let ?r = "parse_file (sv_readers sv) content (if truthy fn then the fn else ''upload.csv'') (lm_max_rows lm)"
  show ?thesis
  proof (cases "pr_data ?r")
    case None
    then show ?thesis using assms Inr by (cases r) (auto simp: ingest_def Let_def raise_with_def)
  next
    case (Some df)
    show ?thesis
    proof (cases "lm_max_columns lm < length (fr_cols df)")
      case True
      then show ?thesis using assms Inr Some by (cases r) (auto simp: ingest_def Let_def raise_with_def)
    next
      case False
      then show ?thesis using assms Inr Some s by (cases "profile df"; cases r) (auto simp: ingest_def Let_def)
    qed
  qed
qed

lemma effect_upload:
  assumes "ingest sv lm now content fn st j = (st', j', r)" shows "stage_effect j j' (is_Inr r)"
  using ingest_result [OF assms]
  by (elim disjE conjE exE) (simp_all add: stage_effect_refl stage_effect_def coherent_def stage_result_states_def reset_from_def Let_def del: not_None_eq)

lemma apply_mapping_result:
  assumes "apply_mapping sv now m c t j = (j', r)"
  shows "\<not> is_Inr r \<and> (j' = j \<or> (\<exists>m c. j' = j\<lparr>j_mapping := Some m, j_constants := c\<rparr>)) \<or>
    is_Inr r \<and> j_status j \<in> set (allowed Map_Columns) \<and> j_df j \<noteq> None \<and>
      (\<exists>m c g. j' = advance now MAPPED (reset_from False (j\<lparr>j_mapping := Some m, j_constants := c, j_mapped_df := Some g\<rparr>)))"
proof (cases "require Map_Columns j")
  case (Inl e)
  then show ?thesis using assms by (cases r) (auto simp: apply_mapping_def)
next
  case req: (Inr u)
  show ?thesis
  proof (cases "j_df j")
    case None
    then show ?thesis using assms req by (cases r) (auto simp: apply_mapping_def raise_default_def)
  next
    case (Some df)
    let ?c = "rbind (with_template t m c) (\<lambda>mc. rbind (check_mapping (sv_catalog sv (j_entity j)) df (fst mc) (snd mc)) (\<lambda>_. Inr mc))"
    show ?thesis
    proof (cases ?c)
      case (Inl e)
      then show ?thesis using assms req Some by (cases r) (auto simp: apply_mapping_def)
    next
      case (Inr mc)
      obtain m1 c1 where "mc = (m1, c1)" by fastforce
      then show ?thesis using assms req [THEN require_Inr [THEN iffD1]] req Some Inr
        by (cases "build_mapped_df df m1 c1"; cases r) (auto simp: apply_mapping_def Let_def simp del: allowed.simps)
    qed
  qed
qed

lemma effect_map:
  assumes "apply_mapping sv now m c t j = (j', r)" shows "stage_effect j j' (is_Inr r)"
  using apply_mapping_result [OF assms]
  by (elim disjE conjE exE; cases "j_status j") (auto simp: stage_effect_def coherent_def stage_result_states_def reset_from_def Let_def simp del: not_None_eq)

lemma run_validation_result:
  assumes "run_validation sv now kn j = (j', r)"
  shows "\<not> is_Inr r \<and> j' = j \<or>
    is_Inr r \<and> j_status j \<in> set (allowed Validate) \<and> j_mapped_df j \<noteq> None \<and>
      (\<exists>v. j' = advance now VALIDATED (j\<lparr>j_validation := Some v, j_resolution := None, j_xml := None, j_push := None\<rparr>))"
proof (cases "require Validate j")
  case (Inl e)
  then show ?thesis using assms by (cases r) (auto simp: run_validation_def)
next
  case req: (Inr u)
  then have s: "j_status j \<in> set (allowed Validate)" by (rule require_Inr [THEN iffD1])
  show ?thesis
  proof (cases "j_mapped_df j")
    case None
    then show ?thesis using assms req by (auto simp: run_validation_def raise_default_def)
  next
    case (Some df)
    then show ?thesis using assms req s
      by (cases r; cases "validate (sv_validator sv) (sv_dates sv) df (j_entity j) kn")
        (auto simp: run_validation_def simp del: allowed.simps)
  qed
qed

lemma effect_validate:
  assumes "run_validation sv now kn j = (j', r)" shows "stage_effect j j' (is_Inr r)"
  using run_validation_result [OF assms]
  by (elim disjE conjE exE; cases "j_status j") (auto simp: stage_effect_def coherent_def stage_result_states_def simp del: not_None_eq)

lemma run_resolution_result:
  assumes "run_resolution sv now ex j = (j', r)"
  shows "\<not> is_Inr r \<and> j' = j \<or>
    is_Inr r \<and> j_status j \<in> set (allowed Resolve) \<and>
      (\<exists>vs. j' = advance now RESOLVED (j\<lparr>j_resolution := Some vs, j_xml := None, j_push := None\<rparr>))"
proof (cases "require Resolve j")
  case (Inl e)
  then show ?thesis using assms by (cases r) (auto simp: run_resolution_def)
next
  case req: (Inr u)
  then have s: "j_status j \<in> set (allowed Resolve)" by (rule require_Inr [THEN iffD1])
  show ?thesis using assms req s
    by (cases "j_mapped_df j"; cases "j_entity j = VOUCHER")
      (auto simp: run_resolution_def Let_def raise_default_def raise_app_def simp del: allowed.simps)
qed

lemma effect_resolve:
  assumes "run_resolution sv now ex j = (j', r)" shows "stage_effect j j' (is_Inr r)"
  using run_resolution_result [OF assms]
  by (elim disjE conjE exE; cases "j_status j") (auto simp: stage_effect_def coherent_def stage_result_states_def simp del: not_None_eq)

lemma generated_masters:
  assumes "generate_masters pr now rq df j = (j', r)"
  shows "\<not> is_Inr r \<and> j' = j \<or> is_Inr r \<and> (\<exists>co xml n. j' = with_xml now co xml n j)"
proof -
  obtain x errs where l: "lfold (convert_row (j_entity j) (j_resolution j)) (enumerate1 (records df)) empty_batch [] = (x, errs)"
    by fastforce
  show ?thesis
  proof (cases x)
    case (Inl e)
    then show ?thesis using assms l by (cases r) (simp_all add: generate_masters_def)
  next
    case (Inr b)
    show ?thesis
    proof (cases "batch_total b = 0")
      case True
      then show ?thesis using assms l Inr by (cases r) (simp_all add: generate_masters_def raise_with_def)
    next
      case False
      define y where "y = xml_or_422 (build_and_serialize pr (pick_company rq j) (ba_units b) (ba_groups b) (ba_items b) (ba_ledgers b) []
        (Some default_import_dups))"
      show ?thesis using assms l Inr False unfolding generate_masters_def Let_def
        by (cases y; cases r) (auto simp: y_def [symmetric])
    qed
  qed
qed

lemma generated_vouchers:
  assumes "generate_vouchers pr pd now rq df j = (j', r)"
  shows "\<not> is_Inr r \<and> j' = j \<or> is_Inr r \<and> (\<exists>co xml n. j' = with_xml now co xml n j)"
proof -
  define m where "m = rbind (cutover_balances pd rq df) (\<lambda>(rows, ob).
           rbind (voucher_rows pd rq rows) (\<lambda>(vs, errs).
           rbind (opening_ledgers (records df) ob) (\<lambda>ls.
           rbind (xml_or_422 (build_and_serialize pr (pick_company rq j) [] [] [] ls vs (Some default_import_dups))) (\<lambda>xml.
             Inr (vs, errs, ls, xml)))))"
  show ?thesis using assms unfolding generate_vouchers_def Let_def
    by (cases m; cases r) (auto simp: m_def [symmetric] split: prod.splits)
qed

lemma run_generation_result:
  assumes "run_generation pr pd now rq j = (j', r)"
  shows "\<not> is_Inr r \<and> j' = j \<or>
    is_Inr r \<and> j_status j \<in> set (allowed Generate) \<and> j_mapped_df j \<noteq> None \<and> j_validation j \<noteq> None \<and>
      (\<exists>co xml n. j' = with_xml now co xml n j)"
proof (cases "require Generate j")
  case (Inl e)
  then show ?thesis using assms by (cases r) (auto simp: run_generation_def)
next
  case (Inr u)
  then have s: "j_status j \<in> set (allowed Generate)" by (rule require_Inr [THEN iffD1])
  show ?thesis
  proof (cases "j_mapped_df j = None \<or> j_validation j = None")
    case True
    then show ?thesis using assms Inr by (auto simp: run_generation_def raise_default_def split: option.splits)
  next
    case False
    then obtain df v where d: "j_mapped_df j = Some df" "j_validation j = Some v" by auto
    show ?thesis
    proof (cases "filter is_error (r_errors v) = []")
      case True
      then consider "generate_vouchers pr pd now rq df j = (j', r)" | "generate_masters pr now rq df j = (j', r)"
        using assms Inr d by (auto simp: run_generation_def Let_def split: if_splits)
      then show ?thesis using s d by cases (auto dest: generated_vouchers generated_masters simp del: allowed.simps)
    next
      case False
      then show ?thesis using assms Inr d by (cases r) (auto simp: run_generation_def Let_def raise_with_def)
    qed
  qed
qed

lemma effect_generate:
  assumes "run_generation pr pd now rq j = (j', r)" shows "stage_effect j j' (is_Inr r)"
  using run_generation_result [OF assms]
  by (elim disjE conjE exE; cases "j_status j") (auto simp: stage_effect_def coherent_def stage_result_states_def with_xml_def simp del: not_None_eq)

lemma run_stage_effect:
  assumes "run_stage en now c (st, j) = (st', j', ok)" shows "stage_effect j j' ok"
proof (cases c)
  case (C_Upload content fn)
  then obtain r where "ingest (en_services en) (en_limits en) now content fn st j = (st', j', r)" "ok = is_Inr r"
    using assms by (auto split: prod.splits)
  then show ?thesis using effect_upload by blast
next
  case (C_Map m cs t)
  then obtain r where "apply_mapping (en_services en) now m cs t j = (j', r)" "ok = is_Inr r"
    using assms by (auto split: prod.splits)
  then show ?thesis using effect_map by blast
next
  case (C_Validate kn)
  then obtain r where "run_validation (en_services en) now kn j = (j', r)" "ok = is_Inr r"
    using assms by (auto split: prod.splits)
  then show ?thesis using effect_validate by blast
next
  case (C_Resolve ex)
  then obtain r where "run_resolution (en_services en) now ex j = (j', r)" "ok = is_Inr r"
    using assms by (auto split: prod.splits)
  then show ?thesis using effect_resolve by blast
next
  case (C_Generate rq)
  then obtain r where "run_generation (en_printer en) (sv_dates (en_services en)) now rq j = (j', r)" "ok = is_Inr r"
    using assms by (auto split: prod.splits)
  then show ?thesis using effect_generate by blast
qed

section \<open>The job and its workers\<close>

text \<open>
  A worker that relays a push holds its claim, then holds the outcome of the delivery until it has
  recorded it.  A crash loses what the worker knows.  Two ghost counters speak of the present document:
  the deliveries that imported something, and those of them whose answer a crash has lost.
\<close>

datatype phase = Idle | Holding int | Sent int relay_outcome

record sys =
  sy_now :: int
  sy_staged :: "staged_record list"
  sy_job :: job
  sy_workers :: "nat \<Rightarrow> phase"
  sy_imported :: nat
  sy_lost :: nat

fun claimed_at :: "phase \<Rightarrow> int option" where
  "claimed_at Idle = None"
| "claimed_at (Holding t) = Some t"
| "claimed_at (Sent t out) = Some t"

definition has_imported :: "push_env \<Rightarrow> relay_outcome \<Rightarrow> bool" where
  \<comment> \<open>the answer says that something was imported\<close>
  "has_imported pe out =
     (case out of
        Relayed data \<Rightarrow> (case parse_import_response (pe_response pe) data of Inr r \<Rightarrow> push_verdict r \<noteq> PUSH_FAILED | Inl e \<Rightarrow> False)
      | _ \<Rightarrow> False)"

datatype event = Tick int | Stage stage_call | Claim nat | Deliver nat relay_outcome | Record nat | Crash nat

text \<open>In a timely run no worker holds a claim for as long as a claim counts as fresh.\<close>

definition in_time :: "int \<Rightarrow> sys \<Rightarrow> bool" where
  "in_time now s \<longleftrightarrow> (\<forall>w t. claimed_at (sy_workers s w) = Some t \<longrightarrow> now - t < stale_push_seconds)"

inductive sys_step :: "stage_env \<Rightarrow> push_env \<Rightarrow> bool \<Rightarrow> sys \<Rightarrow> event \<Rightarrow> sys \<Rightarrow> bool"
  for en :: stage_env and pe :: push_env and timely :: bool where
  tick: "0 \<le> d \<Longrightarrow> timely \<longrightarrow> in_time (sy_now s + d) s \<Longrightarrow> sys_step en pe timely s (Tick d) (s\<lparr>sy_now := sy_now s + d\<rparr>)"
| stage_done:
    "run_stage en (sy_now s) c (sy_staged s, sy_job s) = (st, j, True) \<Longrightarrow>
     sys_step en pe timely s (Stage c) (s\<lparr>sy_staged := st, sy_job := j, sy_imported := 0, sy_lost := 0\<rparr>)"
| stage_fails:
    "run_stage en (sy_now s) c (sy_staged s, sy_job s) = (st, j, False) \<Longrightarrow>
     sys_step en pe timely s (Stage c) (s\<lparr>sy_staged := st, sy_job := j\<rparr>)"
| claim:
    "sy_workers s w = Idle \<Longrightarrow> claim_push (sy_now s) (sy_job s) = (j, Inr ()) \<Longrightarrow>
     sys_step en pe timely s (Claim w) (s\<lparr>sy_job := j, sy_workers := (sy_workers s)(w := Holding (sy_now s))\<rparr>)"
| deliver:
    "sy_workers s w = Holding t \<Longrightarrow>
     sys_step en pe timely s (Deliver w out)
       (s\<lparr>sy_workers := (sy_workers s)(w := Sent t out),
          sy_imported := sy_imported s + (if has_imported pe out then 1 else 0)\<rparr>)"
| record_outcome:
    "sy_workers s w = Sent t out \<Longrightarrow> push_relayed pe (sy_now s) out (sy_job s) = (j, r) \<Longrightarrow>
     sys_step en pe timely s (Record w) (s\<lparr>sy_job := j, sy_workers := (sy_workers s)(w := Idle)\<rparr>)"
| crash:
    "sys_step en pe timely s (Crash w)
       (s\<lparr>sy_workers := (sy_workers s)(w := Idle),
          sy_lost := sy_lost s + (case sy_workers s w of Sent t out \<Rightarrow> if has_imported pe out then 1 else 0 | _ \<Rightarrow> 0)\<rparr>)"

inductive_cases sys_stepE: "sys_step en pe timely s e s'"

inductive_simps tick_iff: "sys_step en pe timely s (Tick d) s'"
inductive_simps claim_iff: "sys_step en pe timely s (Claim w) s'"
inductive_simps deliver_iff: "sys_step en pe timely s (Deliver w out) s'"
inductive_simps record_iff: "sys_step en pe timely s (Record w) s'"
inductive_simps crash_iff: "sys_step en pe timely s (Crash w) s'"

lemmas step_iffs = tick_iff claim_iff deliver_iff record_iff crash_iff

inductive run_of :: "stage_env \<Rightarrow> push_env \<Rightarrow> bool \<Rightarrow> sys \<Rightarrow> event list \<Rightarrow> sys \<Rightarrow> bool"
  for en :: stage_env and pe :: push_env and timely :: bool where
  run_nil: "run_of en pe timely s [] s"
| run_snoc: "run_of en pe timely s es s' \<Longrightarrow> sys_step en pe timely s' e s'' \<Longrightarrow> run_of en pe timely s (es @ [e]) s''"

definition initial :: "sys \<Rightarrow> bool" where
  \<comment> \<open>a job nobody is pushing, such as a new one\<close>
  "initial s \<longleftrightarrow>
     coherent (sy_job s) \<and> j_status (sy_job s) \<noteq> PUSHING \<and> (\<forall>w. sy_workers s w = Idle) \<and> sy_imported s = 0 \<and> sy_lost s = 0"

lemma new_job_coherent: "coherent (new_job i ent now)"
  by (simp add: coherent_def new_job_def)

section \<open>At most one push at a time\<close>

definition settled :: "job_status \<Rightarrow> bool" where
  "settled st \<longleftrightarrow> st = PUSHED \<or> st = PUSHED_PARTIAL"

definition pending :: "push_env \<Rightarrow> sys \<Rightarrow> bool" where
  "pending pe s \<longleftrightarrow> settled (j_status (sy_job s)) \<or> (\<exists>w t out. sy_workers s w = Sent t out \<and> has_imported pe out)"

definition held_once :: "sys \<Rightarrow> bool" where
  "held_once s \<longleftrightarrow>
     (\<forall>w t. claimed_at (sy_workers s w) = Some t \<longrightarrow>
        j_status (sy_job s) = PUSHING \<and> j_updated_at (sy_job s) = t \<and> (\<forall>v. v \<noteq> w \<longrightarrow> sy_workers s v = Idle))"

definition sys_inv :: "push_env \<Rightarrow> sys \<Rightarrow> bool" where
  "sys_inv pe s \<longleftrightarrow>
     coherent (sy_job s) \<and> held_once s \<and> in_time (sy_now s) s \<and>
     sy_imported s \<le> sy_lost s + (if pending pe s then 1 else 0)"

lemma claimed_at_None [simp]: "claimed_at p = None \<longleftrightarrow> p = Idle"
  by (cases p) simp_all

lemma held_onceD:
  "held_once s \<Longrightarrow> sy_workers s w \<noteq> Idle \<Longrightarrow>
     j_status (sy_job s) = PUSHING \<and> claimed_at (sy_workers s w) = Some (j_updated_at (sy_job s)) \<and> (\<forall>v. v \<noteq> w \<longrightarrow> sy_workers s v = Idle)"
  by (cases "claimed_at (sy_workers s w)") (auto simp: held_once_def)

lemma push_relayed_result:
  assumes "push_relayed pe now out j = (j', r)" "j_status j = PUSHING" "coherent j"
  shows "coherent j'" "has_imported pe out \<longleftrightarrow> settled (j_status j')" 
proof -
  have parse: "e = XMLSecurityError" if "parse_import_response en d = Inl e" for en d e
    using that by (auto simp: parse_import_response_def Let_def split: if_splits option.splits prod.splits)
  consider "out = Not_Connected" "j' = release_claim now j"
    | m where "out = Offline m" "j' = record_push_failure now m j"
    | d e where "out = Relayed d" "parse_import_response (pe_response pe) d = Inl e"
        "\<exists>m. j' = record_push_failure now m j"
    | d x where "out = Relayed d" "parse_import_response (pe_response pe) d = Inr x" "j' = fst (record_push_result now x j)"
    using assms(1) parse
    by (cases out; cases "case out of Relayed d \<Rightarrow> parse_import_response (pe_response pe) d")
      (fastforce simp: push_relayed_def Let_def split: sum.splits prod.splits)+
  note c = this
  show "has_imported pe out \<longleftrightarrow> settled (j_status j')"
    using c push_verdict_range by cases (auto simp: has_imported_def settled_def)
  show "coherent j'"
    using c assms(2,3) push_verdict_range by cases (auto simp: coherent_def)
qed

lemma all_idle: "\<forall>w. sy_workers s w = Idle \<Longrightarrow> held_once s \<and> in_time now s"
  by (simp add: held_once_def in_time_def)

lemma not_pushing_idle: "held_once s \<Longrightarrow> j_status (sy_job s) \<noteq> PUSHING \<Longrightarrow> sy_workers s w = Idle"
  using held_onceD by blast

lemma pending_not_pushing: "held_once s \<Longrightarrow> j_status (sy_job s) \<noteq> PUSHING \<Longrightarrow> pending pe s \<longleftrightarrow> settled (j_status (sy_job s))"
  using not_pushing_idle [of s] by (simp add: pending_def)

lemma pending_held:
  assumes "held_once s" "sy_workers s w \<noteq> Idle"
  shows "pending pe s \<longleftrightarrow> (case sy_workers s w of Sent t out \<Rightarrow> has_imported pe out | _ \<Rightarrow> False)"
proof -
  note h = held_onceD [OF assms]
  have only: "v = w" if "sy_workers s v = Sent t out" for v t out
  proof (rule ccontr)
    assume "v \<noteq> w"
    then show False using h that by auto
  qed
  have "\<not> settled (j_status (sy_job s))" using h by (simp add: settled_def)
  then have "pending pe s \<longleftrightarrow> (\<exists>t out. sy_workers s w = Sent t out \<and> has_imported pe out)"
    unfolding pending_def using only by blast
  then show ?thesis by (simp split: phase.split)
qed

lemma claim_idle:
  assumes "held_once s" "in_time (sy_now s) s" "ensure_pushable (sy_now s) (sy_job s) = Inr ()"
  shows "sy_workers s w = Idle"
proof (rule ccontr)
  assume "sy_workers s w \<noteq> Idle"
  from held_onceD [OF assms(1) this] have h: "j_status (sy_job s) = PUSHING"
    "claimed_at (sy_workers s w) = Some (j_updated_at (sy_job s))" by auto
  then have "stale_push_seconds \<le> sy_now s - j_updated_at (sy_job s)" using assms(3) by (simp add: ensure_pushable_Inr)
  moreover have "sy_now s - j_updated_at (sy_job s) < stale_push_seconds" using assms(2) h(2) unfolding in_time_def by blast
  ultimately show False by simp
qed

lemma coherent_claim: "coherent j \<Longrightarrow> ensure_pushable now j = Inr () \<Longrightarrow> coherent (advance now PUSHING j)"
  by (cases "j_status j") (simp_all add: coherent_def ensure_pushable_Inr)

lemma step_inv:
  assumes "sys_step en pe True s e s'" "sys_inv pe s"
  shows "sys_inv pe s'"
  using assms(1)
proof (cases rule: sys_step.cases)
  case (tick d)
  have "pending pe s' = pending pe s" "held_once s' = held_once s" "in_time (sy_now s') s' = in_time (sy_now s') s"
    by (simp_all add: tick pending_def held_once_def in_time_def)
  then show ?thesis using assms(2) tick by (simp add: sys_inv_def)
next
  case (stage_done c st j)
  note eff = run_stage_effect [OF stage_done(3), unfolded stage_effect_def]
  have idle: "\<forall>w. sy_workers s w = Idle" using eff assms(2) not_pushing_idle [of s] by (simp add: sys_inv_def)
  then show ?thesis using all_idle [of s'] eff assms(2) by (simp add: stage_done sys_inv_def)
next
  case (stage_fails c st j)
  note eff = run_stage_effect [OF stage_fails(3), unfolded stage_effect_def]
  have "pending pe s' = pending pe s" "held_once s' = held_once s" "in_time (sy_now s') s' = in_time (sy_now s) s"
    using eff by (simp_all add: stage_fails pending_def held_once_def in_time_def)
  then show ?thesis using assms(2) eff by (simp add: stage_fails sys_inv_def)
next
  case (claim w j)
  then have e: "ensure_pushable (sy_now s) (sy_job s) = Inr ()" and j: "j = advance (sy_now s) PUSHING (sy_job s)"
    by (auto simp: claim_push_Inr)
  have idle: "sy_workers s v = Idle" for v using claim_idle [OF _ _ e] assms(2) by (simp add: sys_inv_def)
  have "\<not> settled (j_status (sy_job s))" using e by (auto simp: ensure_pushable_Inr settled_def)
  then have "\<not> pending pe s" using idle by (simp add: pending_def)
  moreover have "held_once s'" "in_time (sy_now s') s'" "\<not> pending pe s'"
    using idle by (auto simp: claim j held_once_def in_time_def pending_def settled_def stale_push_seconds_def)
  ultimately show ?thesis using assms(2) coherent_claim [OF _ e] by (simp add: claim j sys_inv_def)
next
  case (deliver w t out)
  have held: "held_once s" using assms(2) by (simp add: sys_inv_def)
  from held_onceD [OF held, of w] deliver have h: "j_status (sy_job s) = PUSHING" "t = j_updated_at (sy_job s)"
    "\<forall>v. v \<noteq> w \<longrightarrow> sy_workers s v = Idle" by auto
  have np: "\<not> pending pe s" using pending_held [OF held, of w] deliver by simp
  have same: "claimed_at (sy_workers s' v) = claimed_at (sy_workers s v)" for v using deliver by simp
  have "held_once s'" unfolding held_once_def
  proof (intro allI impI)
    fix v u assume c: "claimed_at (sy_workers s' v) = Some u"
    then have "v = w" using h by (cases "v = w") (simp_all add: deliver)
    then show "j_status (sy_job s') = PUSHING \<and> j_updated_at (sy_job s') = u \<and> (\<forall>x. x \<noteq> v \<longrightarrow> sy_workers s' x = Idle)"
      using c h by (simp add: deliver)
  qed
  moreover have "in_time (sy_now s') s' = in_time (sy_now s) s" unfolding in_time_def same by (simp add: deliver)
  moreover have "has_imported pe out \<Longrightarrow> pending pe s'" by (auto simp: deliver pending_def)
  ultimately show ?thesis using assms(2) np by (auto simp: deliver sys_inv_def)
next
  case (record_outcome w t out j r)
  have held: "held_once s" using assms(2) by (simp add: sys_inv_def)
  from held_onceD [OF held, of w] record_outcome have h: "j_status (sy_job s) = PUSHING"
    "\<forall>v. v \<noteq> w \<longrightarrow> sy_workers s v = Idle" by auto
  note res = push_relayed_result [OF record_outcome(4) h(1)]
  have idle: "\<forall>v. sy_workers s' v = Idle" using h by (simp add: record_outcome)
  have c: "coherent (sy_job s)" using assms(2) by (simp add: sys_inv_def)
  have "pending pe s \<Longrightarrow> pending pe s'"
  proof -
    assume "pending pe s"
    then have "settled (j_status j)" using pending_held [OF held, of w pe] res(2) [OF c] record_outcome by simp
    then show "pending pe s'" unfolding pending_def by (simp add: record_outcome)
  qed
  then show ?thesis using assms(2) all_idle [OF idle] res(1) [OF c] by (auto simp: record_outcome sys_inv_def split: if_splits)
next
  case (crash w)
  have held: "held_once s" using assms(2) by (simp add: sys_inv_def)
  show ?thesis
  proof (cases "sy_workers s w = Idle")
    case True
    then have "s' = s" by (simp add: crash fun_upd_idem)
    then show ?thesis using assms(2) by simp
  next
    case False
    note h = held_onceD [OF held False]
    then have idle: "\<forall>v. sy_workers s' v = Idle" by (simp add: crash)
    show ?thesis using assms(2) all_idle [OF idle] pending_held [OF held False, of pe]
      by (auto simp: crash sys_inv_def split: phase.splits)
  qed
qed

lemma run_inv: "run_of en pe True s es s' \<Longrightarrow> initial s \<Longrightarrow> sys_inv pe s'"
proof (induction rule: run_of.induct)
  case (run_nil s)
  then show ?case using all_idle [of s] by (simp add: initial_def sys_inv_def)
qed (use step_inv in blast)


definition one_created :: push_env where
  \<comment> \<open>a Tally that answers every document with one voucher created\<close>
  "one_created =
     \<lparr>pe_response = \<lparr>re_parse = (\<lambda>_. Some (RElem ''CREATED'' (Some ''1'') [])), re_decode = id\<rparr>, pe_direct = False, pe_message = (\<lambda>_. '''')\<rparr>"

definition ready :: sys where
  "ready =
     \<lparr>sy_now = 0, sy_staged = [],
      sy_job = generated_job\<lparr>j_df := Some \<lparr>fr_cols = [], fr_rows = []\<rparr>, j_mapped_df := Some \<lparr>fr_cols = [], fr_rows = []\<rparr>,
                 j_validation := Some (\<lparr>r_ok = True, r_stage = VALIDATE, r_errors = [], r_stats = []\<rparr>)\<rparr>,
      sy_workers = (\<lambda>w. Idle), sy_imported = 0, sy_lost = 0\<rparr>"

lemma one_created_answer:
  "\<exists>r. parse_import_response (pe_response one_created) (Bytes ''ok'') = Inr r \<and> push_verdict r = PUSHED"
proof -
  have "\<not> is_infix ''<!DOCTYPE'' (ascii_upper ''ok'')" by code_simp
  moreover have "upper (localname ''CREATED'') = ''CREATED''" by code_simp
  ultimately show ?thesis
    by (simp add: one_created_def parse_import_response_def count_node_def is_success_def push_verdict_def count_tags_def)
qed

lemma one_created_imports [simp]: "has_imported one_created (Relayed (Bytes ''ok''))"
  using one_created_answer by (auto simp: has_imported_def)

lemma ready_initial: "initial ready"
  by (simp add: initial_def ready_def generated_job_def coherent_def new_job_def)


text \<open>
  A claim carries no mark of its owner.  A worker that is held up for three hundred seconds before
  it delivers still delivers, after another has taken the claim over and has recorded the import, and
  the document is imported twice.
\<close>

theorem late_worker_imports_twice:
  "\<exists>s'. run_of en one_created False ready
      [Claim 0, Tick 300, Claim 1, Deliver 1 (Relayed (Bytes ''ok'')), Record 1, Deliver 0 (Relayed (Bytes ''ok''))] s' \<and>
    j_status (sy_job s') = PUSHED \<and> sy_imported s' = 2 \<and> sy_lost s' = 0"
proof -
  let ?j = "advance 0 PUSHING (sy_job ready)" and ?ok = "Relayed (Bytes ''ok'')"
  obtain r where r: "parse_import_response (pe_response one_created) (Bytes ''ok'') = Inr r" "push_verdict r = PUSHED"
    using one_created_answer by blast
  define j5 where "j5 = fst (record_push_result 300 r (advance 300 PUSHING ?j))"
  define s1 where "s1 = ready\<lparr>sy_job := ?j, sy_workers := (\<lambda>w. Idle)(0 := Holding 0)\<rparr>"
  define s2 where "s2 = s1\<lparr>sy_now := 300\<rparr>"
  define s3 where "s3 = s2\<lparr>sy_job := advance 300 PUSHING ?j, sy_workers := (sy_workers s2)(1 := Holding 300)\<rparr>"
  define s4 where "s4 = s3\<lparr>sy_workers := (sy_workers s3)(1 := Sent 300 ?ok), sy_imported := 1\<rparr>"
  define s5 where "s5 = s4\<lparr>sy_job := j5, sy_workers := (sy_workers s4)(1 := Idle)\<rparr>"
  define s6 where "s6 = s5\<lparr>sy_workers := (sy_workers s5)(0 := Sent 0 ?ok), sy_imported := 2\<rparr>"
  note d = s1_def s2_def s3_def s4_def s5_def s6_def ready_def
  have "sys_step en one_created False ready (Claim 0) s1"
    by (simp add: claim_iff d generated_job_def new_job_def claim_push_Inr ensure_pushable_Inr)
  then have r1: "run_of en one_created False ready [Claim 0] s1" using run_snoc [OF run_nil] by fastforce
  have "sys_step en one_created False s1 (Tick 300) s2" by (simp add: tick_iff d)
  then have r2: "run_of en one_created False ready [Claim 0, Tick 300] s2" using run_snoc [OF r1] by simp
  have "sys_step en one_created False s2 (Claim 1) s3"
    by (simp add: claim_iff d generated_job_def new_job_def claim_push_Inr ensure_pushable_Inr stale_push_seconds_def)
  then have r3: "run_of en one_created False ready [Claim 0, Tick 300, Claim 1] s3" using run_snoc [OF r2] by simp
  have "sys_step en one_created False s3 (Deliver 1 ?ok) s4" by (simp add: deliver_iff d)
  then have r4: "run_of en one_created False ready [Claim 0, Tick 300, Claim 1, Deliver 1 ?ok] s4" using run_snoc [OF r3] by simp
  have "\<exists>x. push_relayed one_created 300 ?ok (advance 300 PUSHING ?j) = (j5, x)"
    using r by (auto simp: push_relayed_def j5_def record_push_result_def Let_def)
  then have "sys_step en one_created False s4 (Record 1) s5" by (auto simp: record_iff d)
  then have r5: "run_of en one_created False ready [Claim 0, Tick 300, Claim 1, Deliver 1 ?ok, Record 1] s5"
    using run_snoc [OF r4] by simp
  have "sys_step en one_created False s5 (Deliver 0 ?ok) s6" by (simp add: deliver_iff d)
  then have "run_of en one_created False ready [Claim 0, Tick 300, Claim 1, Deliver 1 ?ok, Record 1, Deliver 0 ?ok] s6"
    using run_snoc [OF r5] by simp
  moreover have "j_status (sy_job s6) = PUSHED" "sy_imported s6 = 2" "sy_lost s6 = 0" using r by (simp_all add: d j5_def)
  ultimately show ?thesis by blast
qed

section \<open>No push is stuck\<close>

definition awaits_push :: "job_status set" where
  "awaits_push = {GENERATED, PUSHING, PUSH_FAILED}"

lemma crash_frees:
  assumes "held_once s"
  shows "\<exists>es s'. (\<forall>s0 pre. run_of en pe True s0 pre s \<longrightarrow> run_of en pe True s0 (pre @ es) s') \<and>
    (\<forall>w. sy_workers s' w = Idle) \<and> sy_job s' = sy_job s"
proof (cases "\<forall>w. sy_workers s w = Idle")
  case True
  then show ?thesis by (intro exI [of _ "[]"] exI [of _ s]) simp
next
  case False
  then obtain w where w: "sy_workers s w \<noteq> Idle" by blast
  define s' where "s' = s\<lparr>sy_workers := (sy_workers s)(w := Idle),
    sy_lost := sy_lost s + (case sy_workers s w of Sent t out \<Rightarrow> if has_imported pe out then 1 else 0 | _ \<Rightarrow> 0)\<rparr>"
  have "sys_step en pe True s (Crash w) s'" unfolding s'_def by (rule crash)
  moreover have "sy_workers s' v = Idle" for v using held_onceD [OF assms w] by (simp add: s'_def)
  moreover have "sy_job s' = sy_job s" by (simp add: s'_def)
  ultimately show ?thesis by (intro exI [of _ "[Crash w]"] exI [of _ s']) (auto intro: run_snoc)
qed



end
