(* ===== verification/Storage.thy ===== *)
theory Storage
  imports Parsing
begin

text \<open>
  \<open>app/storage/__init__.py\<close>: blobs under keys, in memory or as files below a base directory.  The file
  system is a table of files and a list of directories, both by the components of their path from the
  base; what the operating system refuses is an \<open>OSError\<close>.  Buckets of a service are in \<open>ObjectStorage\<close>.
\<close>

section \<open>The interface\<close>

datatype storage_op = Put_Blob string string | Get_Blob string | Delete_Blob string | Has_Blob string

datatype storage_answer = Key_Answer "string res" | Data_Answer "string res" | Done_Answer "unit res" | Bool_Answer bool

record 's storage =
  st_put :: "string \<Rightarrow> string \<Rightarrow> 's \<Rightarrow> 's \<times> string res"
  st_get :: "string \<Rightarrow> 's \<Rightarrow> string res"
  st_delete :: "string \<Rightarrow> 's \<Rightarrow> 's \<times> unit res"
  st_exists :: "string \<Rightarrow> 's \<Rightarrow> bool"

fun do_op :: "'s storage \<Rightarrow> storage_op \<Rightarrow> 's \<Rightarrow> 's \<times> storage_answer" where
  "do_op st (Put_Blob k d) s = (case st_put st k d s of (s', r) \<Rightarrow> (s', Key_Answer r))"
| "do_op st (Get_Blob k) s = (s, Data_Answer (st_get st k s))"
| "do_op st (Delete_Blob k) s = (case st_delete st k s of (s', r) \<Rightarrow> (s', Done_Answer r))"
| "do_op st (Has_Blob k) s = (s, Bool_Answer (st_exists st k s))"

fun op_key :: "storage_op \<Rightarrow> string" where
  "op_key (Put_Blob k d) = k"
| "op_key (Get_Blob k) = k"
| "op_key (Delete_Blob k) = k"
| "op_key (Has_Blob k) = k"

fun do_ops :: "'s storage \<Rightarrow> storage_op list \<Rightarrow> 's \<Rightarrow> storage_answer list" where
  "do_ops st [] s = []"
| "do_ops st (x # xs) s = (case do_op st x s of (s', a) \<Rightarrow> a # do_ops st xs s')"

text \<open>What a storage promises: it answers like a finite map.\<close>

definition map_storage :: "(string \<rightharpoonup> string) storage" where
  "map_storage =
     \<lparr>st_put = (\<lambda>k d m. (m(k \<mapsto> d), Inr k)),
      st_get = (\<lambda>k m. case m k of None \<Rightarrow> Inl ObjectNotFound | Some d \<Rightarrow> Inr d),
      st_delete = (\<lambda>k m. (m(k := None), Inr ())),
      st_exists = (\<lambda>k m. m k \<noteq> None)\<rparr>"

lemma map_storage_simps [simp]:
  "st_put map_storage k d m = (m(k \<mapsto> d), Inr k)"
  "st_get map_storage k m = (case m k of None \<Rightarrow> Inl ObjectNotFound | Some d \<Rightarrow> Inr d)"
  "st_delete map_storage k m = (m(k := None), Inr ())"
  "st_exists map_storage k m \<longleftrightarrow> m k \<noteq> None"
  by (simp_all add: map_storage_def)

locale blob_store =
  fixes st :: "'s storage" and ok :: "'s \<Rightarrow> bool" and valid :: "string \<Rightarrow> bool" and blobs :: "'s \<Rightarrow> string \<rightharpoonup> string"
  assumes get_blobs: "ok s \<Longrightarrow> valid k \<Longrightarrow> st_get st k s = (case blobs s k of None \<Rightarrow> Inl ObjectNotFound | Some d \<Rightarrow> Inr d)"
    and put_blobs: "ok s \<Longrightarrow> valid k \<Longrightarrow> st_put st k d s = (s', r) \<Longrightarrow> ok s' \<and> r = Inr k \<and> (\<forall>k'. valid k' \<longrightarrow> blobs s' k' = ((blobs s)(k \<mapsto> d)) k')"
    and delete_blobs: "ok s \<Longrightarrow> valid k \<Longrightarrow> st_delete st k s = (s', u) \<Longrightarrow> ok s' \<and> u = Inr () \<and> (\<forall>k'. valid k' \<longrightarrow> blobs s' k' = ((blobs s)(k := None)) k')"
    and exists_blobs: "ok s \<Longrightarrow> valid k \<Longrightarrow> st_exists st k s \<longleftrightarrow> blobs s k \<noteq> None"
begin

lemma get_put:
  "ok s \<Longrightarrow> valid k \<Longrightarrow> valid k' \<Longrightarrow> st_put st k d s = (s', r) \<Longrightarrow>
     st_get st k' s' = (if k' = k then Inr d else st_get st k' s)"
  using put_blobs [of s k d s' r] get_blobs by auto

lemma answers_of_map:
  assumes "ok s" "\<forall>x\<in>set xs. valid (op_key x)" "\<forall>k. valid k \<longrightarrow> m k = blobs s k"
  shows "do_ops st xs s = do_ops map_storage xs m"
  using assms
proof (induction xs arbitrary: s m)
  case (Cons x xs)
  have v: "valid (op_key x)" using Cons.prems(2) by simp
  have rest: "\<forall>y\<in>set xs. valid (op_key y)" using Cons.prems(2) by simp
  show ?case
  proof (cases x)
    case (Put_Blob k d)
    obtain s' r where p: "st_put st k d s = (s', r)" by fastforce
    have v': "valid k" using v Put_Blob by simp
    note law = put_blobs [OF Cons.prems(1) v' p]
    have "\<forall>k'. valid k' \<longrightarrow> (m(k \<mapsto> d)) k' = blobs s' k'" using law Cons.prems(3) by simp
    from Cons.IH [OF _ rest this] law show ?thesis by (simp add: Put_Blob p del: fun_upd_apply)
  next
    case (Get_Blob k)
    then show ?thesis using Cons.IH [OF Cons.prems(1) rest Cons.prems(3)] v Cons.prems(3) get_blobs [OF Cons.prems(1), of k] by simp
  next
    case (Delete_Blob k)
    obtain s' u where p: "st_delete st k s = (s', u)" by fastforce
    have v': "valid k" using v Delete_Blob by simp
    note law = delete_blobs [OF Cons.prems(1) v' p]
    have "\<forall>k'. valid k' \<longrightarrow> (m(k := None)) k' = blobs s' k'" using law Cons.prems(3) by simp
    from Cons.IH [OF _ rest this] law show ?thesis by (simp add: Delete_Blob p del: fun_upd_apply)
  next
    case (Has_Blob k)
    then show ?thesis using Cons.IH [OF Cons.prems(1) rest Cons.prems(3)] v Cons.prems(3) exists_blobs [OF Cons.prems(1), of k] by simp
  qed
qed simp

end

section \<open>In memory\<close>

type_synonym memory = "(string, string) dict"

definition memory_put :: "string \<Rightarrow> string \<Rightarrow> memory \<Rightarrow> memory \<times> string res" where
  "memory_put k d m = (AList.update k d m, Inr k)"

definition memory_get :: "string \<Rightarrow> memory \<Rightarrow> string res" where
  "memory_get k m = (case dget m k of None \<Rightarrow> Inl ObjectNotFound | Some d \<Rightarrow> Inr d)"

definition memory_delete :: "string \<Rightarrow> memory \<Rightarrow> memory \<times> unit res" where
  "memory_delete k m = (AList.delete k m, Inr ())"

definition memory_exists :: "string \<Rightarrow> memory \<Rightarrow> bool" where
  "memory_exists k m \<longleftrightarrow> dget m k \<noteq> None"

definition memory_storage :: "memory storage" where
  "memory_storage = \<lparr>st_put = memory_put, st_get = memory_get, st_delete = memory_delete, st_exists = memory_exists\<rparr>"

interpretation memory: blob_store memory_storage "\<lambda>m. True" "\<lambda>k. True" "\<lambda>m. map_of m"
  by unfold_locales
    (auto simp: memory_storage_def memory_get_def memory_put_def memory_delete_def memory_exists_def update_conv' delete_conv')

section \<open>Files\<close>

type_synonym path = "string list"

record files =
  fs_files :: "(path, string) dict"
  fs_dirs :: "path list"

definition local_path :: "string \<Rightarrow> path" where
  \<comment> \<open>\<open>base.joinpath(*key.split("/"))\<close>, from the base; a component of two dots is not modelled\<close>
  "local_path k = filter (\<lambda>w. w \<noteq> '''' \<and> w \<noteq> ''.'') (split_on CHR ''/'' k)"

definition parents :: "path \<Rightarrow> path list" where
  "parents p = map (\<lambda>n. take n p) [1..<length p]"

definition path_exists :: "path \<Rightarrow> files \<Rightarrow> bool" where
  "path_exists p fs \<longleftrightarrow> p = [] \<or> p \<in> set (fs_dirs fs) \<or> dget (fs_files fs) p \<noteq> None"

definition local_put :: "string \<Rightarrow> string \<Rightarrow> files \<Rightarrow> files \<times> string res" where
  "local_put k d fs =
     (let p = local_path k in
      if list_ex (\<lambda>q. dget (fs_files fs) q \<noteq> None) (parents p) then (fs, Inl OSError)
      else
        let fs1 = fs\<lparr>fs_dirs := fs_dirs fs @ filter (\<lambda>q. q \<notin> set (fs_dirs fs)) (parents p)\<rparr> in
        if p = [] \<or> p \<in> set (fs_dirs fs1) then (fs1, Inl OSError)
        else (fs1\<lparr>fs_files := AList.update p d (fs_files fs1)\<rparr>, Inr k))"

definition local_get :: "string \<Rightarrow> files \<Rightarrow> string res" where
  "local_get k fs =
     (let p = local_path k in
      if \<not> path_exists p fs then Inl ObjectNotFound
      else case dget (fs_files fs) p of None \<Rightarrow> Inl OSError | Some d \<Rightarrow> Inr d)"

definition local_delete :: "string \<Rightarrow> files \<Rightarrow> files \<times> unit res" where
  "local_delete k fs =
     (let p = local_path k in
      if \<not> path_exists p fs then (fs, Inr ())
      else if dget (fs_files fs) p = None then (fs, Inl OSError)
      else (fs\<lparr>fs_files := AList.delete p (fs_files fs)\<rparr>, Inr ()))"

definition local_exists :: "string \<Rightarrow> files \<Rightarrow> bool" where
  "local_exists k fs \<longleftrightarrow> path_exists (local_path k) fs"

definition local_storage :: "files storage" where
  "local_storage = \<lparr>st_put = local_put, st_get = local_get, st_delete = local_delete, st_exists = local_exists\<rparr>"

section \<open>Keys\<close>

definition upload_key :: "string \<Rightarrow> string \<Rightarrow> string" where
  "upload_key org i = ''org/'' @ org @ ''/jobs/'' @ i @ ''/upload.bin''"

definition artifact_key :: "string \<Rightarrow> string \<Rightarrow> string" where
  "artifact_key org i = ''org/'' @ org @ ''/jobs/'' @ i @ ''/artifact.xml''"

definition plain :: "string \<Rightarrow> bool" where
  \<comment> \<open>a component such as the hexadecimal identifiers\<close>
  "plain w \<longleftrightarrow> w \<noteq> '''' \<and> w \<noteq> ''.'' \<and> w \<noteq> ''..'' \<and> CHR ''/'' \<notin> set w"

definition job_key :: "string \<Rightarrow> bool" where
  "job_key k \<longleftrightarrow> length (split_on CHR ''/'' k) = 5 \<and> list_all plain (split_on CHR ''/'' k)"

lemma split_on_not_Nil [simp]: "split_on c s \<noteq> []"
  by (induction s) (auto split: list.splits)

lemma split_on_append: "c \<notin> set w \<Longrightarrow> split_on c (w @ c # s) = w # split_on c s"
  by (induction w) auto

lemma split_on_plain: "c \<notin> set w \<Longrightarrow> split_on c w = [w]"
  by (induction w) auto

lemma join_split_on: "join [c] (split_on c s) = s"
proof (induction s)
  case (Cons x s)
  obtain w ws where w: "split_on c s = w # ws" by (cases "split_on c s") auto
  then show ?case using Cons by (cases ws) auto
qed simp

lemma split_on_inj: "split_on c s = split_on c t \<Longrightarrow> s = t"
  by (metis join_split_on)

lemma job_keys_split:
  assumes "plain org" "plain i"
  shows "split_on CHR ''/'' (upload_key org i) = [''org'', org, ''jobs'', i, ''upload.bin'']"
    and "split_on CHR ''/'' (artifact_key org i) = [''org'', org, ''jobs'', i, ''artifact.xml'']"
proof -
  have cut: "split_on CHR ''/'' (''org/'' @ org @ ''/jobs/'' @ i @ CHR ''/'' # s) = ''org'' # org # ''jobs'' # i # split_on CHR ''/'' s" for s
    using assms split_on_append [of "CHR ''/''" org "''jobs/'' @ i @ CHR ''/'' # s"] split_on_append [of "CHR ''/''" i s]
    by (simp add: plain_def)
  show "split_on CHR ''/'' (upload_key org i) = [''org'', org, ''jobs'', i, ''upload.bin'']"
    using cut [of "''upload.bin''"] by (simp add: upload_key_def)
  show "split_on CHR ''/'' (artifact_key org i) = [''org'', org, ''jobs'', i, ''artifact.xml'']"
    using cut [of "''artifact.xml''"] by (simp add: artifact_key_def)
qed

lemma job_keys_valid: "plain org \<Longrightarrow> plain i \<Longrightarrow> job_key (upload_key org i) \<and> job_key (artifact_key org i)"
  by (simp add: job_key_def job_keys_split) (simp add: plain_def)

lemma job_key_path:
  assumes "job_key k" shows "local_path k = split_on CHR ''/'' k" and "length (local_path k) = 5"
proof -
  show "local_path k = split_on CHR ''/'' k"
    using assms unfolding job_key_def local_path_def plain_def list_all_iff by (intro filter_True) blast
  then show "length (local_path k) = 5" using assms by (simp add: job_key_def)
qed

lemma job_key_path_inj: "job_key k \<Longrightarrow> job_key k' \<Longrightarrow> local_path k = local_path k' \<longleftrightarrow> k = k'"
  by (metis job_key_path(1) split_on_inj)

text \<open>Files at depth five and directories above: what the keys of jobs leave behind.\<close>

definition files_ok :: "files \<Rightarrow> bool" where
  "files_ok fs \<longleftrightarrow> list_all (\<lambda>x. length (fst x) = 5) (fs_files fs) \<and> list_all (\<lambda>q. length q < 5) (fs_dirs fs)"

lemma files_ok_lookup: "files_ok fs \<Longrightarrow> length p \<noteq> 5 \<Longrightarrow> dget (fs_files fs) p = None"
  by (auto simp: files_ok_def list_all_iff map_of_eq_None_iff)

lemma length_parents: "q \<in> set (parents p) \<Longrightarrow> length q < length p"
  by (auto simp: parents_def)

lemma local_put_ok:
  assumes "files_ok fs" "job_key k"
  shows "\<exists>ds. local_put k d fs = (\<lparr>fs_files = AList.update (local_path k) d (fs_files fs), fs_dirs = ds\<rparr>, Inr k) \<and> list_all (\<lambda>q. length q < 5) ds"
proof -
  let ?p = "local_path k" let ?ds = "fs_dirs fs @ filter (\<lambda>q. q \<notin> set (fs_dirs fs)) (parents ?p)"
  have len: "length ?p = 5" by (rule job_key_path(2) [OF assms(2)])
  have ne: "?p \<noteq> []" using len by auto
  have free: "\<not> list_ex (\<lambda>q. dget (fs_files fs) q \<noteq> None) (parents ?p)"
  proof
    assume "list_ex (\<lambda>q. dget (fs_files fs) q \<noteq> None) (parents ?p)"
    then obtain q where q: "q \<in> set (parents ?p)" "dget (fs_files fs) q \<noteq> None" unfolding list_ex_iff by blast
    then have "length q \<noteq> 5" using length_parents [OF q(1)] len by simp
    from files_ok_lookup [OF assms(1) this] q(2) show False by simp
  qed
  have dirs: "list_all (\<lambda>q. length q < 5) ?ds"
    using assms(1) length_parents [of _ ?p] len by (auto simp: files_ok_def list_all_iff)
  have "?p \<notin> set ?ds"
  proof
    assume "?p \<in> set ?ds"
    then have "length ?p < 5" using dirs unfolding list_all_iff by blast
    then show False using len by simp
  qed
  then have "local_put k d fs = (fs\<lparr>fs_dirs := ?ds, fs_files := AList.update ?p d (fs_files fs)\<rparr>, Inr k)"
    using free ne by (auto simp: local_put_def Let_def)
  then show ?thesis using dirs by (intro exI [of _ ?ds]) simp
qed

interpretation local_files: blob_store local_storage files_ok job_key "\<lambda>fs k. dget (fs_files fs) (local_path k)"
proof unfold_locales
  fix fs k assume a: "files_ok fs" "job_key k"
  have len: "length (local_path k) = 5" by (rule job_key_path(2) [OF a(2)])
  then have nd: "local_path k \<notin> set (fs_dirs fs)" "local_path k \<noteq> []" using a(1) by (auto simp: files_ok_def list_all_iff)
  then have ex: "path_exists (local_path k) fs \<longleftrightarrow> dget (fs_files fs) (local_path k) \<noteq> None" by (simp add: path_exists_def)
  show "st_get local_storage k fs = (case dget (fs_files fs) (local_path k) of None \<Rightarrow> Inl ObjectNotFound | Some d \<Rightarrow> Inr d)"
    using ex by (auto simp: local_storage_def local_get_def split: option.split)
  show "st_exists local_storage k fs \<longleftrightarrow> dget (fs_files fs) (local_path k) \<noteq> None"
    using ex by (simp add: local_storage_def local_exists_def)
  show "files_ok s' \<and> r = Inr k \<and> (\<forall>k'. job_key k' \<longrightarrow> dget (fs_files s') (local_path k') = ((\<lambda>k. dget (fs_files fs) (local_path k))(k \<mapsto> d)) k')"
    if p: "st_put local_storage k d fs = (s', r)" for d s' r
  proof -
    from local_put_ok [OF a, of d] p obtain ds where s': "s' = \<lparr>fs_files = AList.update (local_path k) d (fs_files fs), fs_dirs = ds\<rparr>"
      and r: "r = Inr k" and ds: "list_all (\<lambda>q. length q < 5) ds" by (auto simp: local_storage_def)
    have "list_all (\<lambda>x. length (fst x) = 5) (AList.update (local_path k) d xs)" if "list_all (\<lambda>x. length (fst x) = 5) xs" for xs
      using that len by (induction xs) auto
    then have "files_ok s'" using a(1) ds by (simp add: s' files_ok_def)
    then show ?thesis using r job_key_path_inj [OF _ a(2)] by (simp add: s' update_conv')
  qed
  show "files_ok s' \<and> u = Inr () \<and> (\<forall>k'. job_key k' \<longrightarrow> dget (fs_files s') (local_path k') = ((\<lambda>k. dget (fs_files fs) (local_path k))(k := None)) k')"
    if p: "st_delete local_storage k fs = (s', u)" for s' u
  proof (cases "dget (fs_files fs) (local_path k) = None")
    case True
    then show ?thesis using p ex a job_key_path_inj [OF _ a(2)] by (auto simp: local_storage_def local_delete_def)
  next
    case False
    then have s': "s' = fs\<lparr>fs_files := AList.delete (local_path k) (fs_files fs)\<rparr>" "u = Inr ()"
      using p ex by (auto simp: local_storage_def local_delete_def)
    have "files_ok s'" using a(1) by (auto simp: s' files_ok_def list_all_iff AList.delete_eq)
    then show ?thesis using job_key_path_inj [OF _ a(2)] by (simp add: s' delete_conv')
  qed
qed

text \<open>
  C33: Whatever a client does under the keys of jobs, files answer like the storage in memory, and both
  like a finite map; and the keys of different jobs, and the two keys of a job, are different.
\<close>

theorem storages_agree:
  assumes "files_ok fs" "\<forall>x\<in>set xs. job_key (op_key x)"
    and "\<forall>k. job_key k \<longrightarrow> dget m k = dget (fs_files fs) (local_path k)"
    and "plain org" "plain i" "plain org'" "plain i'"
  shows "do_ops local_storage xs fs = do_ops memory_storage xs m \<and>
    do_ops memory_storage xs m = do_ops map_storage xs (dget m) \<and>
    (upload_key org i = upload_key org' i' \<longleftrightarrow> org = org' \<and> i = i') \<and>
    (artifact_key org i = artifact_key org' i' \<longleftrightarrow> org = org' \<and> i = i') \<and> upload_key org i \<noteq> artifact_key org' i'"
proof -
  have l: "do_ops local_storage xs fs = do_ops map_storage xs (dget m)"
    by (rule local_files.answers_of_map [OF assms(1,2,3)])
  have m: "do_ops memory_storage xs m = do_ops map_storage xs (dget m)"
    by (rule memory.answers_of_map) simp_all
  note k = job_keys_split [OF assms(4,5)] job_keys_split [OF assms(6,7)]
  have u: "upload_key org i = upload_key org' i' \<longleftrightarrow> org = org' \<and> i = i'"
  proof
    assume "upload_key org i = upload_key org' i'"
    then have "split_on CHR ''/'' (upload_key org i) = split_on CHR ''/'' (upload_key org' i')" by (rule arg_cong)
    then show "org = org' \<and> i = i'" unfolding k by simp
  qed simp
  have a: "artifact_key org i = artifact_key org' i' \<longleftrightarrow> org = org' \<and> i = i'"
  proof
    assume "artifact_key org i = artifact_key org' i'"
    then have "split_on CHR ''/'' (artifact_key org i) = split_on CHR ''/'' (artifact_key org' i')" by (rule arg_cong)
    then show "org = org' \<and> i = i'" unfolding k by simp
  qed simp
  have "split_on CHR ''/'' (upload_key org i) \<noteq> split_on CHR ''/'' (artifact_key org' i')" unfolding k by simp
  then have "upload_key org i \<noteq> artifact_key org' i'" by metis
  then show ?thesis using l m u a by simp
qed

theorem storages_agree_witness:
  "do_ops local_storage [Put_Blob (upload_key ''o1'' ''j1'') ''a,b'', Has_Blob (artifact_key ''o1'' ''j1''), Get_Blob (upload_key ''o1'' ''j1'')]
     \<lparr>fs_files = [], fs_dirs = []\<rparr> =
   [Key_Answer (Inr (upload_key ''o1'' ''j1'')), Bool_Answer False, Data_Answer (Inr ''a,b'')]"
proof -
  let ?xs = "[Put_Blob (upload_key ''o1'' ''j1'') ''a,b'', Has_Blob (artifact_key ''o1'' ''j1''), Get_Blob (upload_key ''o1'' ''j1'')]"
  have pl: "plain ''o1''" "plain ''j1''" by (simp_all add: plain_def)
  have ok: "files_ok \<lparr>fs_files = [], fs_dirs = []\<rparr>" by (simp add: files_ok_def)
  have ks: "\<forall>x\<in>set ?xs. job_key (op_key x)" using job_keys_valid [OF pl] by simp
  have em: "\<forall>k. job_key k \<longrightarrow> dget [] k = dget (fs_files \<lparr>fs_files = [], fs_dirs = []\<rparr>) (local_path k)" by simp
  from storages_agree [OF ok ks em pl pl]
  have "do_ops local_storage ?xs \<lparr>fs_files = [], fs_dirs = []\<rparr> = do_ops map_storage ?xs (dget [])"
    and "upload_key ''o1'' ''j1'' \<noteq> artifact_key ''o1'' ''j1''" by auto
  then show ?thesis by simp
qed

end
