(* ===== verification/JobRepo.thy ===== *)
theory JobRepo
  imports JobSystem Storage
begin

text \<open>
  \<open>app/services/job_repo.py\<close>: the durable store of jobs.  A row of the database and two blobs keep what
  must survive; every process has a cache of working jobs, rebuilt from them on a miss.  The database is
  a list of rows with unique identifiers shared by the processes, and a JSON column gives back what was
  put into it.
\<close>

section \<open>Rows\<close>

record validation_json =
  vj_ok :: bool
  vj_stats :: "(string, nat) dict"
  vj_errors :: "envelope list"

record job_record =
  jr_id :: string
  jr_org :: string
  jr_created_by :: string
  jr_entity :: string
  jr_status :: string
  jr_filename :: "string option"
  jr_company :: "string option"
  jr_upload_key :: "string option"
  jr_mapping :: "(string, string option) dict option"
  jr_constants :: "(string, string) dict option"
  jr_validation :: "validation_json option"
  jr_resolution :: "verdict list option"
  jr_xml_key :: "string option"
  jr_push :: "import_result option"
  jr_notes :: "string list option"
  jr_error_count :: nat

definition validation_to_json :: "stage_result option \<Rightarrow> validation_json option" where
  "validation_to_json v = map_option (\<lambda>r. \<lparr>vj_ok = r_ok r, vj_stats = r_stats r, vj_errors = r_errors r\<rparr>) v"

definition validation_from_json :: "validation_json option \<Rightarrow> stage_result option" where
  "validation_from_json d =
     map_option (\<lambda>v. \<lparr>r_ok = vj_ok v, r_stage = VALIDATE, r_errors = vj_errors v, r_stats = vj_stats v\<rparr>) d"

definition list_or_none :: "'a list \<Rightarrow> 'a list option" where
  \<comment> \<open>\<open>xs or None\<close>\<close>
  "list_or_none xs = (if xs = [] then None else Some xs)"

definition none_or_list :: "'a list option \<Rightarrow> 'a list" where
  \<comment> \<open>\<open>xs or []\<close>\<close>
  "none_or_list x = (case x of None \<Rightarrow> [] | Some xs \<Rightarrow> xs)"

definition entity_of_value :: "string \<Rightarrow> entity_type option" where
  \<comment> \<open>\<open>EntityType(value)\<close>\<close>
  "entity_of_value s = find (\<lambda>e. entity_value e = s) [LEDGER, GROUP, STOCK_ITEM, UNIT, VOUCHER]"

section \<open>Persistence\<close>

definition org_text :: "job \<Rightarrow> string" where
  "org_text j = (case j_org j of None \<Rightarrow> ''None'' | Some org \<Rightarrow> org)"

definition put_or_keep ::
    "'s storage \<Rightarrow> string option \<Rightarrow> string \<Rightarrow> string option \<Rightarrow> 's \<Rightarrow> 's \<times> string option res" where
  \<comment> \<open>store the data if there is any; the key for the row\<close>
  "put_or_keep st data key old b =
     (case data of
        None \<Rightarrow> (b, Inr old)
      | Some d \<Rightarrow> (case st_put st key d b of (b', Inl e) \<Rightarrow> (b', Inl e) | (b', Inr k) \<Rightarrow> (b', Inr (Some k))))"

definition row_of :: "job \<Rightarrow> string option \<Rightarrow> string option \<Rightarrow> job_record \<Rightarrow> job_record" where
  "row_of j upload xml r =
     r\<lparr>jr_status := status_value (j_status j), jr_filename := j_filename j, jr_company := j_company j,
       jr_upload_key := upload, jr_xml_key := xml, jr_mapping := j_mapping j,
       jr_constants := list_or_none (j_constants j), jr_validation := validation_to_json (j_validation j),
       jr_resolution := (case j_resolution j of None \<Rightarrow> None | Some vs \<Rightarrow> list_or_none vs),
       jr_push := map_option (\<lambda>p. p\<lparr>ir_raw_xml := ''''\<rparr>) (j_push j), jr_notes := list_or_none (j_notes j),
       jr_error_count := (case j_validation j of None \<Rightarrow> jr_error_count r
                          | Some v \<Rightarrow> (case dget (r_stats v) ''error_count'' of None \<Rightarrow> 0 | Some n \<Rightarrow> n))\<rparr>"

definition row_by_id :: "string \<Rightarrow> job_record list \<Rightarrow> job_record option" where
  "row_by_id i rows = find (\<lambda>r. jr_id r = i) rows"

definition persist :: "'s storage \<Rightarrow> job \<Rightarrow> job_record list \<times> 's \<Rightarrow> (job_record list \<times> 's) \<times> unit res" where
  "persist st j db =
     (let (rows, b) = db in
      case row_by_id (j_id j) rows of
        None \<Rightarrow> (db, Inr ())
      | Some r \<Rightarrow>
          (case put_or_keep st (if truthy (jr_upload_key r) then None else j_upload j)
                  (upload_key (org_text j) (j_id j)) (jr_upload_key r) b of
             (b1, Inl e) \<Rightarrow> ((rows, b1), Inl e)
           | (b1, Inr uk) \<Rightarrow>
               (case put_or_keep st (j_xml j) (artifact_key (org_text j) (j_id j)) (jr_xml_key r) b1 of
                  (b2, Inl e) \<Rightarrow> ((rows, b2), Inl e)
                | (b2, Inr xk) \<Rightarrow>
                    ((map (\<lambda>x. if jr_id x = j_id j then row_of j uk xk x else x) rows, b2), Inr ()))))"

section \<open>Hydration\<close>

definition load_blob :: "'s storage \<Rightarrow> string option \<Rightarrow> 's \<Rightarrow> string option res" where
  \<comment> \<open>a blob that is missing counts as none\<close>
  "load_blob st key b =
     (if truthy key
      then (case st_get st (the key) b of
              Inr d \<Rightarrow> Inr (Some d)
            | Inl e \<Rightarrow> if e = ObjectNotFound then Inr None else Inl e)
      else Inr None)"

definition upload_name :: "string option \<Rightarrow> string" where
  "upload_name fn = (if truthy fn then the fn else ''upload.csv'')"

definition rebuild ::
    "readers \<Rightarrow> job_record \<Rightarrow> string option \<Rightarrow> (frame option \<times> profile_signals option \<times> frame option) res" where
  \<comment> \<open>the working tables\<close>
  "rebuild rd r upload =
     (if truthy upload
      then (case pr_data (parse_file rd (the upload) (upload_name (jr_filename r)) default_max_rows) of
              None \<Rightarrow> Inr (None, None, None)
            | Some df \<Rightarrow>
                rbind (profile df) (\<lambda>p.
                case jr_mapping r of
                  Some (e # m) \<Rightarrow>
                    rbind (build_mapped_df df (e # m) (none_or_list (jr_constants r))) (\<lambda>g. Inr (Some df, Some p, Some g))
                | _ \<Rightarrow> Inr (Some df, Some p, None)))
      else Inr (None, None, None))"

definition hydrate :: "readers \<Rightarrow> 's storage \<Rightarrow> int \<Rightarrow> job_record \<Rightarrow> 's \<Rightarrow> job res" where
  "hydrate rd st now r b =
     (case (entity_of_value (jr_entity r), status_of_value (jr_status r)) of
        (Some ent, Some status) \<Rightarrow>
          rbind (load_blob st (jr_upload_key r) b) (\<lambda>upload.
          rbind (load_blob st (jr_xml_key r) b) (\<lambda>xml.
          rbind (rebuild rd r upload) (\<lambda>(df, p, mapped).
            Inr ((new_job (jr_id r) ent now)\<lparr>j_org := Some (jr_org r), j_status := status, j_filename := jr_filename r,
                   j_company := jr_company r, j_notes := none_or_list (jr_notes r),
                   j_constants := none_or_list (jr_constants r), j_mapping := jr_mapping r, j_upload := upload,
                   j_xml := xml, j_df := df, j_profile := p, j_mapped_df := mapped,
                   j_validation := validation_from_json (jr_validation r),
                   j_resolution := (case jr_resolution r of None \<Rightarrow> None | Some vs \<Rightarrow> if vs = [] then None else Some vs),
                   j_push := jr_push r\<rparr>))))
      | _ \<Rightarrow> Inl ValueError)"

section \<open>A process\<close>

record store_node =
  nd_cache :: "(string \<times> job) list"
  nd_locks :: "string list"
  nd_max :: nat

definition cache_put :: "job \<Rightarrow> store_node \<Rightarrow> store_node" where
  "cache_put j nd =
     (let c = put_last (j_id j) j (nd_cache nd); n = length c - nd_max nd; gone = map fst (take n c)
      in nd\<lparr>nd_cache := drop n c, nd_locks := filter (\<lambda>k. k \<notin> set gone) (List.insert (j_id j) (nd_locks nd))\<rparr>)"

definition repo_create ::
    "string \<Rightarrow> string \<Rightarrow> string \<Rightarrow> entity_type \<Rightarrow> int \<Rightarrow> (job_record list \<times> 's) \<times> store_node \<Rightarrow> (job_record list \<times> 's) \<times> store_node \<times> job" where
  \<comment> \<open>the identifier is a fresh random one\<close>
  "repo_create i org user ent now s =
     (let ((rows, b), nd) = s;
          r = \<lparr>jr_id = i, jr_org = org, jr_created_by = user, jr_entity = entity_value ent,
               jr_status = status_value CREATED, jr_filename = None, jr_company = None, jr_upload_key = None,
               jr_mapping = None, jr_constants = None, jr_validation = None, jr_resolution = None,
               jr_xml_key = None, jr_push = None, jr_notes = None, jr_error_count = 0\<rparr>;
          j = (new_job i ent now)\<lparr>j_org := Some org\<rparr>
      in ((rows @ [r], b), cache_put j nd, j))"

definition repo_get ::
    "readers \<Rightarrow> 's storage \<Rightarrow> int \<Rightarrow> string \<Rightarrow> string \<Rightarrow> (job_record list \<times> 's) \<Rightarrow> store_node \<Rightarrow> store_node \<times> job res" where
  "repo_get rd st now org i db nd =
     (let hydrated =
        (case find (\<lambda>r. jr_id r = i \<and> jr_org r = org) (fst db) of
           None \<Rightarrow> (nd, raise_app JobNotFound ''job_not_found'')
         | Some r \<Rightarrow> (case hydrate rd st now r (snd db) of Inl e \<Rightarrow> (nd, Inl e) | Inr j \<Rightarrow> (cache_put j nd, Inr j)))
      in case map_of (nd_cache nd) i of
           Some j \<Rightarrow> if j_org j = Some org then (nd\<lparr>nd_cache := touch i (nd_cache nd)\<rparr>, Inr j) else hydrated
         | None \<Rightarrow> hydrated)"

definition repo_lock ::
    "readers \<Rightarrow> 's storage \<Rightarrow> int \<Rightarrow> string \<Rightarrow> string \<Rightarrow> (job \<Rightarrow> job \<times> 'a res) \<Rightarrow>
     (job_record list \<times> 's) \<Rightarrow> store_node \<Rightarrow> (job_record list \<times> 's) \<times> store_node \<times> 'a res" where
  \<comment> \<open>the block changes the cached job in place, also when it raises\<close>
  "repo_lock rd st now org i body db nd =
     (case repo_get rd st now org i db nd of
        (nd1, Inl e) \<Rightarrow> (db, nd1, Inl e)
      | (nd1, Inr j) \<Rightarrow>
          let (j', r) = body j;
              nd2 = nd1\<lparr>nd_cache := map (\<lambda>(k, v). (k, if k = i then j' else v)) (nd_cache nd1),
                        nd_locks := List.insert i (nd_locks nd1)\<rparr>
          in case r of
               Inl e \<Rightarrow> (db, nd2, Inl e)
             | Inr x \<Rightarrow> (case persist st j' db of (db', Inl e) \<Rightarrow> (db', nd2, Inl e) | (db', Inr _) \<Rightarrow> (db', nd2, Inr x)))"

definition repo_count :: "job_record list \<times> 's \<Rightarrow> nat" where
  "repo_count db = length (fst db)"

section \<open>Reloading a job\<close>

lemma key_truthy [simp]: "truthy (Some (upload_key org i))" "truthy (Some (artifact_key org i))"
  by (simp_all add: truthy_def upload_key_def artifact_key_def)

lemma entity_of_value [simp]: "entity_of_value (entity_value e) = Some e"
  by (cases e) (simp_all add: entity_of_value_def)

lemma status_of_value [simp]: "status_of_value (status_value st) = Some st"
  by (cases st) (simp_all add: status_of_value_def statuses_def)

lemma none_or_list_inverse [simp]: "none_or_list (list_or_none xs) = xs"
  by (simp add: none_or_list_def list_or_none_def)

lemma row_of_simps [simp]:
  "jr_id (row_of j u x r) = jr_id r" "jr_org (row_of j u x r) = jr_org r" "jr_entity (row_of j u x r) = jr_entity r"
  "jr_upload_key (row_of j u x r) = u" "jr_xml_key (row_of j u x r) = x"
  by (simp_all add: row_of_def)

lemma row_by_id_update:
  "row_by_id i rows = Some r \<Longrightarrow> jr_id (f r) = i \<Longrightarrow>
     row_by_id i (map (\<lambda>x. if jr_id x = i then f x else x) rows) = Some (f r)"
  unfolding row_by_id_def by (induction rows) (auto split: if_splits)

text \<open>The job a process gets when it reloads a row: new times, and no raw text of the answer.\<close>

definition reloaded :: "int \<Rightarrow> job \<Rightarrow> job" where
  "reloaded now j =
     j\<lparr>j_created_at := now, j_updated_at := now,
       j_validation := map_option (\<lambda>v. v\<lparr>r_stage := VALIDATE\<rparr>) (j_validation j),
       j_resolution := (case j_resolution j of None \<Rightarrow> None | Some vs \<Rightarrow> list_or_none vs),
       j_push := map_option (\<lambda>p. p\<lparr>ir_raw_xml := ''''\<rparr>) (j_push j)\<rparr>"

text \<open>The working tables are those the upload and the mapping give.\<close>

definition tables_follow :: "readers \<Rightarrow> job \<Rightarrow> bool" where
  "tables_follow rd j \<longleftrightarrow>
     (case j_upload j of
        None \<Rightarrow> j_df j = None \<and> j_profile j = None \<and> j_mapped_df j = None
      | Some up \<Rightarrow> up \<noteq> '''' \<and>
          (\<exists>df p. pr_data (parse_file rd up (upload_name (j_filename j)) default_max_rows) = Some df \<and>
             profile df = Inr p \<and> j_df j = Some df \<and> j_profile j = Some p \<and>
             (case j_mapping j of
                None \<Rightarrow> j_mapped_df j = None
              | Some m \<Rightarrow> m \<noteq> [] \<and> (\<exists>g. build_mapped_df df m (j_constants j) = Inr g \<and> j_mapped_df j = Some g))))"

lemma rebuild_tables:
  assumes "tables_follow rd j"
  shows "rebuild rd (row_of j u x r) (j_upload j) = Inr (j_df j, j_profile j, j_mapped_df j)"
proof (cases "j_upload j")
  case None
  then show ?thesis using assms by (simp add: tables_follow_def rebuild_def truthy_def)
next
  case (Some up)
  then obtain df p where d: "up \<noteq> ''''" "profile df = Inr p" "j_df j = Some df" "j_profile j = Some p"
    "pr_data (parse_file rd up (upload_name (j_filename j)) default_max_rows) = Some df"
    and m: "case j_mapping j of None \<Rightarrow> j_mapped_df j = None
            | Some m \<Rightarrow> m \<noteq> [] \<and> (\<exists>g. build_mapped_df df m (j_constants j) = Inr g \<and> j_mapped_df j = Some g)"
    using assms by (auto simp: tables_follow_def)
  have f: "jr_filename (row_of j u x r) = j_filename j" "jr_mapping (row_of j u x r) = j_mapping j"
    "jr_constants (row_of j u x r) = list_or_none (j_constants j)" by (simp_all add: row_of_def)
  have t: "truthy (Some up)" using d(1) by (simp add: truthy_def)
  show ?thesis
  proof (cases "j_mapping j")
    case None
    then show ?thesis using d m f t Some by (simp add: rebuild_def)
  next
    case (Some mp)
    then obtain e rest where "mp = e # rest" using m by (cases mp) auto
    then show ?thesis using d m f t Some \<open>j_upload j = Some up\<close> by (auto simp: rebuild_def)
  qed
qed

lemma hydrate_row:
  assumes "load_blob st u b = Inr (j_upload j)" "load_blob st x b = Inr (j_xml j)" "tables_follow rd j"
    and "jr_id r = j_id j" "jr_org r = org" "j_org j = Some org" "jr_entity r = entity_value (j_entity j)"
  shows "hydrate rd st now (row_of j u x r) b = Inr (reloaded now j)"
proof -
  have v: "validation_from_json (validation_to_json (j_validation j)) = map_option (\<lambda>v. v\<lparr>r_stage := VALIDATE\<rparr>) (j_validation j)"
    by (cases "j_validation j") (simp_all add: validation_from_json_def validation_to_json_def)
  have res: "(case (case j_resolution j of None \<Rightarrow> None | Some vs \<Rightarrow> list_or_none vs) of
      None \<Rightarrow> None | Some vs \<Rightarrow> if vs = [] then None else Some vs) = (case j_resolution j of None \<Rightarrow> None | Some vs \<Rightarrow> list_or_none vs)"
    by (cases "j_resolution j") (simp_all add: list_or_none_def)
  have f: "jr_status (row_of j u x r) = status_value (j_status j)" "jr_filename (row_of j u x r) = j_filename j"
    "jr_company (row_of j u x r) = j_company j" "jr_notes (row_of j u x r) = list_or_none (j_notes j)"
    "jr_constants (row_of j u x r) = list_or_none (j_constants j)" "jr_mapping (row_of j u x r) = j_mapping j"
    "jr_validation (row_of j u x r) = validation_to_json (j_validation j)"
    "jr_resolution (row_of j u x r) = (case j_resolution j of None \<Rightarrow> None | Some vs \<Rightarrow> list_or_none vs)"
    "jr_push (row_of j u x r) = map_option (\<lambda>p. p\<lparr>ir_raw_xml := ''''\<rparr>) (j_push j)"
    by (simp_all add: row_of_def)
  show ?thesis using assms rebuild_tables [OF assms(3), of u x r]
    by (simp add: hydrate_def f v res reloaded_def new_job_def)
qed

context blob_store
begin

lemma put_or_keep_law:
  assumes "ok b" "valid key" "truthy (Some key)"
  shows "\<exists>b'. put_or_keep st data key old b = (b', Inr (if data = None then old else Some key)) \<and> ok b' \<and>
    (\<forall>k. valid k \<longrightarrow> st_get st k b' = (if k = key \<and> data \<noteq> None then Inr (the data) else st_get st k b)) \<and> (data = None \<longrightarrow> b' = b)"
proof (cases data)
  case None
  then show ?thesis using assms(1) by (simp add: put_or_keep_def)
next
  case (Some d)
  obtain b' q where p: "st_put st key d b = (b', q)" by fastforce
  then show ?thesis using put_blobs [OF assms(1,2) p] get_put [OF assms(1,2) _ p] Some by (simp add: put_or_keep_def)
qed

lemma persisted:
  assumes "ok b" "valid (upload_key (org_text j) (j_id j))" "valid (artifact_key (org_text j) (j_id j))"
    and "upload_key (org_text j) (j_id j) \<noteq> artifact_key (org_text j) (j_id j)"
    and "row_by_id (j_id j) rows = Some r"
  defines "u \<equiv> if truthy (jr_upload_key r) \<or> j_upload j = None then jr_upload_key r else Some (upload_key (org_text j) (j_id j))"
    and "x \<equiv> if j_xml j = None then jr_xml_key r else Some (artifact_key (org_text j) (j_id j))"
  shows "\<exists>b'. persist st j (rows, b) = ((map (\<lambda>y. if jr_id y = j_id j then row_of j u x y else y) rows, b'), Inr ()) \<and> ok b' \<and>
    (\<forall>k. valid k \<longrightarrow> st_get st k b' =
       (if k = upload_key (org_text j) (j_id j) \<and> \<not> truthy (jr_upload_key r) \<and> j_upload j \<noteq> None then Inr (the (j_upload j))
        else if k = artifact_key (org_text j) (j_id j) \<and> j_xml j \<noteq> None then Inr (the (j_xml j)) else st_get st k b))"
proof -
  let ?data = "if truthy (jr_upload_key r) then None else j_upload j"
  obtain b1 where u: "put_or_keep st ?data (upload_key (org_text j) (j_id j)) (jr_upload_key r) b = (b1, Inr (if ?data = None then jr_upload_key r else Some (upload_key (org_text j) (j_id j))))"
    and ok1: "ok b1" and g1: "\<And>k. valid k \<Longrightarrow> st_get st k b1 = (if k = upload_key (org_text j) (j_id j) \<and> ?data \<noteq> None then Inr (the ?data) else st_get st k b)"
    using put_or_keep_law [OF assms(1,2) key_truthy(1), of ?data "jr_upload_key r"] by blast
  obtain b2 where x: "put_or_keep st (j_xml j) (artifact_key (org_text j) (j_id j)) (jr_xml_key r) b1 = (b2, Inr x)"
    and ok2: "ok b2" and g2: "\<And>k. valid k \<Longrightarrow> st_get st k b2 = (if k = artifact_key (org_text j) (j_id j) \<and> j_xml j \<noteq> None then Inr (the (j_xml j)) else st_get st k b1)"
    using put_or_keep_law [OF ok1 assms(3) key_truthy(2), of "j_xml j" "jr_xml_key r"] unfolding x_def by blast
  have u': "(if ?data = None then jr_upload_key r else Some (upload_key (org_text j) (j_id j))) = u" by (auto simp: u_def)
  have "persist st j (rows, b) = ((map (\<lambda>y. if jr_id y = j_id j then row_of j u x y else y) rows, b2), Inr ())"
    using u x unfolding u' by (simp add: persist_def assms(5))
  moreover have "st_get st k b2 =
      (if k = upload_key (org_text j) (j_id j) \<and> \<not> truthy (jr_upload_key r) \<and> j_upload j \<noteq> None then Inr (the (j_upload j))
       else if k = artifact_key (org_text j) (j_id j) \<and> j_xml j \<noteq> None then Inr (the (j_xml j)) else st_get st k b)" if "valid k" for k
    using g1 [OF that] g2 [OF that] assms(4) by (auto split: if_splits)
  ultimately show ?thesis using ok2 by blast
qed

lemma persist_hydrate:
  assumes "ok b" "valid (upload_key org (j_id j))" "valid (artifact_key org (j_id j))" "upload_key org (j_id j) \<noteq> artifact_key org (j_id j)"
    and row: "row_by_id (j_id j) rows = Some r" "jr_org r = org" "j_org j = Some org" "jr_entity r = entity_value (j_entity j)"
    and first: "\<not> truthy (jr_upload_key r)" "j_xml j \<noteq> None \<or> \<not> truthy (jr_xml_key r)" and tables: "tables_follow rd j"
  shows "\<exists>rows' b' r'. persist st j (rows, b) = ((rows', b'), Inr ()) \<and> row_by_id (j_id j) rows' = Some r' \<and>
    hydrate rd st now r' b' = Inr (reloaded now j)"
proof -
  have o: "org_text j = org" using row(3) by (simp add: org_text_def)
  let ?u = "if truthy (jr_upload_key r) \<or> j_upload j = None then jr_upload_key r else Some (upload_key org (j_id j))"
  let ?x = "if j_xml j = None then jr_xml_key r else Some (artifact_key org (j_id j))"
  obtain b' where p: "persist st j (rows, b) = ((map (\<lambda>y. if jr_id y = j_id j then row_of j ?u ?x y else y) rows, b'), Inr ())"
    and g: "\<And>k. valid k \<Longrightarrow> st_get st k b' =
       (if k = upload_key org (j_id j) \<and> \<not> truthy (jr_upload_key r) \<and> j_upload j \<noteq> None then Inr (the (j_upload j))
        else if k = artifact_key org (j_id j) \<and> j_xml j \<noteq> None then Inr (the (j_xml j)) else st_get st k b)"
    using persisted [of b j, unfolded o, OF assms(1-4) row(1)] by blast
  have id: "jr_id r = j_id j" using row(1) by (auto simp: row_by_id_def find_Some_iff)
  have lu: "load_blob st ?u b' = Inr (j_upload j)" using first(1) g [OF assms(2)] by (auto simp: load_blob_def)
  have lx: "load_blob st ?x b' = Inr (j_xml j)" using first(2) g [OF assms(3)] assms(4) by (auto simp: load_blob_def)
  show ?thesis using p row_by_id_update [OF row(1), of "row_of j ?u ?x"] id hydrate_row [OF lu lx tables id row(2,3,4)] by auto
qed

lemma persist_succeeds:
  assumes "ok b" "valid (upload_key (org_text j) (j_id j))" "valid (artifact_key (org_text j) (j_id j))"
    and "upload_key (org_text j) (j_id j) \<noteq> artifact_key (org_text j) (j_id j)"
  shows "\<exists>rows' b'. persist st j (rows, b) = ((rows', b'), Inr ()) \<and> ok b'"
proof (cases "row_by_id (j_id j) rows")
  case None
  then show ?thesis using assms(1) by (simp add: persist_def)
next
  case (Some r)
  from persisted [OF assms Some] show ?thesis by blast
qed

end

lemma job_keys_differ: "plain org \<Longrightarrow> plain i \<Longrightarrow> upload_key org i \<noteq> artifact_key org i"
  using job_keys_split [of org i] by auto


definition stored_row :: job_record where
  "stored_row =
     \<lparr>jr_id = ''j1'', jr_org = ''o1'', jr_created_by = ''u1'', jr_entity = ''ledger'', jr_status = ''created'', jr_filename = None,
      jr_company = None, jr_upload_key = None, jr_mapping = None, jr_constants = None, jr_validation = None,
      jr_resolution = None, jr_xml_key = None, jr_push = None, jr_notes = None, jr_error_count = 0\<rparr>"

definition stored_job :: job where
  "stored_job = (new_job ''j1'' LEDGER 5)\<lparr>j_org := Some ''o1'', j_status := GENERATED, j_xml := Some ''<ENVELOPE/>'', j_notes := [''generated=1'']\<rparr>"


text \<open>
  Once the upload of a job is stored it stays: after a second upload the row and the blob are those
  of the first, and a job that is reloaded has the first file again, under the state the second has
  reached; in the same way a document that was dropped comes back.
\<close>

theorem first_upload_stays:
  assumes "files_ok b" "plain org" "plain (j_id j)" "j_org j = Some org"
    and "row_by_id (j_id j) rows = Some r" "jr_org r = org" "jr_upload_key r = Some (upload_key org (j_id j))"
    and "st_get local_storage (upload_key org (j_id j)) b = Inr first"
    and "jr_xml_key r = Some (artifact_key org (j_id j))" "st_get local_storage (artifact_key org (j_id j)) b = Inr doc"
    and "j_xml j = None"
  shows "\<exists>rows' b' r'. persist local_storage j (rows, b) = ((rows', b'), Inr ()) \<and> row_by_id (j_id j) rows' = Some r' \<and>
    jr_status r' = status_value (j_status j) \<and>
    (\<forall>rd now j'. hydrate rd local_storage now r' b' = Inr j' \<longrightarrow> j_upload j' = Some first \<and> j_xml j' = Some doc \<and> j_status j' = j_status j)"
proof -
  have o: "org_text j = org" using assms(4) by (simp add: org_text_def)
  note v = job_keys_valid [OF assms(2,3)]
  let ?r = "row_of j (jr_upload_key r) (jr_xml_key r) r"
  obtain b' where p: "persist local_storage j (rows, b) =
      ((map (\<lambda>y. if jr_id y = j_id j then row_of j (jr_upload_key r) (jr_xml_key r) y else y) rows, b'), Inr ())"
    and g: "\<And>k. job_key k \<Longrightarrow> st_get local_storage k b' = st_get local_storage k b"
    using local_files.persisted [of b j, unfolded o, OF assms(1) _ _ job_keys_differ [OF assms(2,3)] assms(5)] v assms(7,11)
    by auto
  have id: "jr_id r = j_id j" using assms(5) by (auto simp: row_by_id_def find_Some_iff)
  have row: "row_by_id (j_id j) (map (\<lambda>y. if jr_id y = j_id j then row_of j (jr_upload_key r) (jr_xml_key r) y else y) rows) = Some ?r"
    using row_by_id_update [OF assms(5)] id by simp
  have l: "load_blob local_storage (jr_upload_key r) b' = Inr (Some first)" "load_blob local_storage (jr_xml_key r) b' = Inr (Some doc)"
    using g v assms(7-10) by (simp_all add: load_blob_def)
  have st: "jr_status ?r = status_value (j_status j)" by (simp add: row_of_def)
  have "j_upload j' = Some first \<and> j_xml j' = Some doc \<and> j_status j' = j_status j" if "hydrate rd local_storage now ?r b' = Inr j'" for rd now j'
    using that l st by (auto simp: hydrate_def rbind_Inr split: option.splits prod.splits)
  then show ?thesis using p row st by blast
qed

text \<open>The row and the files of a job that has had a document and a first upload.\<close>

definition used_row :: job_record where
  "used_row = stored_row\<lparr>jr_upload_key := Some (upload_key ''o1'' ''j1''), jr_xml_key := Some (artifact_key ''o1'' ''j1'')\<rparr>"

definition used_files :: files where
  "used_files = \<lparr>fs_files = [([''org'', ''o1'', ''jobs'', ''j1'', ''upload.bin''], ''first''), ([''org'', ''o1'', ''jobs'', ''j1'', ''artifact.xml''], ''<OLD/>'')],
                 fs_dirs = []\<rparr>"

theorem first_upload_stays_witness:
  "\<exists>rows' b' r'. persist local_storage (stored_job\<lparr>j_status := PARSED, j_xml := None, j_upload := Some ''second''\<rparr>) ([used_row], used_files) =
     ((rows', b'), Inr ()) \<and> jr_status r' = ''parsed'' \<and>
     (\<forall>rd j'. hydrate rd local_storage 9 r' b' = Inr j' \<longrightarrow> j_upload j' = Some ''first'' \<and> j_xml j' = Some ''<OLD/>'')"
proof -
  let ?j = "stored_job\<lparr>j_status := PARSED, j_xml := None, j_upload := Some ''second''\<rparr>"
  have ok: "files_ok used_files" by (simp add: files_ok_def used_files_def)
  have pl: "plain ''o1''" "plain (j_id ?j)" by (simp_all add: plain_def stored_job_def new_job_def)
  have j: "j_org ?j = Some ''o1''" "j_xml ?j = None" "j_id ?j = ''j1''" by (simp_all add: stored_job_def new_job_def)
  have p: "plain ''j1''" by (simp add: plain_def)
  have r: "row_by_id (j_id ?j) [used_row] = Some used_row" "jr_org used_row = ''o1''"
    by (simp_all add: used_row_def stored_row_def stored_job_def new_job_def row_by_id_def)
  note k = job_key_path(1) [OF job_keys_valid [OF pl(1) p, THEN conjunct1]] job_key_path(1) [OF job_keys_valid [OF pl(1) p, THEN conjunct2]]
  have g: "st_get local_storage (upload_key ''o1'' (j_id ?j)) used_files = Inr ''first''"
    "st_get local_storage (artifact_key ''o1'' (j_id ?j)) used_files = Inr ''<OLD/>''"
    unfolding j(3) by (simp_all add: local_storage_def local_get_def path_exists_def used_files_def k job_keys_split [OF pl(1) p])
  have ks: "jr_upload_key used_row = Some (upload_key ''o1'' (j_id ?j))" "jr_xml_key used_row = Some (artifact_key ''o1'' (j_id ?j))"
    unfolding j(3) by (simp_all add: used_row_def)
  from first_upload_stays [OF ok pl(1,2) j(1) r ks(1) g(1) ks(2) g(2) j(2)]
  obtain rows' b' r' where "persist local_storage ?j ([used_row], used_files) = ((rows', b'), Inr ())" "jr_status r' = status_value (j_status ?j)"
    "\<forall>rd now j'. hydrate rd local_storage now r' b' = Inr j' \<longrightarrow> j_upload j' = Some ''first'' \<and> j_xml j' = Some ''<OLD/>'' \<and> j_status j' = j_status ?j"
    by blast
  then show ?thesis by (intro exI [of _ rows'] exI [of _ b'] exI [of _ r']) simp
qed

section \<open>Tenants\<close>

definition owners :: "job_record list \<Rightarrow> (string \<times> string) list" where
  "owners rows = map (\<lambda>r. (jr_id r, jr_org r)) rows"

text \<open>Every cached job is that of its key and belongs to the organization of its row.\<close>

definition repo_inv :: "job_record list \<Rightarrow> store_node \<Rightarrow> bool" where
  "repo_inv rows nd \<longleftrightarrow>
     distinct (map fst (owners rows)) \<and>
     (\<forall>(k, j)\<in>set (nd_cache nd). j_id j = k \<and> (\<exists>org. (k, org) \<in> set (owners rows) \<and> j_org j = Some org))"

lemma hydrate_owner: "hydrate rd st now r b = Inr j \<Longrightarrow> j_id j = jr_id r \<and> j_org j = Some (jr_org r)"
  by (auto simp: hydrate_def rbind_Inr new_job_def split: option.splits prod.splits)

lemma cache_put_set: "set (nd_cache (cache_put j nd)) \<subseteq> insert (j_id j, j) (set (nd_cache nd))"
  by (auto simp: cache_put_def Let_def put_last_def dest: in_set_dropD)

lemma cache_put_inv:
  assumes "repo_inv rows nd" "(j_id j, org) \<in> set (owners rows)" "j_org j = Some org"
  shows "repo_inv rows (cache_put j nd)"
  unfolding repo_inv_def
proof (intro conjI ballI)
  show "distinct (map fst (owners rows))" using assms(1) by (simp add: repo_inv_def)
  fix x assume "x \<in> set (nd_cache (cache_put j nd))"
  then have "x = (j_id j, j) \<or> x \<in> set (nd_cache nd)" using cache_put_set [of j nd] by blast
  then show "case x of (k, j) \<Rightarrow> j_id j = k \<and> (\<exists>org. (k, org) \<in> set (owners rows) \<and> j_org j = Some org)"
    using assms unfolding repo_inv_def by auto
qed

lemma repo_get_cases:
  assumes "repo_get rd st now org i (rows, b) nd = (nd', res)"
  obtains j where "map_of (nd_cache nd) i = Some j" "j_org j = Some org" "nd' = nd\<lparr>nd_cache := touch i (nd_cache nd)\<rparr>" "res = Inr j"
  | r j where "r \<in> set rows" "jr_id r = i" "jr_org r = org" "hydrate rd st now r b = Inr j" "nd' = cache_put j nd" "res = Inr j"
  | e where "nd' = nd" "res = Inl e"
proof -
  define hyd where "hyd = (case find (\<lambda>r. jr_id r = i \<and> jr_org r = org) rows of
           None \<Rightarrow> (nd, raise_app JobNotFound ''job_not_found'')
         | Some r \<Rightarrow> (case hydrate rd st now r b of Inl e \<Rightarrow> (nd, Inl e) | Inr j \<Rightarrow> (cache_put j nd, Inr j)))"
  have h: "(nd' = nd \<and> (\<exists>e. res = Inl e)) \<or>
      (\<exists>r j. r \<in> set rows \<and> jr_id r = i \<and> jr_org r = org \<and> hydrate rd st now r b = Inr j \<and> nd' = cache_put j nd \<and> res = Inr j)"
    if "hyd = (nd', res)"
  proof (cases "find (\<lambda>r. jr_id r = i \<and> jr_org r = org) rows")
    case None
    then show ?thesis using that by (cases res) (auto simp: hyd_def raise_app_def)
  next
    case (Some r)
    then have r: "r \<in> set rows \<and> jr_id r = i \<and> jr_org r = org" by (auto simp: find_Some_iff)
    show ?thesis
    proof (cases "hydrate rd st now r b")
      case (Inl e)
      then have "nd' = nd \<and> res = Inl e" using that Some by (simp add: hyd_def)
      then show ?thesis by blast
    next
      case (Inr j)
      then have "nd' = cache_put j nd \<and> res = Inr j" using that Some by (simp add: hyd_def)
      then show ?thesis using r Inr by blast
    qed
  qed
  show ?thesis
  proof (cases "\<exists>j. map_of (nd_cache nd) i = Some j \<and> j_org j = Some org")
    case True
    then show ?thesis using assms that(1) by (auto simp: repo_get_def)
  next
    case False
    then have "hyd = (nd', res)"
      using assms unfolding repo_get_def hyd_def by (auto simp: Let_def split: option.splits if_splits)
    from h [OF this] show ?thesis using that(2,3) by blast
  qed
qed

lemma repo_get_inv:
  assumes "repo_inv rows nd" "repo_get rd st now org i (rows, b) nd = (nd', res)"
  shows "repo_inv rows nd'"
    and "res = Inr j \<Longrightarrow> j_id j = i \<and> j_org j = Some org \<and> (i, org) \<in> set (owners rows)"
    and "res = Inl e \<Longrightarrow> nd' = nd"
proof -
  note inv = assms(1) [unfolded repo_inv_def]
  show "repo_inv rows nd'" using assms(2)
  proof (cases rule: repo_get_cases)
    case (1 j)
    then show ?thesis using inv by (simp add: repo_inv_def)
  next
    case (2 r j)
    then have "(j_id j, org) \<in> set (owners rows)" "j_org j = Some org"
      using hydrate_owner [OF 2(4)] by (auto simp: owners_def)
    then show ?thesis using cache_put_inv [OF assms(1)] 2 by simp
  qed (use assms(1) in simp)
  show "j_id j = i \<and> j_org j = Some org \<and> (i, org) \<in> set (owners rows)" if "res = Inr j"
    using assms(2)
  proof (cases rule: repo_get_cases)
    case (1 j')
    then have "(i, j) \<in> set (nd_cache nd)" using that map_of_SomeD by fastforce
    then show ?thesis using inv 1 that by fastforce
  next
    case (2 r j')
    then show ?thesis using hydrate_owner [OF 2(4)] that by (auto simp: owners_def)
  qed (use that in simp)
  show "nd' = nd" if "res = Inl e"
    using assms(2) by (cases rule: repo_get_cases) (use that in auto)
qed

lemma persist_rows:
  assumes "persist st j (rows, b) = ((rows', b'), res)"
  shows "rows' = rows \<or> (\<exists>u x. rows' = map (\<lambda>y. if jr_id y = j_id j then row_of j u x y else y) rows)"
proof (cases "row_by_id (j_id j) rows")
  case None
  then show ?thesis using assms by (simp add: persist_def)
next
  case (Some r)
  obtain b1 q where u: "put_or_keep st (if truthy (jr_upload_key r) then None else j_upload j) (upload_key (org_text j) (j_id j)) (jr_upload_key r) b = (b1, q)"
    by fastforce
  show ?thesis
  proof (cases q)
    case (Inl e)
    then show ?thesis using assms u by (simp add: persist_def Some)
  next
    case (Inr uk)
    obtain b2 q2 where "put_or_keep st (j_xml j) (artifact_key (org_text j) (j_id j)) (jr_xml_key r) b1 = (b2, q2)" by fastforce
    then show ?thesis using assms u Inr by (cases q2) (auto simp: persist_def Some)
  qed
qed

lemma persist_owners: "persist st j (rows, b) = ((rows', b'), res) \<Longrightarrow> owners rows' = owners rows"
  using persist_rows [of st j rows b rows' b' res] by (auto simp: owners_def)

lemma persist_others:
  assumes "persist st j (rows, b) = ((rows', b'), res)" "distinct (map fst (owners rows))" "(j_id j, org) \<in> set (owners rows)" "jr_org x \<noteq> org"
  shows "x \<in> set rows' \<longleftrightarrow> x \<in> set rows"
proof -
  have other: "jr_id y \<noteq> j_id j" if "y \<in> set rows" "jr_org y = jr_org x" for y
  proof
    assume "jr_id y = j_id j"
    then have "(j_id j, jr_org x) = (jr_id y, jr_org y)" using that by simp
    then have "(j_id j, jr_org x) \<in> set (owners rows)" using that(1) by (auto simp: owners_def)
    then show False using assms(2-4) eq_key_imp_eq_value by fastforce
  qed
  show ?thesis using persist_rows [OF assms(1)]
  proof
    assume "\<exists>u x. rows' = map (\<lambda>y. if jr_id y = j_id j then row_of j u x y else y) rows"
    then obtain u v where r: "rows' = map (\<lambda>y. if jr_id y = j_id j then row_of j u v y else y) rows" by blast
    show ?thesis
    proof
      assume "x \<in> set rows'"
      then obtain y where y: "y \<in> set rows" "x = (if jr_id y = j_id j then row_of j u v y else y)" by (auto simp: r)
      then show "x \<in> set rows" using other [OF y(1)] by (auto split: if_splits)
    next
      assume "x \<in> set rows"
      then show "x \<in> set rows'" using other [of x] by (force simp: r)
    qed
  qed simp
qed

text \<open>
  A request for a job works on a job of its own organization or fails, whatever the stages of the
  job do to it; the rows of other organizations stay as they are, for a job of another organization the
  answer is that there is none, and no process ever comes to hold a job under a wrong name or owner.
\<close>

lemma lock_isolated:
  assumes "repo_inv rows nd" "\<And>j. j_id (fst (body j)) = j_id j \<and> j_org (fst (body j)) = j_org j"
    and "repo_lock rd st now org i body (rows, b) nd = ((rows', b'), nd', r)"
  shows "repo_inv rows' nd' \<and> (\<forall>x. jr_org x \<noteq> org \<longrightarrow> (x \<in> set rows' \<longleftrightarrow> x \<in> set rows)) \<and>
    ((i, org) \<notin> set (owners rows) \<longrightarrow> rows' = rows \<and> b' = b \<and> nd' = nd \<and> r = raise_app JobNotFound ''job_not_found'')"
proof -
  obtain nd1 g where g: "repo_get rd st now org i (rows, b) nd = (nd1, g)" by fastforce
  note get = repo_get_inv [OF assms(1) g]
  show ?thesis
  proof (cases g)
    case (Inl e)
    then have r: "rows' = rows" "b' = b" "nd' = nd" "r = Inl e" using assms(3) g get(3) [of e] by (auto simp: repo_lock_def)
    have "e = AppErr (app_error_new JobNotFound (Some ''job_not_found'') [])" if "(i, org) \<notin> set (owners rows)"
    proof -
      have f: "find (\<lambda>r. jr_id r = i \<and> jr_org r = org) rows = None" using that by (auto simp: find_None_iff owners_def)
      have "\<not> (\<exists>j. map_of (nd_cache nd) i = Some j \<and> j_org j = Some org)"
        using that assms(1) map_of_SomeD unfolding repo_inv_def by fastforce
      then show ?thesis using g Inl f by (auto simp: repo_get_def raise_app_def Let_def split: option.splits if_splits)
    qed
    then show ?thesis using assms(1) r by (auto simp: raise_app_def)
  next
    case (Inr j)
    note own = get(2) [OF Inr]
    obtain j' x where bd: "body j = (j', x)" by fastforce
    then have j': "j_id j' = i" "j_org j' = Some org" using assms(2) [of j] own by simp_all
    let ?nd = "nd1\<lparr>nd_cache := map (\<lambda>(k, v). (k, if k = i then j' else v)) (nd_cache nd1), nd_locks := List.insert i (nd_locks nd1)\<rparr>"
    have inv2: "repo_inv rows ?nd"
      using get(1) own j' unfolding repo_inv_def by auto
    have nd': "nd' = ?nd \<and> (rows' = rows \<or> (\<exists>q. persist st j' (rows, b) = ((rows', b'), q)))"
      using assms(3) g Inr bd by (auto simp: repo_lock_def Let_def split: sum.splits prod.splits)
    have d: "distinct (map fst (owners rows))" using assms(1) by (simp add: repo_inv_def)
    have "owners rows' = owners rows" using nd' persist_owners [of st j' rows b rows' b'] by auto
    then have "repo_inv rows' nd'" using inv2 nd' by (simp add: repo_inv_def)
    moreover have "x \<in> set rows' \<longleftrightarrow> x \<in> set rows" if "jr_org x \<noteq> org" for x
      using nd' persist_others [OF _ d _ that, of st j' b rows' b'] own j' by auto
    ultimately show ?thesis using own by blast
  qed
qed

lemma lock_isolated_example:
  "\<forall>rd now. \<exists>rows' b' nd' r. repo_lock rd local_storage now ''o2'' ''j1'' (\<lambda>j. claim_push now j) ([stored_row], used_files) \<lparr>nd_cache = [], nd_locks = [], nd_max = 3\<rparr> =
     ((rows', b'), nd', r) \<and> rows' = [stored_row] \<and> r = raise_app JobNotFound ''job_not_found''"
proof (intro allI)
  fix rd now
  let ?nd = "\<lparr>nd_cache = [], nd_locks = [], nd_max = 3\<rparr>"
  have inv: "repo_inv [stored_row] ?nd" by (simp add: repo_inv_def owners_def)
  have body: "\<And>j. j_id (fst (claim_push now j)) = j_id j \<and> j_org (fst (claim_push now j)) = j_org j"
    by (simp add: claim_push_def split: sum.split)
  obtain rows' b' nd' r where l: "repo_lock rd local_storage now ''o2'' ''j1'' (\<lambda>j. claim_push now j) ([stored_row], used_files) ?nd = ((rows', b'), nd', r)"
    by (metis prod.exhaust)
  have "(''j1'', ''o2'') \<notin> set (owners [stored_row])" by (simp add: owners_def stored_row_def)
  with lock_isolated [OF inv body l] l
  show "\<exists>rows' b' nd' r. repo_lock rd local_storage now ''o2'' ''j1'' (\<lambda>j. claim_push now j) ([stored_row], used_files) ?nd =
     ((rows', b'), nd', r) \<and> rows' = [stored_row] \<and> r = raise_app JobNotFound ''job_not_found''" by blast
qed

section \<open>Two processes\<close>

lemma repo_get_cached:
  "map_of (nd_cache nd) i = Some j \<Longrightarrow> j_org j = Some org \<Longrightarrow>
     repo_get rd st now org i db nd = (nd\<lparr>nd_cache := touch i (nd_cache nd)\<rparr>, Inr j)"
  by (simp add: repo_get_def)

lemma lock_cached:
  assumes "files_ok b" "plain org" "plain i" "map_of (nd_cache nd) i = Some j" "j_org j = Some org" "j_id j = i"
    and "body j = (j', Inr x)" "j_org j' = Some org" "j_id j' = i"
  shows "\<exists>rows' b' nd'. repo_lock rd local_storage now org i body (rows, b) nd = ((rows', b'), nd', Inr x) \<and> files_ok b'"
proof -
  have o: "org_text j' = org" using assms(8) by (simp add: org_text_def)
  obtain rows' b' where p: "persist local_storage j' (rows, b) = ((rows', b'), Inr ())" "files_ok b'"
    using local_files.persist_succeeds [of b j' rows, unfolded o assms(9), OF assms(1) _ _ job_keys_differ [OF assms(2,3)]]
      job_keys_valid [OF assms(2,3)] by blast
  then show ?thesis by (simp add: repo_lock_def repo_get_cached [OF assms(4,5)] assms(7))
qed

text \<open>
  The lock of a job does not reach across processes, and a cached job is never compared with its
  row: whatever one process does to a job, another that has it in its cache goes on with its own copy,
  and of two such processes both are granted the claim of one document, even at the same time.
\<close>

theorem processes_do_not_share:
  assumes "files_ok b" "plain org" "plain i" "j_id j = i" "j_org j = Some org"
    and "map_of (nd_cache p) i = Some j" "map_of (nd_cache q) i = Some j" "ensure_pushable now j = Inr ()"
  shows "\<exists>db1 p' db2 q'. repo_lock rd local_storage now org i (claim_push now) (rows, b) p = (db1, p', Inr ()) \<and>
    snd (repo_get rd local_storage later org i db1 q) = Inr j \<and>
    repo_lock rd local_storage now org i (claim_push now) db1 q = (db2, q', Inr ())"
proof -
  let ?j = "advance now PUSHING j"
  have c: "claim_push now j = (?j, Inr ())" using assms(8) by (simp add: claim_push_Inr)
  have own: "j_org ?j = Some org" "j_id ?j = i" using assms(4,5) by simp_all
  obtain rows1 b1 p' where l1: "repo_lock rd local_storage now org i (claim_push now) (rows, b) p = ((rows1, b1), p', Inr ())" and ok: "files_ok b1"
    using lock_cached [OF assms(1-3,6,5,4), of "claim_push now", OF c own] by blast
  obtain rows2 b2 q' where l2: "repo_lock rd local_storage now org i (claim_push now) (rows1, b1) q = ((rows2, b2), q', Inr ())"
    using lock_cached [OF ok assms(2,3,7,5,4), of "claim_push now", OF c own] by blast
  have "snd (repo_get rd local_storage later org i (rows1, b1) q) = Inr j" by (simp add: repo_get_cached [OF assms(7,5)])
  then show ?thesis using l1 l2 by blast
qed

theorem processes_do_not_share_witness:
  "\<forall>rd. \<exists>db1 p' db2 q'.
     repo_lock rd local_storage 9 ''o1'' ''j1'' (claim_push 9) ([stored_row], used_files)
       \<lparr>nd_cache = [(''j1'', stored_job)], nd_locks = [], nd_max = 3\<rparr> = (db1, p', Inr ()) \<and>
     repo_lock rd local_storage 9 ''o1'' ''j1'' (claim_push 9) db1
       \<lparr>nd_cache = [(''j1'', stored_job)], nd_locks = [], nd_max = 3\<rparr> = (db2, q', Inr ())"
proof
  fix rd
  let ?p = "\<lparr>nd_cache = [(''j1'', stored_job)], nd_locks = [], nd_max = 3\<rparr>"
  have ok: "files_ok used_files" by (simp add: files_ok_def used_files_def)
  have pl: "plain ''o1''" "plain ''j1''" by (simp_all add: plain_def)
  have j: "j_id stored_job = ''j1''" "j_org stored_job = Some ''o1''" by (simp_all add: stored_job_def new_job_def)
  have c: "map_of (nd_cache ?p) ''j1'' = Some stored_job" by simp
  have e: "ensure_pushable 9 stored_job = Inr ()" by (simp add: ensure_pushable_Inr stored_job_def)
  from processes_do_not_share [OF ok pl j c c e]
  show "\<exists>db1 p' db2 q'. repo_lock rd local_storage 9 ''o1'' ''j1'' (claim_push 9) ([stored_row], used_files) ?p = (db1, p', Inr ()) \<and>
     repo_lock rd local_storage 9 ''o1'' ''j1'' (claim_push 9) db1 ?p = (db2, q', Inr ())" by blast
qed

section \<open>The stages keep the working tables in step\<close>

lemma ingest_tables:
  assumes "ingest sv lm now content fn st j = (st', j', Inr u)" "lm_max_rows lm = default_max_rows"
  shows "tables_follow (sv_readers sv) j'"
proof -
  let ?r = "parse_file (sv_readers sv) content (upload_name fn) default_max_rows"
  have req: "require Upload j = Inr ()" using assms(1) by (cases "require Upload j") (auto simp: ingest_def)
  have name: "parse_file (sv_readers sv) content (if truthy fn then the fn else ''upload.csv'') (lm_max_rows lm) = ?r"
    by (simp add: upload_name_def assms(2))
  note run = assms(1) [unfolded ingest_def req name Let_def, simplified]
  show ?thesis
  proof (cases "pr_data ?r")
    case None
    then show ?thesis using run by (simp add: raise_with_def)
  next
    case (Some df)
    show ?thesis
    proof (cases "lm_max_columns lm < length (fr_cols df) \<or> (\<exists>e. profile df = Inl e)")
      case True
      then show ?thesis using run Some by (auto simp: raise_with_def split: if_splits)
    next
      case False
      then obtain p where p: "profile df = Inr p" by (cases "profile df") auto
      have "content \<noteq> ''''" using Some by (auto simp: parse_file_def parse_fail_def)
      then show ?thesis using run Some p False by (auto simp: tables_follow_def reset_from_def)
    qed
  qed
qed

lemma mapping_tables:
  assumes "apply_mapping sv now m c t j = (j', Inr u)" "tables_follow rd j" "j_mapping j' \<noteq> Some []"
  shows "tables_follow rd j'"
proof -
  have req: "require Map_Columns j = Inr ()" using assms(1) by (cases "require Map_Columns j") (auto simp: apply_mapping_def)
  obtain df where df: "j_df j = Some df"
    using assms(1) req by (cases "j_df j") (auto simp: apply_mapping_def raise_default_def)
  define mc where "mc = rbind (with_template t m c) (\<lambda>mc. rbind (check_mapping (sv_catalog sv (j_entity j)) df (fst mc) (snd mc)) (\<lambda>_. Inr mc))"
  note run = assms(1) [unfolded apply_mapping_def req, simplified, unfolded df, simplified, folded mc_def]
  obtain m1 c1 where mc1: "mc = Inr (m1, c1)" using run by (cases mc) auto
  obtain g where g: "build_mapped_df df m1 c1 = Inr g" using run mc1 by (cases "build_mapped_df df m1 c1") (auto simp: Let_def)
  have j': "j' = advance now MAPPED (reset_from False (j\<lparr>j_mapping := Some m1, j_constants := c1, j_mapped_df := Some g\<rparr>))"
    using run mc1 g by (simp add: Let_def)
  then have "m1 \<noteq> []" using assms(3) by (simp add: reset_from_def)
  then show ?thesis using assms(2) df g by (auto simp: j' tables_follow_def reset_from_def split: option.splits)
qed

lemma tables_follow_cong:
  "j_upload j' = j_upload j \<Longrightarrow> j_filename j' = j_filename j \<Longrightarrow> j_df j' = j_df j \<Longrightarrow> j_profile j' = j_profile j \<Longrightarrow>
   j_mapping j' = j_mapping j \<Longrightarrow> j_constants j' = j_constants j \<Longrightarrow> j_mapped_df j' = j_mapped_df j \<Longrightarrow>
   tables_follow rd j' = tables_follow rd j"
  by (simp add: tables_follow_def cong: option.case_cong)

text \<open>
  A stage that succeeds leaves working tables that follow from the upload and the mapping, as long
  as the limit of rows is the default of the parser, which is what a reload uses, and the mapping is not
  empty.
\<close>

theorem stages_keep_tables:
  assumes "run_stage en now c (st, j) = (st', j', True)" "tables_follow (sv_readers (en_services en)) j"
    and "lm_max_rows (en_limits en) = default_max_rows" "j_mapping j' \<noteq> Some []"
  shows "tables_follow (sv_readers (en_services en)) j'"
proof (cases c)
  case (C_Upload content fn)
  then obtain r where "ingest (en_services en) (en_limits en) now content fn st j = (st', j', r)" "is_Inr r"
    using assms(1) by (auto split: prod.splits)
  then show ?thesis using ingest_tables assms(3) by (cases r) auto
next
  case (C_Map m cs t)
  then obtain r where "apply_mapping (en_services en) now m cs t j = (j', r)" "is_Inr r"
    using assms(1) by (auto split: prod.splits)
  then show ?thesis using mapping_tables assms(2,4) by (cases r) auto
next
  case (C_Validate kn)
  then obtain r where "run_validation (en_services en) now kn j = (j', r)" "is_Inr r"
    using assms(1) by (auto split: prod.splits)
  then obtain v where "j' = advance now VALIDATED (j\<lparr>j_validation := Some v, j_resolution := None, j_xml := None, j_push := None\<rparr>)"
    using run_validation_result by blast
  then show ?thesis using assms(2) tables_follow_cong [of j' j] by simp
next
  case (C_Resolve ex)
  then obtain r where "run_resolution (en_services en) now ex j = (j', r)" "is_Inr r"
    using assms(1) by (auto split: prod.splits)
  then obtain vs where "j' = advance now RESOLVED (j\<lparr>j_resolution := Some vs, j_xml := None, j_push := None\<rparr>)"
    using run_resolution_result by blast
  then show ?thesis using assms(2) tables_follow_cong [of j' j] by simp
next
  case (C_Generate rq)
  then obtain r where "run_generation (en_printer en) (sv_dates (en_services en)) now rq j = (j', r)" "is_Inr r"
    using assms(1) by (auto split: prod.splits)
  then obtain co xml n where "j' = with_xml now co xml n j" using run_generation_result by blast
  then show ?thesis using assms(2) tables_follow_cong [of j' j] by (simp add: with_xml_def)
qed

theorem stages_keep_tables_witness:
  "\<forall>sv pr. \<exists>st' j'. run_stage \<lparr>en_services = sv\<lparr>sv_readers := sample_readers\<rparr>,
       en_limits = \<lparr>lm_max_rows = default_max_rows, lm_max_columns = 10\<rparr>, en_printer = pr\<rparr>
     0 (C_Upload ''Name ,Notes'' (Some ''up.csv'')) ([], new_job ''j1'' LEDGER 0) = (st', j', True) \<and>
     j_df j' \<noteq> None \<and> tables_follow sample_readers j'"
proof (intro allI)
  fix sv pr
  let ?en = "\<lparr>en_services = sv\<lparr>sv_readers := sample_readers\<rparr>,
       en_limits = \<lparr>lm_max_rows = default_max_rows, lm_max_columns = 10\<rparr>, en_printer = pr\<rparr>"
  let ?j = "new_job ''j1'' LEDGER 0"
  let ?df = "\<lparr>fr_cols = [''Name'', ''Group''], fr_rows = [[CStr ''Cash'', CStr ''Bank''], [CNA, CStr ''x'']]\<rparr>"
  have d: "parse_file sample_readers ''Name ,Notes'' ''up.csv'' default_max_rows =
     \<lparr>pr_data = Some ?df, pr_errors = [], pr_excel = False, pr_dropped = [''Notes'']\<rparr>" by code_simp
  obtain p where p: "profile ?df = Inr p"
    using profile_raises_iff_repeated_label [of ?df] by (cases "profile ?df") auto
  have t0: "tables_follow (sv_readers (en_services ?en)) ?j" by (simp add: tables_follow_def new_job_def)
  have req: "require Upload ?j = Inr ()" by (simp add: new_job_def statuses_def)
  obtain st' j' where r: "run_stage ?en 0 (C_Upload ''Name ,Notes'' (Some ''up.csv'')) ([], ?j) = (st', j', True)"
    and df: "j_df j' = Some ?df" and m: "j_mapping j' = None"
    using req p by (simp add: ingest_def truthy_def d Let_def reset_from_def)
  from stages_keep_tables [OF r t0] m df r
  show "\<exists>st' j'. run_stage ?en 0 (C_Upload ''Name ,Notes'' (Some ''up.csv'')) ([], ?j) = (st', j', True) \<and>
     j_df j' \<noteq> None \<and> tables_follow sample_readers j'" by auto
qed

end
