(* ===== verification/RateLimit.thy ===== *)
theory RateLimit
  imports Jobs Storage
begin

text \<open>
  \<open>app/core/ratelimit.py\<close>: the sliding window that slows down guessing of passwords.  Times are the
  readings of the monotonic clock; the differences of floats are taken as exact.
\<close>

section \<open>The limit\<close>

definition periods :: "(string, nat) dict" where
  "periods = [(''second'', 1), (''minute'', 60), (''hour'', 3600)]"

definition parse_spec :: "string \<Rightarrow> (nat \<times> nat) option" where
  \<comment> \<open>\<open>N/second\<close>, \<open>N/minute\<close> or \<open>N/hour\<close>, with blanks around the parts\<close>
  "parse_spec spec =
     (let s = strip spec; ds = takeWhile is_dec_digit s; r = dropWhile is_space (dropWhile is_dec_digit s) in
      if ds \<noteq> '''' \<and> starts_with ''/'' r
      then map_option (\<lambda>p. (digits_val ds, p)) (dget periods (dropWhile is_space (tl r)))
      else None)"

section \<open>The window\<close>

type_synonym limiter = "string \<Rightarrow> rat list"

definition check_hit :: "nat \<Rightarrow> nat \<Rightarrow> rat \<Rightarrow> string \<Rightarrow> limiter \<Rightarrow> limiter \<times> bool" where
  "check_hit limit window now key lm =
     (let hits = dropWhile (\<lambda>t. of_nat window < now - t) (lm key) in
      if limit \<le> length hits then (lm(key := hits), False) else (lm(key := hits @ [now]), True))"

record limit_settings =
  ls_spec :: string
  ls_trust_forwarded :: bool
  ls_depth :: int

definition client_ip :: "limit_settings \<Rightarrow> string \<Rightarrow> string option \<Rightarrow> string" where
  \<comment> \<open>the header, empty when absent, and the host of the connection\<close>
  "client_ip st header host =
     (let parts = filter (\<lambda>p. p \<noteq> '''') (map strip (split_on CHR '','' header)); depth = nat (max 1 (ls_depth st)) in
      if ls_trust_forwarded st \<and> depth \<le> length parts then parts ! (length parts - depth)
      else case host of None \<Rightarrow> ''unknown'' | Some h \<Rightarrow> h)"

definition auth_rate_limit :: "limit_settings \<Rightarrow> rat \<Rightarrow> string \<Rightarrow> string option \<Rightarrow> limiter \<Rightarrow> limiter \<times> unit res" where
  "auth_rate_limit st now header host lm =
     (case parse_spec (ls_spec st) of
        None \<Rightarrow> (lm, Inr ())
      | Some (limit, window) \<Rightarrow>
          (case check_hit limit window now (''auth:'' @ client_ip st header host) lm of
             (lm', True) \<Rightarrow> (lm', Inr ())
           | (lm', False) \<Rightarrow> (lm', raise_default TooManyRequests)))"

section \<open>A limiter that forgets nothing\<close>

fun limited :: "nat \<Rightarrow> nat \<Rightarrow> (rat \<times> string) list \<Rightarrow> limiter \<Rightarrow> bool list" where
  "limited limit window [] lm = []"
| "limited limit window ((t, k) # rs) lm =
     (case check_hit limit window t k lm of (lm', b) \<Rightarrow> b # limited limit window rs lm')"

definition recent :: "nat \<Rightarrow> rat \<Rightarrow> string \<Rightarrow> (rat \<times> string) list \<Rightarrow> nat" where
  \<comment> \<open>the requests accepted from \<open>k\<close> that are no older than the window\<close>
  "recent window t k acc = length (filter (\<lambda>(s, k'). k' = k \<and> t - s \<le> of_nat window) acc)"

fun reference :: "nat \<Rightarrow> nat \<Rightarrow> (rat \<times> string) list \<Rightarrow> (rat \<times> string) list \<Rightarrow> bool list" where
  "reference limit window [] acc = []"
| "reference limit window ((t, k) # rs) acc =
     (if recent window t k acc < limit then True # reference limit window rs (acc @ [(t, k)])
      else False # reference limit window rs acc)"

definition accepted :: "'a list \<Rightarrow> bool list \<Rightarrow> 'a list" where
  "accepted rs bs = map fst (filter snd (zip rs bs))"

definition times_of :: "string \<Rightarrow> (rat \<times> string) list \<Rightarrow> rat list" where
  "times_of k acc = map fst (filter (\<lambda>(s, k'). k' = k) acc)"

definition remembers :: "nat \<Rightarrow> rat \<Rightarrow> limiter \<Rightarrow> (rat \<times> string) list \<Rightarrow> bool" where
  \<comment> \<open>what the limiter has dropped is too old to count\<close>
  "remembers window now lm acc \<longleftrightarrow>
     (\<forall>k. sorted (times_of k acc) \<and> (\<forall>s\<in>set (times_of k acc). s \<le> now) \<and>
       (\<exists>old. times_of k acc = old @ lm k \<and> (\<forall>s\<in>set old. of_nat window < now - s)))"

lemma dropWhile_old:
  assumes "sorted ts"
  shows "dropWhile (\<lambda>t. w < now - t) ts = filter (\<lambda>t. now - t \<le> (w :: rat)) ts"
  using assms
proof (induction ts)
  case (Cons t ts)
  show ?case
  proof (cases "w < now - t")
    case False
    then have "\<forall>s\<in>set ts. now - s \<le> w" using Cons.prems by force
    then show ?thesis using False by (simp add: filter_id_conv)
  qed (use Cons in simp)
qed simp

lemma recent_times: "recent window t k acc = length (filter (\<lambda>s. t - s \<le> of_nat window) (times_of k acc))"
  unfolding recent_def times_of_def by (induction acc) auto

lemma check_recent:
  assumes "remembers window prev lm acc" "prev \<le> t"
  shows "dropWhile (\<lambda>s. of_nat window < t - s) (lm k) = filter (\<lambda>s. t - s \<le> of_nat window) (times_of k acc)"
proof -
  obtain old where o: "times_of k acc = old @ lm k" "\<forall>s\<in>set old. of_nat window < prev - s" "sorted (times_of k acc)"
    using assms(1) unfolding remembers_def by blast
  then have "sorted (lm k)" by (simp add: sorted_append)
  moreover have "filter (\<lambda>s. t - s \<le> of_nat window) old = []" using o(2) assms(2) by (force simp: filter_empty_conv)
  ultimately show ?thesis using o(1) dropWhile_old by simp
qed

lemma remembers_step:
  fixes k :: string
  assumes "remembers window prev lm acc" "prev \<le> t"
  defines "hits \<equiv> dropWhile (\<lambda>s. of_nat window < t - s) (lm k)"
  shows "remembers window t (lm(k := hits)) acc" "remembers window t (lm(k := hits @ [t])) (acc @ [(t, k)])"
proof -
  have old: "\<exists>old. times_of x acc = old @ (lm(k := hits)) x \<and> (\<forall>s\<in>set old. of_nat window < t - s)" for x
  proof -
    obtain old where o: "times_of x acc = old @ lm x" "\<forall>s\<in>set old. of_nat window < prev - s"
      using assms(1) unfolding remembers_def by blast
    have o': "\<forall>s\<in>set old. of_nat window < t - s" using o(2) assms(2) by force
    show ?thesis
    proof (cases "x = k")
      case True
      let ?d = "takeWhile (\<lambda>s. of_nat window < t - s) (lm k)"
      have "times_of x acc = (old @ ?d) @ hits" using o(1) True by (simp add: hits_def)
      moreover have "\<forall>s\<in>set ?d. of_nat window < t - s" by (auto dest: set_takeWhileD)
      ultimately show ?thesis using o' True by (intro exI [of _ "old @ ?d"]) auto
    qed (use o o' in auto)
  qed
  have le: "\<forall>s\<in>set (times_of x acc). s \<le> t" "sorted (times_of x acc)" for x
    using assms(1,2) unfolding remembers_def by (meson order_trans)+
  show "remembers window t (lm(k := hits)) acc" using old le by (simp add: remembers_def)
  have new: "times_of x (acc @ [(t, k)]) = (if x = k then times_of k acc @ [t] else times_of x acc)" for x
    by (simp add: times_of_def)
  show "remembers window t (lm(k := hits @ [t])) (acc @ [(t, k)])"
    unfolding remembers_def
  proof
    fix x
    obtain d where "times_of x acc = d @ (lm(k := hits)) x" "\<forall>s\<in>set d. of_nat window < t - s" using old by blast
    then show "sorted (times_of x (acc @ [(t, k)])) \<and> (\<forall>s\<in>set (times_of x (acc @ [(t, k)])). s \<le> t) \<and>
       (\<exists>old. times_of x (acc @ [(t, k)]) = old @ (lm(k := hits @ [t])) x \<and> (\<forall>s\<in>set old. of_nat window < t - s))"
      using le [of x] unfolding new by (auto simp: sorted_append)
  qed
qed

lemma limited_reference:
  assumes "sorted (map fst rs)" "\<forall>r\<in>set rs. prev \<le> fst r" "remembers window prev lm acc"
  shows "limited limit window rs lm = reference limit window rs acc"
  using assms
proof (induction rs arbitrary: prev lm acc)
  case (Cons r rs)
  obtain t k where r: "r = (t, k)" by fastforce
  let ?hits = "dropWhile (\<lambda>s. of_nat window < t - s) (lm k)"
  have t: "prev \<le> t" using Cons.prems(2) r by simp
  have "length ?hits = recent window t k acc" by (simp add: recent_times check_recent [OF Cons.prems(3) t])
  moreover note remembers_step [OF Cons.prems(3) t, of k]
  moreover have "sorted (map fst rs)" "\<forall>r\<in>set rs. t \<le> fst r" using Cons.prems(1) r by auto
  ultimately show ?case using Cons.IH by (auto simp: r check_hit_def not_less)
qed simp

definition in_window :: "nat \<Rightarrow> rat \<Rightarrow> string \<Rightarrow> (rat \<times> string) list \<Rightarrow> nat" where
  "in_window window a k acc = length (filter (\<lambda>(s, k'). k' = k \<and> a \<le> s \<and> s \<le> a + of_nat window) acc)"

lemma reference_bound:
  assumes "sorted (map fst rs)" "\<forall>r\<in>set rs. \<forall>x\<in>set acc. fst x \<le> fst r" "\<forall>a k. in_window window a k acc \<le> limit"
  shows "in_window window a k (acc @ accepted rs (reference limit window rs acc)) \<le> limit"
  using assms
proof (induction rs arbitrary: acc)
  case (Cons r rs)
  obtain t u where r: "r = (t, u)" by fastforce
  have later: "\<forall>r\<in>set rs. \<forall>x\<in>set acc. fst x \<le> fst r" "\<forall>r\<in>set rs. t \<le> fst r" "sorted (map fst rs)"
    using Cons.prems(1,2) r by auto
  show ?case
  proof (cases "recent window t u acc < limit")
    case True
    have "in_window window b v (acc @ [(t, u)]) \<le> limit" for b v
    proof (cases "v = u \<and> b \<le> t \<and> t \<le> b + of_nat window")
      case True
      have "t - s \<le> of_nat window" if "b \<le> s" for s using True that by linarith
      then have eq: "filter (\<lambda>(s, k'). k' = u \<and> b \<le> s \<and> s \<le> b + of_nat window) acc =
          filter (\<lambda>(s, k'). b \<le> s \<and> s \<le> b + of_nat window) (filter (\<lambda>(s, k'). k' = u \<and> t - s \<le> of_nat window) acc)"
        unfolding filter_filter by (intro filter_cong) auto
      have "in_window window b u acc \<le> recent window t u acc"
        unfolding in_window_def recent_def eq by (rule length_filter_le)
      then show ?thesis using True \<open>recent window t u acc < limit\<close> by (simp add: in_window_def)
    next
      case False
      then show ?thesis using Cons.prems(3) by (auto simp: in_window_def)
    qed
    then show ?thesis using Cons.IH [of "acc @ [(t, u)]"] later True by (auto simp: r accepted_def)
  next
    case False
    then show ?thesis using Cons.IH [of acc] later Cons.prems(3) by (simp add: r accepted_def)
  qed
qed (simp add: accepted_def)

lemma limited_from_start:
  assumes "sorted (map fst rs)"
  shows "limited limit window rs (\<lambda>k. []) = reference limit window rs []"
    "in_window window a k (accepted rs (limited limit window rs (\<lambda>k. []))) \<le> limit"
proof -
  define first where "first = (case rs of [] \<Rightarrow> 0 | r # _ \<Rightarrow> fst r)"
  have f: "\<forall>r\<in>set rs. first \<le> fst r" using assms by (cases rs) (auto simp: first_def)
  have "remembers window first (\<lambda>k. []) []" by (simp add: remembers_def times_of_def)
  from limited_reference [OF assms f this] show e: "limited limit window rs (\<lambda>k. []) = reference limit window rs []" .
  have "in_window window a k ([] @ accepted rs (reference limit window rs [])) \<le> limit"
    using assms by (intro reference_bound) (simp_all add: in_window_def)
  then show "in_window window a k (accepted rs (limited limit window rs (\<lambda>k. []))) \<le> limit" using e by simp
qed

text \<open>
  C19: The limiter, which forgets the hits that have left the window, decides every request as one that
  remembers all of them would: it accepts exactly those with fewer than the limit accepted from the same
  client in the window before; so no window of time, wherever it begins, has more than the limit.
\<close>

theorem limiter_correct:
  assumes "sorted (map fst rs)"
  shows "limited limit window rs (\<lambda>k. []) = reference limit window rs [] \<and>
    in_window window a k (accepted rs (limited limit window rs (\<lambda>k. []))) \<le> limit"
  using limited_from_start [OF assms] by simp

theorem limiter_correct_witness:
  "limited 2 60 [(0, ''a''), (30, ''a''), (59, ''b''), (60, ''a''), (61, ''a'')] (\<lambda>k. []) = [True, True, True, False, True]"
proof -
  let ?rs = "[(0 :: rat, ''a''), (30, ''a''), (59, ''b''), (60, ''a''), (61, ''a'')]"
  have "sorted (map fst ?rs)" by simp
  from limiter_correct [OF this, of 2 60] show ?thesis by (simp add: recent_def)
qed

section \<open>Forwarded addresses\<close>

lemma split_on_both: "split_on c (x @ c # y) = split_on c x @ split_on c y"
  by (induction x) (auto split: list.splits)

text \<open>
  Behind proxies that append to the header of forwarded addresses, what the client itself has put
  there does not change the address that is counted, as long as the trusted proxies have added as many
  entries as are configured.
\<close>

theorem forwarded_prefix_ignored:
  assumes "ls_trust_forwarded st" "max 1 (ls_depth st) \<le> int (length (filter (\<lambda>p. p \<noteq> '''') (map strip (split_on CHR '','' trusted))))"
  shows "client_ip st (spoofed @ '','' @ trusted) host = client_ip st trusted host"
proof -
  let ?parts = "\<lambda>h. filter (\<lambda>p. p \<noteq> '''') (map strip (split_on CHR '','' h))"
  have e: "?parts (spoofed @ '','' @ trusted) = ?parts spoofed @ ?parts trusted" using split_on_both [of "CHR '',''" spoofed trusted] by simp
  define d where "d = nat (max 1 (ls_depth st))"
  have d: "d \<le> length (?parts trusted)" "0 < d" using assms(2) unfolding d_def by linarith+
  then have "length (?parts spoofed @ ?parts trusted) - d = length (?parts spoofed) + (length (?parts trusted) - d)"
    by (simp only: length_append)
  then have "(?parts spoofed @ ?parts trusted) ! (length (?parts spoofed @ ?parts trusted) - d) = ?parts trusted ! (length (?parts trusted) - d)"
    by (simp only: nth_append_length_plus)
  moreover have "d \<le> length (?parts spoofed @ ?parts trusted)" using d(1) by (simp only: length_append)
  ultimately show ?thesis using assms(1) d(1) unfolding client_ip_def Let_def e d_def [symmetric] by (simp only: simp_thms if_True)
qed

theorem forwarded_prefix_ignored_witness:
  "client_ip \<lparr>ls_spec = ''10/minute'', ls_trust_forwarded = True, ls_depth = 1\<rparr> (''6.6.6.6'' @ '','' @ ''1.2.3.4'') None = ''1.2.3.4''"
proof -
  let ?st = "\<lparr>ls_spec = ''10/minute'', ls_trust_forwarded = True, ls_depth = 1\<rparr>"
  have p: "filter (\<lambda>p. p \<noteq> '''') (map strip (split_on CHR '','' ''1.2.3.4'')) = [''1.2.3.4'']" by code_simp
  then have "client_ip ?st (''6.6.6.6'' @ '','' @ ''1.2.3.4'') None = client_ip ?st ''1.2.3.4'' None"
    by (intro forwarded_prefix_ignored) simp_all
  also have "\<dots> = ''1.2.3.4''" using p by (simp add: client_ip_def)
  finally show ?thesis .
qed

end
