(* ===== verification/Identity.thy ===== *)
theory Identity
  imports Jobs
begin

text \<open>
  Accounts and access: \<open>app/services/auth_service.py\<close>, \<open>app/services/idp_service.py\<close>,
  \<open>app/services/bridge_service.py\<close> and \<open>app/api/deps.py\<close>, over the tables of \<open>app/db/models.py\<close>.  Password
  hashing, the hash of keys and the encoding and checking of tokens are parameters; so are the fresh
  identifiers.  What violates a unique column is an \<open>IntegrityError\<close>, and then nothing is stored.
\<close>

section \<open>Tables\<close>

record organization =
  og_id :: string
  og_name :: string
  og_slug :: string

record user =
  us_id :: string
  us_email :: string
  us_hash :: "string option"
  us_name :: "string option"
  us_sub :: "string option"

record membership =
  mb_id :: string
  mb_org :: string
  mb_user :: string
  mb_role :: string

record service_account =
  sa_id :: string
  sa_org :: string
  sa_user :: string
  sa_client :: string
  sa_name :: string
  sa_role :: string
  sa_status :: string

record bridge =
  bg_id :: string
  bg_org :: string
  bg_name :: string
  bg_hash :: string
  bg_status :: string
  bg_last_seen :: "int option"

record accounts =
  ac_orgs :: "organization list"
  ac_users :: "user list"
  ac_members :: "membership list"
  ac_services :: "service_account list"
  ac_bridges :: "bridge list"

record crypto =
  cr_hash :: "string \<Rightarrow> string"
  cr_verify :: "string \<Rightarrow> string \<Rightarrow> bool"
  cr_token :: "string \<Rightarrow> string \<Rightarrow> string"
  cr_key_hash :: "string \<Rightarrow> string"

record fresh =
  fi_user :: string
  fi_org :: string
  fi_member :: string
  fi_service :: string

record user_response =
  ur_id :: string
  ur_email :: string
  ur_name :: "string option"
  ur_orgs :: "(string \<times> string \<times> string) list"

record token_response =
  tr_token :: string
  tr_user :: user_response

section \<open>Slugs\<close>

definition is_slug_char :: "char \<Rightarrow> bool" where
  "is_slug_char c \<longleftrightarrow> 97 \<le> ord c \<and> ord c \<le> (122 :: nat) \<or> 48 \<le> ord c \<and> ord c \<le> (57 :: nat)"

fun dashed :: "bool \<Rightarrow> string \<Rightarrow> string" where
  \<comment> \<open>every run of other characters becomes a dash\<close>
  "dashed d [] = []"
| "dashed d (c # s) =
     (if is_slug_char c then c # dashed False s else if d then dashed True s else CHR ''-'' # dashed True s)"

definition strip_dashes :: "string \<Rightarrow> string" where
  "strip_dashes s = rev (dropWhile (\<lambda>c. c = CHR ''-'') (rev (dropWhile (\<lambda>c. c = CHR ''-'') s)))"

definition slugify :: "string \<Rightarrow> string" where
  "slugify text = (let slug = strip_dashes (dashed False (lower (strip text))) in if slug = '''' then ''org'' else slug)"

definition candidate_slug :: "string \<Rightarrow> nat \<Rightarrow> string" where
  "candidate_slug stem n = (if n \<le> 1 then stem else stem @ ''-'' @ nat_str n)"

lemma nat_str_inj: "nat_str m = nat_str n \<Longrightarrow> m = n"
  by (metis digits_val_nat_str)

lemma candidate_slug_inj: "1 \<le> m \<Longrightarrow> 1 \<le> n \<Longrightarrow> candidate_slug stem m = candidate_slug stem n \<Longrightarrow> m = n"
  by (auto simp: candidate_slug_def dest: nat_str_inj split: if_splits)

text \<open>The search for a slug that is not taken.\<close>

definition slugs_ahead :: "string list \<Rightarrow> string \<Rightarrow> nat \<Rightarrow> nat set" where
  "slugs_ahead taken stem n = {m. max 1 n \<le> m \<and> candidate_slug stem m \<in> set taken}"

lemma finite_slugs_ahead: "finite (slugs_ahead taken stem n)"
proof -
  have "inj_on (candidate_slug stem) (slugs_ahead taken stem n)"
    by (rule inj_onI) (auto simp: slugs_ahead_def intro: candidate_slug_inj)
  moreover have "candidate_slug stem ` slugs_ahead taken stem n \<subseteq> set taken" by (auto simp: slugs_ahead_def)
  ultimately show ?thesis by (meson finite_imageD finite_set finite_subset)
qed

function free_suffix :: "string list \<Rightarrow> string \<Rightarrow> nat \<Rightarrow> nat" where
  "free_suffix taken stem n =
     (if candidate_slug stem (max 1 n) \<in> set taken then free_suffix taken stem (Suc (max 1 n)) else max 1 n)"
  by pat_completeness auto

termination
proof (relation "measure (\<lambda>(taken, stem, n). card (slugs_ahead taken stem n))")
  fix taken stem n
  assume "candidate_slug stem (max 1 n) \<in> set taken"
  then have "max 1 n \<in> slugs_ahead taken stem n" by (simp add: slugs_ahead_def)
  moreover have "slugs_ahead taken stem (Suc (max 1 n)) \<subseteq> slugs_ahead taken stem n - {max 1 n}" by (auto simp: slugs_ahead_def)
  ultimately have "slugs_ahead taken stem (Suc (max 1 n)) \<subset> slugs_ahead taken stem n" by blast
  then show "((taken, stem, Suc (max 1 n)), taken, stem, n) \<in> measure (\<lambda>(taken, stem, n). card (slugs_ahead taken stem n))"
    using psubset_card_mono [OF finite_slugs_ahead] by simp
qed simp

declare free_suffix.simps [simp del]

definition unique_slug :: "accounts \<Rightarrow> string \<Rightarrow> string" where
  "unique_slug ac base = (let stem = slugify base in candidate_slug stem (free_suffix (map og_slug (ac_orgs ac)) stem 1))"

section \<open>Password accounts\<close>

definition is_email :: "string \<Rightarrow> bool" where
  \<comment> \<open>\<open>^[^@\s]+@[^@\s]+\.[^@\s]+$\<close> on stripped text\<close>
  "is_email s \<longleftrightarrow>
     (let local_part = takeWhile (\<lambda>c. c \<noteq> CHR ''@'') s; domain = tl (dropWhile (\<lambda>c. c \<noteq> CHR ''@'') s) in
      local_part \<noteq> '''' \<and> CHR ''@'' \<in> set s \<and> CHR ''@'' \<notin> set domain \<and> \<not> list_ex is_space s \<and>
      list_ex (\<lambda>i. domain ! i = CHR ''.'') [1..<length domain - 1])"

definition user_response_of :: "accounts \<Rightarrow> user \<Rightarrow> user_response" where
  "user_response_of ac u =
     \<lparr>ur_id = us_id u, ur_email = us_email u, ur_name = us_name u,
      ur_orgs = concat (map (\<lambda>m. map (\<lambda>o'. (og_id o', og_name o', mb_role m)) (filter (\<lambda>o'. og_id o' = mb_org m) (ac_orgs ac)))
                  (sort_key mb_id (filter (\<lambda>m. mb_user m = us_id u) (ac_members ac))))\<rparr>"

definition user_by_email :: "accounts \<Rightarrow> string \<Rightarrow> user option" where
  "user_by_email ac email = find (\<lambda>u. us_email u = email) (ac_users ac)"

definition user_by_sub :: "accounts \<Rightarrow> string \<Rightarrow> user option" where
  "user_by_sub ac s = find (\<lambda>u. us_sub u = Some s) (ac_users ac)"

definition user_by_id :: "accounts \<Rightarrow> string \<Rightarrow> user option" where
  "user_by_id ac i = find (\<lambda>u. us_id u = i) (ac_users ac)"

definition local_part_of :: "string \<Rightarrow> string" where
  "local_part_of email = takeWhile (\<lambda>c. c \<noteq> CHR ''@'') email"

definition workspace_name :: "string \<Rightarrow> string" where
  "workspace_name email = local_part_of email @ [char_of (39 :: nat)] @ ''s workspace''"

definition add_with_org :: "fresh \<Rightarrow> user \<Rightarrow> string \<Rightarrow> string \<Rightarrow> accounts \<Rightarrow> accounts" where
  \<comment> \<open>the user, an organization and the membership of its owner\<close>
  "add_with_org fi u org_name slug ac =
     ac\<lparr>ac_users := ac_users ac @ [u],
        ac_orgs := ac_orgs ac @ [\<lparr>og_id = fi_org fi, og_name = org_name, og_slug = slug\<rparr>],
        ac_members := ac_members ac @ [\<lparr>mb_id = fi_member fi, mb_org = fi_org fi, mb_user = us_id u, mb_role = ''owner''\<rparr>]\<rparr>"

definition norm_email :: "string \<Rightarrow> string" where
  "norm_email email = lower (strip email)"

definition signup ::
    "crypto \<Rightarrow> fresh \<Rightarrow> string \<Rightarrow> string \<Rightarrow> string option \<Rightarrow> string option \<Rightarrow> accounts \<Rightarrow> accounts \<times> token_response res" where
  "signup cr fi email0 password full_name org_name ac =
     (let email = norm_email email0 in
      if \<not> is_email email then (ac, raise_app BadRequest ''invalid_email'')
      else if length password < 8 then (ac, raise_app BadRequest ''weak_password'')
      else if user_by_email ac email \<noteq> None then (ac, raise_app app_class.Conflict ''email_taken'')
      else
        let u = \<lparr>us_id = fi_user fi, us_email = email, us_hash = Some (cr_hash cr password), us_name = full_name, us_sub = None\<rparr>;
            name = (if truthy org_name then the org_name else workspace_name email);
            slug = unique_slug ac (if truthy org_name then the org_name else local_part_of email);
            ac' = add_with_org fi u name slug ac
        in (ac', Inr \<lparr>tr_token = cr_token cr (us_id u) email, tr_user = user_response_of ac' u\<rparr>))"

definition login :: "crypto \<Rightarrow> string \<Rightarrow> string \<Rightarrow> accounts \<Rightarrow> token_response res" where
  "login cr email0 password ac =
     (let email = norm_email email0 in
      case user_by_email ac email of
        None \<Rightarrow> raise_app Unauthorized ''invalid_credentials''
      | Some u \<Rightarrow>
          if \<not> truthy (us_hash u) \<or> \<not> cr_verify cr (the (us_hash u)) password then raise_app Unauthorized ''invalid_credentials''
          else Inr \<lparr>tr_token = cr_token cr (us_id u) (us_email u), tr_user = user_response_of ac u\<rparr>)"

definition get_user_response :: "string \<Rightarrow> accounts \<Rightarrow> user_response res" where
  "get_user_response i ac =
     (case user_by_id ac i of None \<Rightarrow> raise_app Unauthorized ''invalid_credentials'' | Some u \<Rightarrow> Inr (user_response_of ac u))"

definition resolve_org_for_user :: "string \<Rightarrow> string option \<Rightarrow> accounts \<Rightarrow> (string \<times> string) res" where
  "resolve_org_for_user i org ac =
     (if user_by_id ac i = None then raise_app Unauthorized ''invalid_credentials''
      else if truthy org then
        (case find (\<lambda>m. mb_user m = i \<and> mb_org m = the org) (ac_members ac) of
           None \<Rightarrow> raise_app Forbidden ''not_a_member''
         | Some m \<Rightarrow> Inr (the org, mb_role m))
      else
        (case sort_key mb_id (filter (\<lambda>m. mb_user m = i) (ac_members ac)) of
           [] \<Rightarrow> raise_app Forbidden ''no_org''
         | m # _ \<Rightarrow> Inr (mb_org m, mb_role m)))"

section \<open>Identities of the provider\<close>

record idp_settings =
  is_link_by_email :: bool
  is_jit :: bool
  is_require_verified :: bool
  is_web_client :: string

record claims =
  cl_sub :: string
  cl_email :: "string option"
  cl_verified :: bool
  cl_name :: "string option"
  cl_azp :: "string option"
  cl_client_id :: "string option"

definition link_sub :: "string \<Rightarrow> user \<Rightarrow> accounts \<Rightarrow> accounts" where
  "link_sub s u ac = ac\<lparr>ac_users := map (\<lambda>x. if us_id x = us_id u then x\<lparr>us_sub := Some s\<rparr> else x) (ac_users ac)\<rparr>"

definition provision :: "idp_settings \<Rightarrow> fresh \<Rightarrow> claims \<Rightarrow> string \<Rightarrow> accounts \<Rightarrow> accounts \<times> (string \<times> string) res" where
  \<comment> \<open>a new user with an organization of its own; the insertion fails when the email is taken\<close>
  "provision st fi cl email ac =
     (if \<not> is_jit st then (ac, raise_app Forbidden ''no_account'')
      else if email = '''' then (ac, raise_app Unauthorized ''missing_email'')
      else if is_require_verified st \<and> \<not> cl_verified cl then (ac, raise_app Unauthorized ''email_unverified'')
      else if user_by_email ac email \<noteq> None \<or> user_by_sub ac (cl_sub cl) \<noteq> None
      then (ac, case user_by_sub ac (cl_sub cl) of
                  None \<Rightarrow> raise_app Unauthorized ''invalid_credentials''
                | Some u \<Rightarrow> Inr (us_id u, us_email u))
      else
        let u = \<lparr>us_id = fi_user fi, us_email = email, us_hash = None, us_name = cl_name cl, us_sub = Some (cl_sub cl)\<rparr>
        in (add_with_org fi u (workspace_name email) (unique_slug ac (local_part_of email)) ac, Inr (us_id u, email)))"

definition resolve_user_identity :: "idp_settings \<Rightarrow> fresh \<Rightarrow> claims \<Rightarrow> accounts \<Rightarrow> accounts \<times> (string \<times> string) res" where
  "resolve_user_identity st fi cl ac =
     (let email = norm_email (case cl_email cl of None \<Rightarrow> '''' | Some e \<Rightarrow> e) in
      case user_by_sub ac (cl_sub cl) of
        Some u \<Rightarrow> (ac, Inr (us_id u, us_email u))
      | None \<Rightarrow>
          (case (if email \<noteq> '''' \<and> is_link_by_email st then user_by_email ac email else None) of
             Some u \<Rightarrow>
               if \<not> cl_verified cl then (ac, raise_app Unauthorized ''email_unverified'')
               else if us_sub u \<noteq> None \<and> us_sub u \<noteq> Some (cl_sub cl) then (ac, raise_app app_class.Conflict ''idp_conflict'')
               else (link_sub (cl_sub cl) u ac, Inr (us_id u, us_email u))
           | None \<Rightarrow> provision st fi cl email ac))"

definition resolve_service_account :: "string \<Rightarrow> accounts \<Rightarrow> (string \<times> string \<times> string \<times> string) option res" where
  "resolve_service_account client ac =
     (case find (\<lambda>s. sa_client s = client) (ac_services ac) of
        None \<Rightarrow> Inr None
      | Some s \<Rightarrow>
          if sa_status s \<noteq> ''active'' then raise_app Forbidden ''service_account_revoked''
          else case user_by_id ac (sa_user s) of
              None \<Rightarrow> raise_app Unauthorized ''invalid_credentials''
            | Some u \<Rightarrow> Inr (Some (us_id u, us_email u, sa_org s, sa_role s)))"

definition is_client_id :: "string \<Rightarrow> bool" where
  "is_client_id s \<longleftrightarrow>
     2 \<le> length s \<and> length s \<le> 255 \<and> is_slug_char (lower_char (hd s)) \<and> ord (hd s) < (128 :: nat) \<and>
     list_all (\<lambda>c. ord c < (128 :: nat) \<and> is_slug_char (lower_char c) \<or> c \<in> {CHR ''.'', CHR ''_'', CHR ''-''}) (tl s)"

definition service_email :: "string \<Rightarrow> string" where
  "service_email client = lower client @ ''@service-accounts.local''"

record service_answer =
  sv_id :: string
  sv_client :: string
  sv_name :: string
  sv_role :: string

definition register_service_account ::
    "idp_settings \<Rightarrow> fresh \<Rightarrow> string \<Rightarrow> string \<Rightarrow> string \<Rightarrow> string option \<Rightarrow> string \<Rightarrow> accounts \<Rightarrow> accounts \<times> service_answer res" where
  "register_service_account st fi org actor_role client0 name role ac =
     (let client = strip client0 in
      if actor_role \<notin> {''owner'', ''admin''} then (ac, raise_app Forbidden ''admin_required'')
      else if \<not> is_client_id client then (ac, raise_app BadRequest ''invalid_client_id'')
      else if role \<notin> {''admin'', ''member''} then (ac, raise_app BadRequest ''invalid_role'')
      else if is_web_client st \<noteq> '''' \<and> lower client = lower (strip (is_web_client st))
      then (ac, raise_app BadRequest ''public_client_forbidden'')
      else if find (\<lambda>s. sa_client s = client) (ac_services ac) \<noteq> None then (ac, raise_app app_class.Conflict ''client_id_taken'')
      else
        let (ac1, uid) =
              (case user_by_email ac (service_email client) of
                 Some u \<Rightarrow> (ac, us_id u)
               | None \<Rightarrow>
                   (ac\<lparr>ac_users := ac_users ac @ [\<lparr>us_id = fi_user fi, us_email = service_email client, us_hash = None,
                                                     us_name = Some (''Service: '' @ client), us_sub = None\<rparr>]\<rparr>, fi_user fi));
            shown = (if truthy name then the name else client)
        in if list_ex (\<lambda>m. mb_org m = org \<and> mb_user m = uid) (ac_members ac1) then (ac, Inl IntegrityError)
           else (ac1\<lparr>ac_members := ac_members ac1 @ [\<lparr>mb_id = fi_member fi, mb_org = org, mb_user = uid, mb_role = role\<rparr>],
                     ac_services := ac_services ac1 @ [\<lparr>sa_id = fi_service fi, sa_org = org, sa_user = uid, sa_client = client,
                                                        sa_name = shown, sa_role = role, sa_status = ''active''\<rparr>]\<rparr>,
                 Inr \<lparr>sv_id = fi_service fi, sv_client = client, sv_name = shown, sv_role = role\<rparr>))"

section \<open>The principal of a request\<close>

datatype auth_mode = Legacy | Keycloak | Hybrid

record token_env =
  te_decode :: "string \<Rightarrow> claims res"
  te_decode_oidc :: "string \<Rightarrow> claims res"
  te_algorithm :: "string \<Rightarrow> string res"

datatype auth_kind = User_Kind | Service_Kind

record principal =
  pc_user :: string
  pc_email :: string
  pc_org :: string
  pc_role :: string
  pc_kind :: auth_kind

definition legacy_principal :: "claims \<Rightarrow> string option \<Rightarrow> accounts \<Rightarrow> accounts \<times> principal res" where
  "legacy_principal cl org ac =
     (ac, rbind (resolve_org_for_user (cl_sub cl) org ac) (\<lambda>(o', role).
            Inr \<lparr>pc_user = cl_sub cl, pc_email = (case cl_email cl of None \<Rightarrow> '''' | Some e \<Rightarrow> e), pc_org = o', pc_role = role,
                 pc_kind = User_Kind\<rparr>))"

definition oidc_user :: "idp_settings \<Rightarrow> fresh \<Rightarrow> claims \<Rightarrow> string option \<Rightarrow> accounts \<Rightarrow> accounts \<times> principal res" where
  "oidc_user st fi cl org ac =
     (case resolve_user_identity st fi cl ac of
        (ac', Inl e) \<Rightarrow> (ac', Inl e)
      | (ac', Inr (i, email)) \<Rightarrow>
          (ac', rbind (resolve_org_for_user i org ac') (\<lambda>(o', role).
                  Inr \<lparr>pc_user = i, pc_email = email, pc_org = o', pc_role = role, pc_kind = User_Kind\<rparr>)))"

definition oidc_principal :: "idp_settings \<Rightarrow> fresh \<Rightarrow> claims \<Rightarrow> string option \<Rightarrow> accounts \<Rightarrow> accounts \<times> principal res" where
  "oidc_principal st fi cl org ac =
     (let azp = (if truthy (cl_azp cl) then cl_azp cl else cl_client_id cl) in
      if truthy azp then
        (case resolve_service_account (the azp) ac of
           Inl e \<Rightarrow> (ac, Inl e)
         | Inr None \<Rightarrow> oidc_user st fi cl org ac
         | Inr (Some (i, email, o', role)) \<Rightarrow>
             if truthy org \<and> org \<noteq> Some o' then (ac, raise_app Forbidden ''not_a_member'')
             else (ac, Inr \<lparr>pc_user = i, pc_email = email, pc_org = o', pc_role = role, pc_kind = Service_Kind\<rparr>))
      else oidc_user st fi cl org ac)"

definition decoded :: "claims res \<Rightarrow> (claims \<Rightarrow> accounts \<times> principal res) \<Rightarrow> accounts \<Rightarrow> accounts \<times> principal res" where
  "decoded r f ac = (case r of Inl e \<Rightarrow> (ac, Inl e) | Inr cl \<Rightarrow> f cl)"

definition get_principal ::
    "auth_mode \<Rightarrow> token_env \<Rightarrow> idp_settings \<Rightarrow> fresh \<Rightarrow> string option \<Rightarrow> string option \<Rightarrow> accounts \<Rightarrow> accounts \<times> principal res" where
  "get_principal mode te st fi authorization org ac =
     (if \<not> truthy authorization \<or> \<not> starts_with ''bearer '' (lower (the authorization)) then (ac, raise_default Unauthorized)
      else
        let token = strip (drop 7 (the authorization));
            legacy = decoded (te_decode te token) (\<lambda>cl. legacy_principal cl org ac) ac;
            oidc = decoded (te_decode_oidc te token) (\<lambda>cl. oidc_principal st fi cl org ac) ac;
            r = (case mode of
                   Legacy \<Rightarrow> legacy
                 | Keycloak \<Rightarrow> oidc
                 | Hybrid \<Rightarrow> (case te_algorithm te token of
                               Inl e \<Rightarrow> (ac, Inl e)
                             | Inr alg \<Rightarrow> if starts_with ''HS'' alg then legacy else oidc))
        in case r of (ac', Inl PyJWTError) \<Rightarrow> (ac', raise_default Unauthorized) | _ \<Rightarrow> r)"

section \<open>Bridges\<close>

definition create_bridge :: "crypto \<Rightarrow> string \<Rightarrow> string \<Rightarrow> string \<Rightarrow> string option \<Rightarrow> accounts \<Rightarrow> accounts \<times> (string \<times> string)" where
  \<comment> \<open>with the random key and identifier\<close>
  "create_bridge cr raw_key i org name ac =
     (ac\<lparr>ac_bridges := ac_bridges ac @
         [\<lparr>bg_id = i, bg_org = org, bg_name = take 200 (strip (if truthy name then the name else ''Bridge'')),
          bg_hash = cr_key_hash cr raw_key, bg_status = ''active'', bg_last_seen = None\<rparr>]\<rparr>, (i, raw_key))"

definition authenticate_bridge :: "crypto \<Rightarrow> string option \<Rightarrow> accounts \<Rightarrow> (string \<times> string) option" where
  "authenticate_bridge cr raw_key ac =
     (if \<not> truthy raw_key then None
      else map_option (\<lambda>b. (bg_org b, bg_id b))
             (find (\<lambda>b. bg_hash b = cr_key_hash cr (the raw_key) \<and> bg_status b = ''active'') (ac_bridges ac)))"

definition touch_last_seen :: "int \<Rightarrow> string \<Rightarrow> accounts \<Rightarrow> accounts" where
  "touch_last_seen now i ac =
     ac\<lparr>ac_bridges := map (\<lambda>b. if bg_id b = i then b\<lparr>bg_last_seen := Some now\<rparr> else b) (ac_bridges ac)\<rparr>"

section \<open>Slugs are free\<close>

lemma free_suffix_spec:
  assumes "1 \<le> n"
  shows "n \<le> free_suffix taken stem n \<and> candidate_slug stem (free_suffix taken stem n) \<notin> set taken \<and>
    (\<forall>m. n \<le> m \<longrightarrow> m < free_suffix taken stem n \<longrightarrow> candidate_slug stem m \<in> set taken)"
  using assms
proof (induction taken stem n rule: free_suffix.induct)
  case (1 taken stem n)
  then have n: "max (Suc 0) n = n" by simp
  show ?case
  proof (cases "candidate_slug stem n \<in> set taken")
    case True
    then have s: "free_suffix taken stem n = free_suffix taken stem (Suc n)"
      by (simp add: n free_suffix.simps [of taken stem n])
    let ?k = "free_suffix taken stem (Suc n)"
    have ih: "Suc n \<le> ?k" "candidate_slug stem ?k \<notin> set taken" "\<And>m. Suc n \<le> m \<Longrightarrow> m < ?k \<Longrightarrow> candidate_slug stem m \<in> set taken"
      using "1.IH" True by (simp_all add: n)
    have "candidate_slug stem m \<in> set taken" if "n \<le> m" "m < ?k" for m
      using ih(3) [of m] True that by (cases "m = n") simp_all
    then show ?thesis using ih(1,2) unfolding s by simp
  qed (simp add: n free_suffix.simps [of taken stem n])
qed

lemma free_suffix_bound: "free_suffix taken stem 1 \<le> Suc (length taken)"
proof -
  let ?k = "free_suffix taken stem 1"
  have "candidate_slug stem ` {1..<?k} \<subseteq> set taken" using free_suffix_spec [of 1 taken stem] by auto
  then have "card (candidate_slug stem ` {1..<?k}) \<le> length taken" using card_mono [OF finite_set] card_length order_trans by metis
  moreover have "inj_on (candidate_slug stem) {1..<?k}" by (rule inj_onI) (simp add: candidate_slug_inj)
  ultimately show ?thesis by (simp add: card_image)
qed

lemma slug_free: "unique_slug ac s \<notin> og_slug ` set (ac_orgs ac)"
  using free_suffix_spec [of 1 "map og_slug (ac_orgs ac)"] by (simp add: unique_slug_def Let_def)

text \<open>
  C40: The search for a slug ends: with \<open>k\<close> organizations it stops after at most \<open>k + 1\<close> candidates, at the
  first one that no organization has.
\<close>

theorem slug_search_ends:
  "\<exists>n. 1 \<le> n \<and> n \<le> Suc (length (ac_orgs ac)) \<and> unique_slug ac s = candidate_slug (slugify s) n \<and>
     unique_slug ac s \<notin> og_slug ` set (ac_orgs ac) \<and>
     (\<forall>m. 1 \<le> m \<longrightarrow> m < n \<longrightarrow> candidate_slug (slugify s) m \<in> og_slug ` set (ac_orgs ac))"
  using free_suffix_spec [of 1 "map og_slug (ac_orgs ac)" "slugify s"] free_suffix_bound [of "map og_slug (ac_orgs ac)" "slugify s"]
  by (intro exI [of _ "free_suffix (map og_slug (ac_orgs ac)) (slugify s) 1"]) (simp add: unique_slug_def Let_def)

theorem slug_search_ends_witness:
  "unique_slug \<lparr>ac_orgs = [\<lparr>og_id = ''1'', og_name = ''A'', og_slug = ''a-b''\<rparr>, \<lparr>og_id = ''2'', og_name = ''B'', og_slug = ''a-b-2''\<rparr>],
     ac_users = [], ac_members = [], ac_services = [], ac_bridges = []\<rparr> '' A & B '' = ''a-b-3'' \<and>
   candidate_slug (slugify '' A & B '') 1 = ''a-b''"
proof -
  let ?ac = "\<lparr>ac_orgs = [\<lparr>og_id = ''1'', og_name = ''A'', og_slug = ''a-b''\<rparr>, \<lparr>og_id = ''2'', og_name = ''B'', og_slug = ''a-b-2''\<rparr>],
     ac_users = [], ac_members = [], ac_services = [], ac_bridges = []\<rparr> :: accounts"
  have c: "slugify '' A & B '' = ''a-b''" "candidate_slug ''a-b'' 1 = ''a-b''" "candidate_slug ''a-b'' 2 = ''a-b-2''"
    "candidate_slug ''a-b'' 3 = ''a-b-3''" by code_simp+
  obtain n where n: "1 \<le> n" "n \<le> 3" "unique_slug ?ac '' A & B '' = candidate_slug ''a-b'' n"
      "unique_slug ?ac '' A & B '' \<notin> {''a-b'', ''a-b-2''}"
    using slug_search_ends [of ?ac "'' A & B ''"] by (auto simp: c(1))
  then have "n = 3" using c by (metis insertCI le_SucE le_antisym numeral_2_eq_2 numeral_3_eq_3 One_nat_def)
  then show ?thesis using n c by simp
qed

section \<open>The tables stay consistent\<close>

definition subs_ok :: "user list \<Rightarrow> bool" where
  "subs_ok us \<longleftrightarrow> (\<forall>u\<in>set us. \<forall>v\<in>set us. us_sub u \<noteq> None \<and> us_sub u = us_sub v \<longrightarrow> us_id u = us_id v)"

definition users_ok :: "user list \<Rightarrow> bool" where
  "users_ok us \<longleftrightarrow> distinct (map us_id us) \<and> distinct (map us_email us) \<and> subs_ok us"

definition orgs_ok :: "organization list \<Rightarrow> bool" where
  "orgs_ok os \<longleftrightarrow> distinct (map og_id os) \<and> distinct (map og_slug os)"

definition members_ok :: "accounts \<Rightarrow> bool" where
  "members_ok ac \<longleftrightarrow>
     distinct (map (\<lambda>m. (mb_org m, mb_user m)) (ac_members ac)) \<and>
     (\<forall>m\<in>set (ac_members ac). mb_user m \<in> us_id ` set (ac_users ac) \<and> mb_org m \<in> og_id ` set (ac_orgs ac))"

definition services_ok :: "accounts \<Rightarrow> bool" where
  "services_ok ac \<longleftrightarrow>
     distinct (map sa_client (ac_services ac)) \<and>
     (\<forall>s\<in>set (ac_services ac). \<exists>m\<in>set (ac_members ac). mb_org m = sa_org s \<and> mb_user m = sa_user s \<and> mb_role m = sa_role s)"

definition accounts_ok :: "accounts \<Rightarrow> bool" where
  "accounts_ok ac \<longleftrightarrow> users_ok (ac_users ac) \<and> orgs_ok (ac_orgs ac) \<and> members_ok ac \<and> services_ok ac \<and>
     (\<forall>b\<in>set (ac_bridges ac). bg_org b \<in> og_id ` set (ac_orgs ac))"

definition is_fresh :: "fresh \<Rightarrow> accounts \<Rightarrow> bool" where
  "is_fresh fi ac \<longleftrightarrow> fi_user fi \<notin> us_id ` set (ac_users ac) \<and> fi_org fi \<notin> og_id ` set (ac_orgs ac)"

lemma find_SomeD: "find P xs = Some x \<Longrightarrow> x \<in> set xs \<and> P x"
  by (auto simp: find_Some_iff)

lemma find_none: "find P xs = None \<longleftrightarrow> (\<forall>x\<in>set xs. \<not> P x)"
  by (auto simp: find_None_iff)

lemma find_unique:
  assumes "distinct (map f xs)" "x \<in> set xs"
  shows "find (\<lambda>y. f y = f x) xs = Some x"
  using assms by (induction xs) (auto simp: image_iff)

lemma subs_ok_add:
  assumes "subs_ok us" "us_sub u = None \<or> us_sub u \<notin> us_sub ` set us"
  shows "subs_ok (us @ [u])"
proof -
  have sub: "us_sub u = None" if "v \<in> set us" "us_sub v = us_sub u" for v using assms(2) that by (metis imageI)
  have "us_id a = us_id b"
    if a: "a \<in> set (us @ [u])" and b: "b \<in> set (us @ [u])" and e: "us_sub a \<noteq> None \<and> us_sub a = us_sub b" for a b
  proof -
    have "a = u \<or> a \<in> set us" "b = u \<or> b \<in> set us" using a b by auto
    then show ?thesis using e assms(1) sub [of a] sub [of b] unfolding subs_ok_def by metis
  qed
  then show ?thesis unfolding subs_ok_def by blast
qed

lemma users_ok_add:
  assumes "users_ok us" "us_id u \<notin> us_id ` set us" "us_email u \<notin> us_email ` set us" "us_sub u = None \<or> us_sub u \<notin> us_sub ` set us"
  shows "users_ok (us @ [u])"
  using assms subs_ok_add [of us u] by (simp add: users_ok_def)

lemma accounts_ok_add:
  assumes "accounts_ok ac" "is_fresh fi ac" "us_id u = fi_user fi" "us_email u \<notin> us_email ` set (ac_users ac)"
    "us_sub u = None \<or> us_sub u \<notin> us_sub ` set (ac_users ac)" "slug \<notin> og_slug ` set (ac_orgs ac)"
  shows "accounts_ok (add_with_org fi u n slug ac)"
proof -
  have "users_ok (ac_users ac @ [u])" using assms by (intro users_ok_add) (simp_all add: accounts_ok_def is_fresh_def)
  moreover have "orgs_ok (ac_orgs ac @ [\<lparr>og_id = fi_org fi, og_name = n, og_slug = slug\<rparr>])"
    using assms by (auto simp: accounts_ok_def orgs_ok_def is_fresh_def)
  moreover have "(fi_org fi, fi_user fi) \<notin> (\<lambda>m. (mb_org m, mb_user m)) ` set (ac_members ac)"
    using assms by (auto simp: accounts_ok_def members_ok_def is_fresh_def)
  moreover have "members_ok ac" "services_ok ac" "\<forall>b\<in>set (ac_bridges ac). bg_org b \<in> og_id ` set (ac_orgs ac)"
    using assms(1) by (simp_all add: accounts_ok_def)
  ultimately show ?thesis
    by (auto simp: accounts_ok_def members_ok_def services_ok_def add_with_org_def assms(3))
qed

lemma accounts_ok_signup:
  assumes "accounts_ok ac" "is_fresh fi ac"
  shows "accounts_ok (fst (signup cr fi e p fn n ac))"
proof -
  have "norm_email e \<notin> us_email ` set (ac_users ac)" if "user_by_email ac (norm_email e) = None"
    using that by (auto simp: user_by_email_def find_none)
  then show ?thesis
    unfolding signup_def Let_def using assms slug_free by (auto intro!: accounts_ok_add split: if_splits)
qed

lemma link_sub_simps [simp]:
  "ac_orgs (link_sub s u ac) = ac_orgs ac" "ac_members (link_sub s u ac) = ac_members ac"
  "ac_services (link_sub s u ac) = ac_services ac" "ac_bridges (link_sub s u ac) = ac_bridges ac"
  "map us_id (ac_users (link_sub s u ac)) = map us_id (ac_users ac)"
  "map us_email (ac_users (link_sub s u ac)) = map us_email (ac_users ac)"
  by (simp_all add: link_sub_def)

lemma link_sub_ids [simp]: "us_id ` set (ac_users (link_sub s u ac)) = us_id ` set (ac_users ac)"
  using arg_cong [OF link_sub_simps(5), of set s u ac] by (simp only: set_map)

lemma link_sub_user:
  assumes "a \<in> set (ac_users (link_sub s u ac))"
  obtains x where "x \<in> set (ac_users ac)" "us_id a = us_id x" "us_email a = us_email x"
    "us_sub a = (if us_id x = us_id u then Some s else us_sub x)"
  using assms by (auto simp: link_sub_def)

lemma accounts_ok_link:
  assumes "accounts_ok ac" "user_by_sub ac s = None"
  shows "accounts_ok (link_sub s u ac)"
proof -
  have new: "us_sub x \<noteq> Some s" if "x \<in> set (ac_users ac)" for x using assms(2) that by (simp add: user_by_sub_def find_none)
  have old: "subs_ok (ac_users ac)" using assms(1) by (simp add: accounts_ok_def users_ok_def)
  have "us_id a = us_id b"
    if e: "a \<in> set (ac_users (link_sub s u ac))" "b \<in> set (ac_users (link_sub s u ac))" "us_sub a \<noteq> None \<and> us_sub a = us_sub b" for a b
  proof -
    obtain x where x: "x \<in> set (ac_users ac)" "us_id a = us_id x" "us_sub a = (if us_id x = us_id u then Some s else us_sub x)"
      using e(1) by (rule link_sub_user)
    obtain y where y: "y \<in> set (ac_users ac)" "us_id b = us_id y" "us_sub b = (if us_id y = us_id u then Some s else us_sub y)"
      using e(2) by (rule link_sub_user)
    show ?thesis
    proof (cases "us_id x = us_id u \<or> us_id y = us_id u")
      case True
      then show ?thesis using new [OF x(1)] new [OF y(1)] e(3) x(2,3) y(2,3) by (auto split: if_splits)
    next
      case False
      then show ?thesis using e(3) x y old unfolding subs_ok_def by metis
    qed
  qed
  then have "subs_ok (ac_users (link_sub s u ac))" unfolding subs_ok_def by blast
  then have "users_ok (ac_users (link_sub s u ac))" using assms(1) by (simp add: accounts_ok_def users_ok_def)
  then show ?thesis using assms(1) by (simp add: accounts_ok_def members_ok_def services_ok_def)
qed

lemma accounts_ok_provision:
  assumes "accounts_ok ac" "is_fresh fi ac" "user_by_sub ac (cl_sub cl) = None"
  shows "accounts_ok (fst (provision st fi cl e ac))"
proof -
  let ?u = "\<lparr>us_id = fi_user fi, us_email = e, us_hash = None, us_name = cl_name cl, us_sub = Some (cl_sub cl)\<rparr>"
  have sub: "Some (cl_sub cl) \<notin> us_sub ` set (ac_users ac)" using assms(3) by (force simp: user_by_sub_def find_none)
  have "accounts_ok (add_with_org fi ?u (workspace_name e) (unique_slug ac (local_part_of e)) ac)" if e: "user_by_email ac e = None"
  proof (rule accounts_ok_add [OF assms(1,2)])
    show "us_email ?u \<notin> us_email ` set (ac_users ac)" using e by (auto simp: user_by_email_def find_none)
  qed (simp_all add: sub slug_free)
  then show ?thesis using assms(1) by (simp add: provision_def Let_def)
qed

lemma accounts_ok_resolve:
  assumes "accounts_ok ac" "is_fresh fi ac"
  shows "accounts_ok (fst (resolve_user_identity st fi cl ac))"
proof (cases "user_by_sub ac (cl_sub cl)")
  case None
  show ?thesis using accounts_ok_provision [OF assms None] accounts_ok_link [OF assms(1) None] assms(1) None
    by (simp add: resolve_user_identity_def Let_def split: option.split)
qed (simp add: resolve_user_identity_def assms)

lemma get_principal_effect:
  "fst (get_principal mode te st fi auth org ac) = ac \<or>
    (\<exists>cl. fst (get_principal mode te st fi auth org ac) = fst (resolve_user_identity st fi cl ac))"
proof -
  have u: "fst (oidc_user st fi cl org ac) = fst (resolve_user_identity st fi cl ac)" for cl
    by (auto simp: oidc_user_def split: prod.split sum.split)
  have o': "fst (oidc_principal st fi cl org ac) = ac \<or> fst (oidc_principal st fi cl org ac) = fst (resolve_user_identity st fi cl ac)" for cl
    using u by (auto simp: oidc_principal_def Let_def split: sum.split option.split)
  have d: "fst (decoded r (\<lambda>cl. oidc_principal st fi cl org ac) ac) = ac \<or>
      (\<exists>cl. fst (decoded r (\<lambda>cl. oidc_principal st fi cl org ac) ac) = fst (resolve_user_identity st fi cl ac))" for r
    using o' by (cases r) (auto simp: decoded_def)
  have l: "fst (decoded r (\<lambda>cl. legacy_principal cl org ac) ac) = ac" for r
    by (cases r) (simp_all add: decoded_def legacy_principal_def)
  have f: "fst (case r of (ac', Inl PyJWTError) \<Rightarrow> (ac', raise_default Unauthorized) | _ \<Rightarrow> r) = fst r" for r :: "accounts \<times> principal res"
    by (auto split: prod.split sum.split exc.split)
  show ?thesis
    unfolding get_principal_def Let_def using d l
    by (auto simp: f split: auth_mode.split sum.split)
qed

lemma accounts_ok_get_principal:
  "accounts_ok ac \<Longrightarrow> is_fresh fi ac \<Longrightarrow> accounts_ok (fst (get_principal mode te st fi auth org ac))"
  using get_principal_effect [of mode te st fi auth org ac] accounts_ok_resolve by metis

text \<open>Who comes out of a request is a member of the organization it acts in.\<close>

definition member_of :: "accounts \<Rightarrow> principal \<Rightarrow> bool" where
  "member_of ac p \<longleftrightarrow> (\<exists>m\<in>set (ac_members ac). mb_user m = pc_user p \<and> mb_org m = pc_org p \<and> mb_role m = pc_role p)"

lemma resolve_org_member:
  assumes "resolve_org_for_user i org ac = Inr (o', role)"
  shows "(\<exists>m\<in>set (ac_members ac). mb_user m = i \<and> mb_org m = o' \<and> mb_role m = role) \<and> (truthy org \<longrightarrow> org = Some o')"
proof (cases "truthy org")
  case True
  then obtain m where "find (\<lambda>m. mb_user m = i \<and> mb_org m = the org) (ac_members ac) = Some m" "o' = the org" "role = mb_role m"
    using assms by (auto simp: resolve_org_for_user_def raise_app_def split: if_splits option.splits)
  then show ?thesis using True by (auto dest!: find_SomeD simp: truthy_def split: option.splits)
next
  case False
  then obtain m ms where "sort_key mb_id (filter (\<lambda>m. mb_user m = i) (ac_members ac)) = m # ms" "o' = mb_org m" "role = mb_role m"
    using assms by (auto simp: resolve_org_for_user_def raise_app_def split: if_splits list.splits)
  moreover from this have "m \<in> set (filter (\<lambda>m. mb_user m = i) (ac_members ac))" by (metis list.set_intros(1) set_sort)
  ultimately show ?thesis using False by auto
qed

definition principal_ok :: "string option \<Rightarrow> accounts \<Rightarrow> principal \<Rightarrow> bool" where
  "principal_ok org ac p \<longleftrightarrow> member_of ac p \<and> (truthy org \<longrightarrow> org = Some (pc_org p))"

lemma legacy_principal_ok: "snd (legacy_principal cl org ac) = Inr p \<Longrightarrow> principal_ok org ac p"
  by (auto simp: legacy_principal_def principal_ok_def member_of_def rbind_def dest!: resolve_org_member split: sum.splits prod.splits)

lemma oidc_user_ok: "oidc_user st fi cl org ac = (ac', Inr p) \<Longrightarrow> principal_ok org ac' p"
  by (auto simp: oidc_user_def principal_ok_def member_of_def rbind_def dest!: resolve_org_member split: sum.splits prod.splits)

lemma service_member:
  assumes "services_ok ac" "resolve_service_account c ac = Inr (Some (i, e, o', role))"
  shows "\<exists>m\<in>set (ac_members ac). mb_user m = i \<and> mb_org m = o' \<and> mb_role m = role"
proof -
  obtain s u where s: "find (\<lambda>s. sa_client s = c) (ac_services ac) = Some s" "user_by_id ac (sa_user s) = Some u"
      "i = us_id u" "o' = sa_org s" "role = sa_role s"
    using assms(2) by (auto simp: resolve_service_account_def raise_app_def split: option.splits if_splits)
  then have "us_id u = sa_user s" "s \<in> set (ac_services ac)" by (auto simp: user_by_id_def dest: find_SomeD)
  then show ?thesis using assms(1) s unfolding services_ok_def by metis
qed

lemma oidc_principal_ok:
  assumes "services_ok ac" "oidc_principal st fi cl org ac = (ac', Inr p)"
  shows "principal_ok org ac' p"
  using assms service_member [OF assms(1)] oidc_user_ok
  by (auto simp: oidc_principal_def Let_def principal_ok_def member_of_def raise_app_def split: if_splits sum.splits option.splits prod.splits)

lemma get_principal_ok:
  assumes "services_ok ac" "get_principal mode te st fi auth org ac = (ac', Inr p)"
  shows "principal_ok org ac' p"
proof -
  have l: "principal_ok org ac' p" if "decoded r (\<lambda>cl. legacy_principal cl org ac) ac = (ac', Inr p)" for r
  proof -
    obtain cl where "legacy_principal cl org ac = (ac', Inr p)" using \<open>decoded r _ ac = _\<close> by (auto simp: decoded_def split: sum.splits)
    moreover from this have "ac' = ac" by (simp add: legacy_principal_def)
    ultimately show ?thesis using legacy_principal_ok [of cl org ac p] by simp
  qed
  have o': "principal_ok org ac' p" if "decoded r (\<lambda>cl. oidc_principal st fi cl org ac) ac = (ac', Inr p)" for r
    using that oidc_principal_ok [OF assms(1)] by (auto simp: decoded_def split: sum.splits)
  show ?thesis
    using assms(2) unfolding get_principal_def Let_def
    by (auto simp: raise_default_def split: if_splits auth_mode.splits sum.splits prod.splits exc.splits dest: l o')
qed

lemma accounts_ok_new_user:
  assumes "accounts_ok ac" "us_id u \<notin> us_id ` set (ac_users ac)" "user_by_email ac (us_email u) = None" "us_sub u = None"
  shows "accounts_ok (ac\<lparr>ac_users := ac_users ac @ [u]\<rparr>)"
proof -
  have "us_email u \<notin> us_email ` set (ac_users ac)" using assms(3) by (auto simp: user_by_email_def find_none)
  then have "users_ok (ac_users ac @ [u])" using assms by (intro users_ok_add) (simp_all add: accounts_ok_def)
  then show ?thesis using assms(1) by (simp add: accounts_ok_def members_ok_def services_ok_def)
qed

lemma accounts_ok_new_service:
  assumes "accounts_ok ac" "mb_user m \<in> us_id ` set (ac_users ac)" "mb_org m \<in> og_id ` set (ac_orgs ac)"
    "\<not> list_ex (\<lambda>x. mb_org x = mb_org m \<and> mb_user x = mb_user m) (ac_members ac)"
    "find (\<lambda>x. sa_client x = sa_client s) (ac_services ac) = None"
    "sa_org s = mb_org m" "sa_user s = mb_user m" "sa_role s = mb_role m"
  shows "accounts_ok (ac\<lparr>ac_members := ac_members ac @ [m], ac_services := ac_services ac @ [s]\<rparr>)"
proof -
  have "(mb_org m, mb_user m) \<notin> (\<lambda>m. (mb_org m, mb_user m)) ` set (ac_members ac)" "sa_client s \<notin> sa_client ` set (ac_services ac)"
    using assms(4,5) by (auto simp: list_ex_iff find_none)
  moreover have "members_ok ac" "services_ok ac" using assms(1) by (simp_all add: accounts_ok_def)
  ultimately have "members_ok (ac\<lparr>ac_members := ac_members ac @ [m], ac_services := ac_services ac @ [s]\<rparr>)"
      "services_ok (ac\<lparr>ac_members := ac_members ac @ [m], ac_services := ac_services ac @ [s]\<rparr>)"
    using assms(2,3,6-8) by (simp_all add: members_ok_def services_ok_def ball_Un bex_Un)
  then show ?thesis using assms(1) by (simp add: accounts_ok_def)
qed

lemma accounts_ok_register:
  assumes "accounts_ok ac" "is_fresh fi ac" "org \<in> og_id ` set (ac_orgs ac)"
  shows "accounts_ok (fst (register_service_account st fi org actor client0 n role ac))"
proof (cases "user_by_email ac (service_email (strip client0))")
  case None
  define new where "new = \<lparr>us_id = fi_user fi, us_email = service_email (strip client0), us_hash = None,
      us_name = Some (''Service: '' @ strip client0), us_sub = None\<rparr>"
  have "accounts_ok (ac\<lparr>ac_users := ac_users ac @ [new]\<rparr>)"
    using None assms by (intro accounts_ok_new_user) (simp_all add: new_def is_fresh_def)
  from accounts_ok_new_service [OF this] show ?thesis using assms None
    by (simp add: register_service_account_def Let_def new_def)
next
  case (Some u)
  then have "us_id u \<in> us_id ` set (ac_users ac)" by (auto simp: user_by_email_def dest: find_SomeD)
  with accounts_ok_new_service [OF assms(1)] show ?thesis using assms Some
    by (simp add: register_service_account_def Let_def)
qed

section \<open>Histories of the tables\<close>

definition no_accounts :: accounts where
  "no_accounts = \<lparr>ac_orgs = [], ac_users = [], ac_members = [], ac_services = [], ac_bridges = []\<rparr>"

inductive account_step :: "crypto \<Rightarrow> token_env \<Rightarrow> idp_settings \<Rightarrow> accounts \<Rightarrow> accounts \<Rightarrow> bool"
  for cr :: crypto and te :: token_env and st :: idp_settings where
  sign_up: "is_fresh fi ac \<Longrightarrow> account_step cr te st ac (fst (signup cr fi email pw name org ac))"
| request: "is_fresh fi ac \<Longrightarrow> account_step cr te st ac (fst (get_principal mode te st fi auth org ac))"
| service: "is_fresh fi ac \<Longrightarrow> get_principal mode te st fi auth org ac = (ac1, Inr p) \<Longrightarrow> is_fresh fi' ac1 \<Longrightarrow>
    account_step cr te st ac (fst (register_service_account st fi' (pc_org p) (pc_role p) client name role ac1))"
| pair: "is_fresh fi ac \<Longrightarrow> get_principal mode te st fi auth org ac = (ac1, Inr p) \<Longrightarrow> pc_role p \<in> {''owner'', ''admin''} \<Longrightarrow>
    account_step cr te st ac (fst (create_bridge cr key i (pc_org p) name ac1))"
| seen: "account_step cr te st ac (touch_last_seen now i ac)"

lemma principal_org:
  assumes "accounts_ok ac" "is_fresh fi ac" "get_principal mode te st fi auth org ac = (ac', Inr p)"
  shows "accounts_ok ac'" "pc_org p \<in> og_id ` set (ac_orgs ac')"
proof -
  show ok: "accounts_ok ac'" using accounts_ok_get_principal [OF assms(1,2), of mode te st auth org] assms(3) by simp
  have "principal_ok org ac' p" using get_principal_ok [OF _ assms(3)] assms(1) by (simp add: accounts_ok_def)
  then show "pc_org p \<in> og_id ` set (ac_orgs ac')"
    using ok unfolding accounts_ok_def members_ok_def principal_ok_def member_of_def by metis
qed

lemma accounts_ok_bridge:
  "accounts_ok ac \<Longrightarrow> org \<in> og_id ` set (ac_orgs ac) \<Longrightarrow> accounts_ok (fst (create_bridge cr key i org n ac))"
  by (simp add: create_bridge_def accounts_ok_def members_ok_def services_ok_def)

lemma accounts_ok_seen: "accounts_ok ac \<Longrightarrow> accounts_ok (touch_last_seen now i ac)"
  by (auto simp: touch_last_seen_def accounts_ok_def members_ok_def services_ok_def)

lemma account_step_ok:
  assumes "account_step cr te st ac ac'" "accounts_ok ac"
  shows "accounts_ok ac'"
  using assms
proof (induction rule: account_step.induct)
  case (service fi ac mode auth org ac1 p fi' client name role)
  then show ?case using principal_org [of ac fi] by (intro accounts_ok_register) blast+
next
  case (pair fi ac mode auth org ac1 p key i name)
  then show ?case using principal_org [of ac fi] by (intro accounts_ok_bridge) blast+
qed (simp_all add: accounts_ok_signup accounts_ok_get_principal accounts_ok_seen)

lemma no_accounts_ok: "accounts_ok no_accounts"
  by (simp add: no_accounts_def accounts_ok_def users_ok_def subs_ok_def orgs_ok_def members_ok_def services_ok_def)

lemma reachable_ok: "(account_step cr te st)\<^sup>*\<^sup>* no_accounts ac \<Longrightarrow> accounts_ok ac"
  by (induction rule: rtranclp_induct) (auto intro: account_step_ok no_accounts_ok)

text \<open>
  C8: Whatever is signed up, provisioned, linked, registered and paired, starting from empty tables: email
  addresses, provider subjects, slugs and client identifiers stay unique, every membership joins a user and
  an organization that exist, and every service account is a member, with its role, of the organization
  it acts for.
\<close>

theorem accounts_stay_consistent:
  "(account_step cr te st)\<^sup>*\<^sup>* no_accounts ac \<Longrightarrow>
    users_ok (ac_users ac) \<and> orgs_ok (ac_orgs ac) \<and> members_ok ac \<and> services_ok ac \<and>
    (\<forall>b\<in>set (ac_bridges ac). bg_org b \<in> og_id ` set (ac_orgs ac))"
  using reachable_ok unfolding accounts_ok_def by blast

text \<open>
  C38: Whatever the token says, a request acts only in an organization of which the caller is a member with
  the role it acts in, and when it names an organization, in that one.
\<close>

theorem principal_is_member:
  assumes "(account_step cr te st)\<^sup>*\<^sup>* no_accounts ac"
    and "get_principal mode te st fi auth org ac = (ac', Inr p)"
  shows "(\<exists>m\<in>set (ac_members ac'). mb_user m = pc_user p \<and> mb_org m = pc_org p \<and> mb_role m = pc_role p) \<and>
    (truthy org \<longrightarrow> org = Some (pc_org p))"
  using get_principal_ok [OF _ assms(2)] reachable_ok [OF assms(1)]
  unfolding accounts_ok_def principal_ok_def member_of_def by blast

lemma user_by_sub_some:
  assumes "users_ok us" "find (\<lambda>u. us_sub u = Some s) us = Some v" "u \<in> set us" "us_id u = us_id v"
  shows "u = v"
  using assms find_SomeD [OF assms(2)] by (auto simp: users_ok_def distinct_map inj_on_def)

lemma link_sub_others:
  "v \<in> set (ac_users ac) \<Longrightarrow> us_id v \<noteq> us_id u \<Longrightarrow> v \<in> set (ac_users (link_sub s u ac))"
  "v \<in> set (ac_users ac) \<Longrightarrow> us_id v = us_id u \<Longrightarrow> v\<lparr>us_sub := Some s\<rparr> \<in> set (ac_users (link_sub s u ac))"
  by (force simp: link_sub_def)+

lemma provision_new:
  assumes "provision st fi cl m ac = (ac', Inr (i, e))" "user_by_sub ac (cl_sub cl) = None"
  shows "i = fi_user fi"
  using assms by (auto simp: provision_def raise_app_def Let_def split: if_splits)

text \<open>
  C9: A token of the provider reaches an account that exists already only if that account is linked to its
  subject, or is not linked, has the email address of the token, and the provider vouches for the address;
  afterwards it is linked to the subject, and no other account has changed.
\<close>

theorem no_account_takeover:
  assumes "accounts_ok ac" "is_fresh fi ac" "resolve_user_identity st fi cl ac = (ac', Inr (i, e))" "u \<in> set (ac_users ac)" "us_id u = i"
  shows "(us_sub u = Some (cl_sub cl) \<or>
      us_sub u = None \<and> is_link_by_email st \<and> cl_verified cl \<and> (\<exists>m. cl_email cl = Some m \<and> us_email u = norm_email m)) \<and>
    e = us_email u \<and> u\<lparr>us_sub := Some (cl_sub cl)\<rparr> \<in> set (ac_users ac') \<and>
    (\<forall>v\<in>set (ac_users ac). us_id v \<noteq> i \<longrightarrow> v \<in> set (ac_users ac'))"
proof (cases "user_by_sub ac (cl_sub cl)")
  case (Some v)
  then have v: "ac' = ac" "i = us_id v" "e = us_email v" "us_sub v = Some (cl_sub cl)"
    using assms(3) by (auto simp: resolve_user_identity_def user_by_sub_def dest: find_SomeD)
  have "u = v" using v user_by_sub_some [of "ac_users ac"] assms(1,4,5) Some by (simp add: accounts_ok_def user_by_sub_def)
  have self: "v\<lparr>us_sub := Some (cl_sub cl)\<rparr> = v" using v(4) by (cases v) simp
  show ?thesis using v assms(4) unfolding \<open>u = v\<close> self by simp
next
  case None
  define m where "m = norm_email (case cl_email cl of None \<Rightarrow> '''' | Some e \<Rightarrow> e)"
  have "us_id u \<noteq> fi_user fi" using assms(2,4) unfolding is_fresh_def by (metis imageI)
  then have "provision st fi cl m ac \<noteq> (ac', Inr (i, e))" using provision_new None assms(5) by metis
  then obtain v where v: "m \<noteq> ''''" "is_link_by_email st" "user_by_email ac m = Some v" "cl_verified cl"
      "us_sub v = None \<or> us_sub v = Some (cl_sub cl)" "ac' = link_sub (cl_sub cl) v ac" "i = us_id v" "e = us_email v"
    using assms(3) None unfolding resolve_user_identity_def m_def [symmetric]
    by (auto simp: raise_app_def Let_def split: if_splits option.splits)
  have "v \<in> set (ac_users ac)" "us_email v = m" using v(3) by (auto simp: user_by_email_def dest: find_SomeD)
  moreover from this have "u = v" using assms(1,4,5) v(7) by (auto simp: accounts_ok_def users_ok_def distinct_map inj_on_def)
  moreover have "\<exists>x. cl_email cl = Some x \<and> m = norm_email x" using v(1) by (cases "cl_email cl") (simp_all add: m_def norm_email_def lower_def)
  ultimately show ?thesis using v link_sub_others by auto
qed

theorem no_account_takeover_witness:
  "resolve_user_identity \<lparr>is_link_by_email = True, is_jit = True, is_require_verified = True, is_web_client = ''web''\<rparr>
     \<lparr>fi_user = ''u2'', fi_org = ''o2'', fi_member = ''m2'', fi_service = ''s2''\<rparr>
     \<lparr>cl_sub = ''kc-1'', cl_email = Some '' Ann@X.io'', cl_verified = True, cl_name = None, cl_azp = None, cl_client_id = None\<rparr>
     \<lparr>ac_orgs = [], ac_users = [\<lparr>us_id = ''u1'', us_email = ''ann@x.io'', us_hash = Some ''h'', us_name = None, us_sub = None\<rparr>],
      ac_members = [], ac_services = [], ac_bridges = []\<rparr> =
   (\<lparr>ac_orgs = [], ac_users = [\<lparr>us_id = ''u1'', us_email = ''ann@x.io'', us_hash = Some ''h'', us_name = None, us_sub = Some ''kc-1''\<rparr>],
     ac_members = [], ac_services = [], ac_bridges = []\<rparr>, Inr (''u1'', ''ann@x.io'')) \<and>
   norm_email '' Ann@X.io'' = ''ann@x.io''"
proof -
  let ?st = "\<lparr>is_link_by_email = True, is_jit = True, is_require_verified = True, is_web_client = ''web''\<rparr>"
  let ?fi = "\<lparr>fi_user = ''u2'', fi_org = ''o2'', fi_member = ''m2'', fi_service = ''s2''\<rparr>"
  let ?cl = "\<lparr>cl_sub = ''kc-1'', cl_email = Some '' Ann@X.io'', cl_verified = True, cl_name = None, cl_azp = None, cl_client_id = None\<rparr>"
  let ?u = "\<lparr>us_id = ''u1'', us_email = ''ann@x.io'', us_hash = Some ''h'', us_name = None, us_sub = None\<rparr>"
  let ?ac = "\<lparr>ac_orgs = [], ac_users = [?u], ac_members = [], ac_services = [], ac_bridges = []\<rparr> :: accounts"
  let ?ac' = "?ac\<lparr>ac_users := [?u\<lparr>us_sub := Some ''kc-1''\<rparr>]\<rparr>"
  have r: "resolve_user_identity ?st ?fi ?cl ?ac = (?ac', Inr (''u1'', ''ann@x.io''))" by code_simp
  have "accounts_ok ?ac" by (simp add: accounts_ok_def users_ok_def subs_ok_def orgs_ok_def members_ok_def services_ok_def)
  moreover have "is_fresh ?fi ?ac" by (simp add: is_fresh_def)
  ultimately have "\<exists>m. cl_email ?cl = Some m \<and> us_email ?u = norm_email m"
    using no_account_takeover [OF _ _ r, of ?u] by auto
  then show ?thesis using r by simp
qed

section \<open>A small server\<close>

text \<open>Tables after one sign-up, and a server that accepts one token of the first user.\<close>

definition demo_crypto :: crypto where
  "demo_crypto = \<lparr>cr_hash = (\<lambda>p. ''#'' @ p), cr_verify = (\<lambda>h p. h = ''#'' @ p), cr_token = (\<lambda>i e. i), cr_key_hash = (\<lambda>k. k)\<rparr>"

definition demo_idp :: idp_settings where
  "demo_idp = \<lparr>is_link_by_email = True, is_jit = True, is_require_verified = True, is_web_client = ''web''\<rparr>"

definition demo_tokens :: token_env where
  "demo_tokens =
     \<lparr>te_decode = (\<lambda>t. if t = ''u1'' then Inr \<lparr>cl_sub = ''u1'', cl_email = Some ''ann@x.io'', cl_verified = False, cl_name = None,
                                                cl_azp = None, cl_client_id = None\<rparr>
                       else Inl PyJWTError),
      te_decode_oidc = (\<lambda>t. Inl PyJWTError), te_algorithm = (\<lambda>t. Inr ''HS256'')\<rparr>"

definition demo_fresh :: fresh where
  "demo_fresh = \<lparr>fi_user = ''u1'', fi_org = ''o1'', fi_member = ''m1'', fi_service = ''s1''\<rparr>"

definition demo_accounts :: accounts where
  "demo_accounts = fst (signup demo_crypto demo_fresh ''ann@x.io'' ''password'' None None no_accounts)"

section \<open>Passwords\<close>

lemma returned: "\<not> isl (snd r) \<Longrightarrow> \<exists>x. r = (fst r, Inr x)"
  by (metis prod.collapse sum.collapse(2))

lemma find_append_one: "find P xs = None \<Longrightarrow> find P (xs @ [x]) = (if P x then Some x else None)"
  by (induction xs) (auto split: if_splits)



section \<open>Reserved addresses\<close>

text \<open>
  Registering a client takes over whatever account has the address made from its identifier: that
  account, although nobody has invited it, is then a member of the organization, with the role of the
  client, and its requests that name the organization act there.
\<close>

theorem reserved_address_joins:
  assumes "user_by_email ac (service_email (strip client)) = Some u" "accounts_ok ac" "org \<noteq> ''''"
    and "register_service_account st fi org actor client name role ac = (ac', Inr a)"
  shows "resolve_org_for_user (us_id u) (Some org) ac' = Inr (org, role) \<and> ac_users ac' = ac_users ac"
proof -
  have r: "ac_users ac' = ac_users ac" "\<not> list_ex (\<lambda>m. mb_org m = org \<and> mb_user m = us_id u) (ac_members ac)"
      "ac_members ac' = ac_members ac @ [\<lparr>mb_id = fi_member fi, mb_org = org, mb_user = us_id u, mb_role = role\<rparr>]"
    using assms(1,4) by (auto simp: register_service_account_def Let_def raise_app_def split: if_splits)
  have none: "find (\<lambda>m. mb_user m = us_id u \<and> mb_org m = org) (ac_members ac) = None" using r(2) by (auto simp: find_none list_ex_iff)
  have "u \<in> set (ac_users ac)" using assms(1) by (auto simp: user_by_email_def dest: find_SomeD)
  then have "user_by_id ac' (us_id u) = Some u"
    using assms(2) find_unique [of us_id "ac_users ac" u] r(1) by (simp add: user_by_id_def accounts_ok_def users_ok_def)
  moreover have "truthy (Some org)" using assms(3) by (simp add: truthy_def)
  ultimately show ?thesis using r(1,3) find_append_one [OF none] by (simp add: resolve_org_for_user_def)
qed

theorem reserved_address_joins_witness:
  "\<exists>ac' a. register_service_account \<lparr>is_link_by_email = True, is_jit = True, is_require_verified = True, is_web_client = ''web''\<rparr>
       \<lparr>fi_user = ''u3'', fi_org = ''o3'', fi_member = ''m3'', fi_service = ''s3''\<rparr> ''o1'' ''owner'' ''Bot'' None ''admin''
       \<lparr>ac_orgs = [\<lparr>og_id = ''o1'', og_name = ''A'', og_slug = ''a''\<rparr>],
        ac_users = [\<lparr>us_id = ''u9'', us_email = ''bot@service-accounts.local'', us_hash = Some ''h'', us_name = None, us_sub = None\<rparr>],
        ac_members = [], ac_services = [], ac_bridges = []\<rparr> = (ac', Inr a) \<and>
     resolve_org_for_user ''u9'' (Some ''o1'') ac' = Inr (''o1'', ''admin'')"
proof -
  let ?st = "\<lparr>is_link_by_email = True, is_jit = True, is_require_verified = True, is_web_client = ''web''\<rparr>"
  let ?fi = "\<lparr>fi_user = ''u3'', fi_org = ''o3'', fi_member = ''m3'', fi_service = ''s3''\<rparr>"
  let ?u = "\<lparr>us_id = ''u9'', us_email = ''bot@service-accounts.local'', us_hash = Some ''h'', us_name = None, us_sub = None\<rparr>"
  let ?ac = "\<lparr>ac_orgs = [\<lparr>og_id = ''o1'', og_name = ''A'', og_slug = ''a''\<rparr>], ac_users = [?u], ac_members = [], ac_services = [], ac_bridges = []\<rparr>"
  let ?r = "register_service_account ?st ?fi ''o1'' ''owner'' ''Bot'' None ''admin'' ?ac"
  have "\<not> isl (snd ?r)" by code_simp
  from returned [OF this] obtain a where r: "?r = (fst ?r, Inr a)" ..
  have u: "user_by_email ?ac (service_email (strip ''Bot'')) = Some ?u" by code_simp
  have ok: "accounts_ok ?ac" by (simp add: accounts_ok_def users_ok_def subs_ok_def orgs_ok_def members_ok_def services_ok_def)
  have "resolve_org_for_user (us_id ?u) (Some ''o1'') (fst ?r) = Inr (''o1'', ''admin'')"
    using reserved_address_joins [OF u ok _ r] by simp
  then show ?thesis using r by auto
qed

section \<open>A first sign-up\<close>

lemma demo_reachable: "(account_step demo_crypto demo_tokens demo_idp)\<^sup>*\<^sup>* no_accounts demo_accounts"
  unfolding demo_accounts_def
  by (intro r_into_rtranclp sign_up) (simp add: is_fresh_def no_accounts_def)

theorem accounts_stay_consistent_witness:
  "members_ok demo_accounts \<and> services_ok demo_accounts \<and> map mb_role (ac_members demo_accounts) = [''owner'']"
proof -
  have "map mb_role (ac_members demo_accounts) = [''owner'']" by code_simp
  then show ?thesis using accounts_stay_consistent [OF demo_reachable] by blast
qed

theorem principal_is_member_witness:
  "\<exists>p. get_principal Legacy demo_tokens demo_idp demo_fresh (Some ''Bearer u1'') (Some ''o1'') demo_accounts = (demo_accounts, Inr p) \<and>
     pc_org p = ''o1'' \<and> pc_role p = ''owner'' \<and> (\<exists>m\<in>set (ac_members demo_accounts). mb_user m = ''u1'' \<and> mb_org m = ''o1'')"
proof -
  let ?p = "\<lparr>pc_user = ''u1'', pc_email = ''ann@x.io'', pc_org = ''o1'', pc_role = ''owner'', pc_kind = User_Kind\<rparr>"
  have "snd (get_principal Legacy demo_tokens demo_idp demo_fresh (Some ''Bearer u1'') (Some ''o1'') demo_accounts) = Inr ?p" by code_simp
  moreover have "fst (get_principal Legacy demo_tokens demo_idp demo_fresh (Some ''Bearer u1'') (Some ''o1'') demo_accounts) = demo_accounts"
    by code_simp
  ultimately have g: "get_principal Legacy demo_tokens demo_idp demo_fresh (Some ''Bearer u1'') (Some ''o1'') demo_accounts = (demo_accounts, Inr ?p)"
    by (simp add: prod_eq_iff)
  then show ?thesis using principal_is_member [OF demo_reachable g] by auto
qed

end
