(* ===== verification/Relay.thy ===== *)
theory Relay
  imports PushFlow Lease
begin

text \<open>
  The relay to the bridges: \<open>app/relay/registry.py\<close>, the connections of one process and the requests that
  wait on them, and \<open>app/relay/redis_relay.py\<close>, which takes a request to whichever process holds the
  connection.  A connection object and a future are the numbers under which the process made them; the
  bytes of a document travel as they are (Base64 is left out).  Times are seconds.
\<close>

section \<open>The registry of one process\<close>

datatype future = Waiting | Answered string | Broken string | Cancelled

record connection =
  co_socket :: nat
  co_bridge :: string
  co_guid :: "string option"
  co_pending :: "(string, nat) dict"

record push_frame =
  pf_job :: string
  pf_company :: string
  pf_xml :: string

record registry =
  rg_objects :: "connection list"
  rg_by_org :: "(string, nat) dict"
  rg_futures :: "future list"
  rg_sent :: "(nat \<times> push_frame) list"

record ticket =
  ti_conn :: nat
  ti_job :: string
  ti_future :: nat

definition new_registry :: registry where
  "new_registry = \<lparr>rg_objects = [], rg_by_org = [], rg_futures = [], rg_sent = []\<rparr>"

definition settle :: "future \<Rightarrow> nat \<Rightarrow> future list \<Rightarrow> future list" where
  \<comment> \<open>only a future that is not done\<close>
  "settle v i fs = (if i < length fs \<and> fs ! i = Waiting then fs[i := v] else fs)"

definition set_pending :: "nat \<Rightarrow> (string, nat) dict \<Rightarrow> registry \<Rightarrow> registry" where
  "set_pending c p rg = rg\<lparr>rg_objects := (rg_objects rg)[c := (rg_objects rg ! c)\<lparr>co_pending := p\<rparr>]\<rparr>"

definition fail_pending :: "nat \<Rightarrow> string \<Rightarrow> registry \<Rightarrow> registry" where
  "fail_pending c reason rg =
     set_pending c [] (rg\<lparr>rg_futures := fold (settle (Broken reason)) (map snd (co_pending (rg_objects rg ! c))) (rg_futures rg)\<rparr>)"

definition connect :: "string \<Rightarrow> string \<Rightarrow> nat \<Rightarrow> registry \<Rightarrow> registry" where
  \<comment> \<open>the last connection of an organization replaces the one before\<close>
  "connect org bridge socket rg =
     (let rg1 = (case dget (rg_by_org rg) org of None \<Rightarrow> rg | Some c \<Rightarrow> fail_pending c ''replaced by a new connection'' rg)
      in rg1\<lparr>rg_objects := rg_objects rg1 @ [\<lparr>co_socket = socket, co_bridge = bridge, co_guid = None, co_pending = []\<rparr>],
             rg_by_org := AList.update org (length (rg_objects rg1)) (rg_by_org rg1)\<rparr>)"

definition disconnect :: "string \<Rightarrow> nat \<Rightarrow> registry \<Rightarrow> registry" where
  "disconnect org socket rg =
     (case dget (rg_by_org rg) org of
        None \<Rightarrow> rg
      | Some c \<Rightarrow>
          if co_socket (rg_objects rg ! c) = socket
          then (fail_pending c ''bridge disconnected'' rg)\<lparr>rg_by_org := AList.delete org (rg_by_org rg)\<rparr>
          else rg)"

definition is_online :: "string \<Rightarrow> registry \<Rightarrow> bool" where
  "is_online org rg \<longleftrightarrow> dget (rg_by_org rg) org \<noteq> None"

definition company_guid :: "string \<Rightarrow> registry \<Rightarrow> string option" where
  "company_guid org rg = (case dget (rg_by_org rg) org of None \<Rightarrow> None | Some c \<Rightarrow> co_guid (rg_objects rg ! c))"

text \<open>
  A dispatch up to the point where it waits, when the socket may refuse the frame (the request then stays
  among the pending ones), and from there on: what it waits for, the time limit when nothing has come.
\<close>

definition dispatch_send ::
    "(nat \<Rightarrow> exc option) \<Rightarrow> string \<Rightarrow> string \<Rightarrow> string \<Rightarrow> string option \<Rightarrow> registry \<Rightarrow> registry \<times> ticket res" where
  "dispatch_send refuses org job xml company rg =
     (case dget (rg_by_org rg) org of
        None \<Rightarrow> (rg, Inl BridgeNotConnected)
      | Some c \<Rightarrow>
          let f = length (rg_futures rg); co = rg_objects rg ! c;
              rg1 = set_pending c (AList.update job f (co_pending co)) (rg\<lparr>rg_futures := rg_futures rg @ [Waiting]\<rparr>);
              msg = \<lparr>pf_job = job, pf_company = (case company of None \<Rightarrow> '''' | Some s \<Rightarrow> s), pf_xml = xml\<rparr>
          in case refuses (co_socket co) of
              Some e \<Rightarrow> (rg1, Inl e)
            | None \<Rightarrow> (rg1\<lparr>rg_sent := rg_sent rg1 @ [(co_socket co, msg)]\<rparr>, Inr \<lparr>ti_conn = c, ti_job = job, ti_future = f\<rparr>))"

definition dispatch_end :: "ticket \<Rightarrow> registry \<Rightarrow> registry \<times> relay_outcome" where
  "dispatch_end t rg =
     (let out = (case rg_futures rg ! ti_future t of
                   Answered d \<Rightarrow> Relayed (Bytes d)
                 | Broken reason \<Rightarrow> Offline reason
                 | _ \<Rightarrow> Offline ''bridge did not respond in time'');
          rg1 = set_pending (ti_conn t) (AList.delete (ti_job t) (co_pending (rg_objects rg ! ti_conn t))) rg
      in (rg1\<lparr>rg_futures := settle Cancelled (ti_future t) (rg_futures rg1)\<rparr>, out))"

text \<open>Frames of a bridge, as the dictionaries they are decoded to.\<close>

type_synonym frame_in = "(string, string option) dict"

definition py_text :: "string option \<Rightarrow> string" where
  "py_text v = (case v of None \<Rightarrow> ''None'' | Some s \<Rightarrow> s)"

definition get_field :: "frame_in \<Rightarrow> string \<Rightarrow> string option \<Rightarrow> string option" where
  "get_field fr k d = (case dget fr k of None \<Rightarrow> d | Some v \<Rightarrow> v)"

definition settle_job :: "future \<Rightarrow> frame_in \<Rightarrow> nat \<Rightarrow> registry \<Rightarrow> registry" where
  "settle_job v fr c rg =
     (case dget (co_pending (rg_objects rg ! c)) (py_text (get_field fr ''job_id'' None)) of
        None \<Rightarrow> rg
      | Some f \<Rightarrow> rg\<lparr>rg_futures := settle v f (rg_futures rg)\<rparr>)"

definition on_frame :: "string \<Rightarrow> frame_in \<Rightarrow> registry \<Rightarrow> registry" where
  "on_frame org fr rg =
     (case dget (rg_by_org rg) org of
        None \<Rightarrow> rg
      | Some c \<Rightarrow>
          let kind = get_field fr ''type'' None; guid = get_field fr ''company_guid'' None in
          if kind = Some ''heartbeat''
          then (if truthy guid then rg\<lparr>rg_objects := (rg_objects rg)[c := (rg_objects rg ! c)\<lparr>co_guid := guid\<rparr>]\<rparr> else rg)
          else if kind = Some ''job_result''
          then settle_job (Answered (utf8 (py_text (get_field fr ''tally_xml'' (Some ''''))))) fr c rg
          else if kind = Some ''job_error''
          then settle_job (Broken (py_text (get_field fr ''reason'' (Some ''bridge error'')))) fr c rg
          else rg)"

section \<open>Requests across processes\<close>

text \<open>The keys of the broker, each until the time it expires.\<close>

type_synonym keys_store = "(string, int) dict"

definition key_exists :: "int \<Rightarrow> string \<Rightarrow> keys_store \<Rightarrow> bool" where
  "key_exists now k ks \<longleftrightarrow> (case dget ks k of None \<Rightarrow> False | Some e \<Rightarrow> now < e)"

definition presence_key :: "string \<Rightarrow> string" where
  "presence_key org = ''bridge:online:'' @ org"

definition claim_key :: "string \<Rightarrow> string" where
  "claim_key request_id = ''bridge:claim:'' @ request_id"

definition presence_ttl :: int where
  "presence_ttl = 90"

definition claim_ttl :: int where
  "claim_ttl = 300"

definition presence_connected :: "int \<Rightarrow> string \<Rightarrow> keys_store \<Rightarrow> keys_store" where
  "presence_connected now org = AList.update (presence_key org) (now + presence_ttl)"

definition presence_disconnected :: "string \<Rightarrow> keys_store \<Rightarrow> keys_store" where
  "presence_disconnected org = AList.delete (presence_key org)"

definition is_online_anywhere :: "int \<Rightarrow> string \<Rightarrow> registry \<Rightarrow> keys_store option \<Rightarrow> bool" where
  \<comment> \<open>no keys when the broker is not Redis\<close>
  "is_online_anywhere now org rg ks \<longleftrightarrow>
     is_online org rg \<or> (case ks of None \<Rightarrow> False | Some ks \<Rightarrow> key_exists now (presence_key org) ks)"

record relay_request =
  rr_id :: string
  rr_org :: string
  rr_job :: string
  rr_company :: string
  rr_xml :: string
  rr_timeout :: int

datatype route = To_Ticket ticket | To_Channel relay_request | Stopped exc

definition route_dispatch ::
    "(nat \<Rightarrow> exc option) \<Rightarrow> string \<Rightarrow> int \<Rightarrow> string \<Rightarrow> string \<Rightarrow> string \<Rightarrow> string option \<Rightarrow> keys_store option \<Rightarrow> registry \<Rightarrow> registry \<times> route" where
  \<comment> \<open>\<open>dispatch\<close> up to the wait: through the connection of this process, or as a request on the channel\<close>
  "route_dispatch refuses request_id now org job xml company ks rg =
     (if is_online org rg
      then (case dispatch_send refuses org job xml company rg of
              (rg1, Inl e) \<Rightarrow> (rg1, Stopped e) | (rg1, Inr t) \<Rightarrow> (rg1, To_Ticket t))
      else case ks of
          None \<Rightarrow> (rg, Stopped BridgeNotConnected)
        | Some ks \<Rightarrow>
            if \<not> key_exists now (presence_key org) ks then (rg, Stopped BridgeNotConnected)
            else (rg, To_Channel \<lparr>rr_id = request_id, rr_org = org, rr_job = job,
                                  rr_company = (case company of None \<Rightarrow> '''' | Some s \<Rightarrow> s), rr_xml = xml, rr_timeout = 120\<rparr>))"

datatype reply = Reply_Ok string | Reply_Error string

definition await_reply :: "int \<Rightarrow> int \<Rightarrow> (int \<times> reply) list \<Rightarrow> relay_outcome" where
  \<comment> \<open>the first message that arrives in time, or none\<close>
  "await_reply start timeout arrivals =
     (case filter (\<lambda>(t, m). t < start + timeout + 10) arrivals of
        [] \<Rightarrow> Offline ''bridge did not respond in time''
      | (t, Reply_Ok d) # _ \<Rightarrow> Relayed (Bytes d)
      | (t, Reply_Error e) # _ \<Rightarrow> Offline (if e = '''' then ''bridge error'' else e))"

definition set_claim :: "string \<Rightarrow> int \<Rightarrow> keys_store \<Rightarrow> keys_store option" where
  \<comment> \<open>\<open>SET NX EX\<close>\<close>
  "set_claim i now ks = (if key_exists now (claim_key i) ks then None else Some (AList.update (claim_key i) (now + claim_ttl) ks))"

definition handle_request ::
    "(nat \<Rightarrow> exc option) \<Rightarrow> int \<Rightarrow> relay_request \<Rightarrow> keys_store \<Rightarrow> registry \<Rightarrow> (keys_store \<times> registry) \<times> ticket res option" where
  \<comment> \<open>the side that holds the connection: only who sets the claim relays\<close>
  "handle_request refuses now q ks rg =
     (if \<not> is_online (rr_org q) rg then ((ks, rg), None)
      else case set_claim (rr_id q) now ks of
          None \<Rightarrow> ((ks, rg), None)
        | Some ks1 \<Rightarrow>
            let company = (if rr_company q = '''' then None else Some (rr_company q));
                (rg1, t) = dispatch_send refuses (rr_org q) (rr_job q) (rr_xml q) company rg
            in ((ks1, rg1), Some t))"

definition reply_of :: "relay_outcome \<Rightarrow> reply" where
  "reply_of out =
     (case out of
        Relayed (Bytes d) \<Rightarrow> Reply_Ok d
      | Relayed (Str d) \<Rightarrow> Reply_Ok d
      | Offline reason \<Rightarrow> Reply_Error reason
      | Not_Connected \<Rightarrow> Reply_Error ''no bridge connected for this organization'')"

section \<open>Waiting requests stay attached to the connection\<close>

text \<open>
  A registry with the requests that wait on it, and, for the proofs only, the organization each connection
  was made for and the connection each future was made for.
\<close>

record wiring =
  wi_reg :: registry
  wi_open :: "(string \<times> ticket) list"
  wi_org :: "string list"
  wi_owner :: "nat list"

datatype wire_event =
    Connects string string nat
  | Disconnects string nat
  | Dispatches string string string "string option"
  | Ends string ticket
  | Frame_In string frame_in

inductive wire_step :: "(nat \<Rightarrow> exc option) \<Rightarrow> wiring \<Rightarrow> wire_event \<Rightarrow> wiring \<Rightarrow> bool" for refuses :: "nat \<Rightarrow> exc option" where
  connects: "wire_step refuses w (Connects org bridge socket)
      (w\<lparr>wi_reg := connect org bridge socket (wi_reg w), wi_org := wi_org w @ [org]\<rparr>)"
| disconnects: "wire_step refuses w (Disconnects org socket) (w\<lparr>wi_reg := disconnect org socket (wi_reg w)\<rparr>)"
| dispatches: "dispatch_send refuses org job xml company (wi_reg w) = (rg, Inr t) \<Longrightarrow>
    \<forall>(org', t') \<in> set (wi_open w). org' = org \<longrightarrow> ti_job t' \<noteq> job \<Longrightarrow>
    wire_step refuses w (Dispatches org job xml company)
      (w\<lparr>wi_reg := rg, wi_open := (org, t) # wi_open w, wi_owner := wi_owner w @ [ti_conn t]\<rparr>)"
| ends: "(org, t) \<in> set (wi_open w) \<Longrightarrow>
    wire_step refuses w (Ends org t) (w\<lparr>wi_reg := fst (dispatch_end t (wi_reg w)), wi_open := removeAll (org, t) (wi_open w)\<rparr>)"
| frame_in: "wire_step refuses w (Frame_In org fr) (w\<lparr>wi_reg := on_frame org fr (wi_reg w)\<rparr>)"

inductive wired :: "(nat \<Rightarrow> exc option) \<Rightarrow> wiring \<Rightarrow> bool" for refuses :: "nat \<Rightarrow> exc option" where
  start: "wired refuses \<lparr>wi_reg = new_registry, wi_open = [], wi_org = [], wi_owner = []\<rparr>"
| step: "wired refuses w \<Longrightarrow> wire_step refuses w e w' \<Longrightarrow> wired refuses w'"

text \<open>The invariant, one part at a time.\<close>

definition sizes_ok :: "wiring \<Rightarrow> bool" where
  "sizes_ok w \<longleftrightarrow> length (wi_org w) = length (rg_objects (wi_reg w)) \<and> length (wi_owner w) = length (rg_futures (wi_reg w))"

definition orgs_wired :: "wiring \<Rightarrow> bool" where
  "orgs_wired w \<longleftrightarrow> (\<forall>org c. dget (rg_by_org (wi_reg w)) org = Some c \<longrightarrow> c < length (wi_org w) \<and> wi_org w ! c = org)"

definition pending_of :: "registry \<Rightarrow> nat \<Rightarrow> (string, nat) dict" where
  "pending_of rg c = co_pending (rg_objects rg ! c)"

definition owners_ok :: "wiring \<Rightarrow> bool" where
  "owners_ok w \<longleftrightarrow> (\<forall>c job f. c < length (wi_org w) \<longrightarrow> dget (pending_of (wi_reg w) c) job = Some f \<longrightarrow>
     f < length (wi_owner w) \<and> wi_owner w ! f = c)"

definition ticket_ok :: "wiring \<Rightarrow> string \<Rightarrow> ticket \<Rightarrow> bool" where
  "ticket_ok w org t \<longleftrightarrow> ti_conn t < length (wi_org w) \<and> wi_org w ! ti_conn t = org \<and> ti_future t < length (wi_owner w) \<and>
     wi_owner w ! ti_future t = ti_conn t"

definition attached :: "registry \<Rightarrow> string \<Rightarrow> ticket \<Rightarrow> bool" where
  "attached rg org t \<longleftrightarrow> dget (rg_by_org rg) org = Some (ti_conn t) \<and> dget (pending_of rg (ti_conn t)) (ti_job t) = Some (ti_future t)"

definition tickets_ok :: "wiring \<Rightarrow> bool" where
  "tickets_ok w \<longleftrightarrow> (\<forall>(org, t) \<in> set (wi_open w). ticket_ok w org t \<and>
     (rg_futures (wi_reg w) ! ti_future t = Waiting \<longrightarrow> attached (wi_reg w) org t))"

definition jobs_once :: "wiring \<Rightarrow> bool" where
  "jobs_once w \<longleftrightarrow> (\<forall>org t t'. (org, t) \<in> set (wi_open w) \<longrightarrow> (org, t') \<in> set (wi_open w) \<longrightarrow> ti_job t = ti_job t' \<longrightarrow> t = t')"

definition wiring_ok :: "wiring \<Rightarrow> bool" where
  "wiring_ok w \<longleftrightarrow> sizes_ok w \<and> orgs_wired w \<and> owners_ok w \<and> tickets_ok w \<and> jobs_once w"

lemma length_settle [simp]: "length (settle v i fs) = length fs"
  by (simp add: settle_def)

lemma settle_waiting: "v \<noteq> Waiting \<Longrightarrow> settle v i fs ! j = Waiting \<Longrightarrow> fs ! j = Waiting \<and> (j = i \<longrightarrow> length fs \<le> j)"
  by (cases "j = i") (auto simp: settle_def split: if_splits)

lemma settle_other: "j \<noteq> i \<Longrightarrow> settle v i fs ! j = fs ! j"
  by (simp add: settle_def)

lemma length_fold_settle [simp]: "length (fold (settle v) is fs) = length fs"
  by (induction "is" arbitrary: fs) simp_all

lemma fold_settle_waiting:
  "v \<noteq> Waiting \<Longrightarrow> fold (settle v) is fs ! j = Waiting \<Longrightarrow> j < length fs \<Longrightarrow> fs ! j = Waiting \<and> j \<notin> set is"
proof (induction "is" arbitrary: fs)
  case (Cons i "is")
  then show ?case using settle_waiting [of v i fs j] by auto
qed simp

lemma set_pending_simps [simp]:
  "length (rg_objects (set_pending c p rg)) = length (rg_objects rg)"
  "rg_by_org (set_pending c p rg) = rg_by_org rg"
  "rg_futures (set_pending c p rg) = rg_futures rg"
  "rg_sent (set_pending c p rg) = rg_sent rg"
  by (simp_all add: set_pending_def)

lemma pending_set_pending: "c < length (rg_objects rg) \<Longrightarrow> pending_of (set_pending c p rg) d = (if d = c then p else pending_of rg d)"
  by (simp add: pending_of_def set_pending_def nth_list_update)

lemma pending_futures [simp]: "pending_of (rg\<lparr>rg_futures := fs\<rparr>) c = pending_of rg c"
  "pending_of (rg\<lparr>rg_sent := ms\<rparr>) c = pending_of rg c" "pending_of (rg\<lparr>rg_by_org := bo\<rparr>) c = pending_of rg c"
  by (simp_all add: pending_of_def)

lemma set_pending_futures: "set_pending c p (rg\<lparr>rg_futures := fs\<rparr>) = (set_pending c p rg)\<lparr>rg_futures := fs\<rparr>"
  by (simp add: set_pending_def)

lemma fail_pending_simps [simp]:
  "length (rg_objects (fail_pending c reason rg)) = length (rg_objects rg)"
  "rg_by_org (fail_pending c reason rg) = rg_by_org rg"
  "length (rg_futures (fail_pending c reason rg)) = length (rg_futures rg)"
  by (simp_all add: fail_pending_def)

lemma pending_fail: "c < length (rg_objects rg) \<Longrightarrow> pending_of (fail_pending c reason rg) d = (if d = c then [] else pending_of rg d)"
  by (simp add: fail_pending_def set_pending_futures pending_set_pending)

lemma waiting_fail:
  assumes "rg_futures (fail_pending c reason rg) ! f = Waiting" "f < length (rg_futures rg)"
  shows "rg_futures rg ! f = Waiting" "dget (pending_of rg c) job \<noteq> Some f"
proof -
  have w: "rg_futures rg ! f = Waiting \<and> f \<notin> set (map snd (pending_of rg c))"
    using fold_settle_waiting [of "Broken reason" "map snd (pending_of rg c)" "rg_futures rg" f] assms
    by (simp add: fail_pending_def pending_of_def)
  then show "rg_futures rg ! f = Waiting" "dget (pending_of rg c) job \<noteq> Some f" by (force dest: map_of_SomeD)+
qed

lemma attached_fail:
  assumes "c < length (rg_objects rg)" "ti_future t < length (rg_futures rg)"
    "rg_futures rg ! ti_future t = Waiting \<longrightarrow> attached rg org t" "rg_futures (fail_pending c reason rg) ! ti_future t = Waiting"
  shows "ti_conn t \<noteq> c \<and> attached (fail_pending c reason rg) org t"
  using assms(3) waiting_fail [OF assms(4,2)] by (auto simp: attached_def pending_fail [OF assms(1)])

lemma pending_appended [simp]:
  "c < length (rg_objects rg) \<Longrightarrow> pending_of (rg\<lparr>rg_objects := rg_objects rg @ [co]\<rparr>) c = pending_of rg c"
  "pending_of (rg\<lparr>rg_objects := rg_objects rg @ [co]\<rparr>) (length (rg_objects rg)) = co_pending co"
  by (simp_all add: pending_of_def nth_append)

lemma wiring_okI:
  assumes "sizes_ok w" "orgs_wired w" "owners_ok w" "jobs_once w"
    and "\<And>org t. (org, t) \<in> set (wi_open w) \<Longrightarrow> ticket_ok w org t"
    and "\<And>org t. (org, t) \<in> set (wi_open w) \<Longrightarrow> rg_futures (wi_reg w) ! ti_future t = Waiting \<Longrightarrow> attached (wi_reg w) org t"
  shows "wiring_ok w"
  using assms by (auto simp: wiring_ok_def tickets_ok_def)

lemma wiring_okD:
  assumes "wiring_ok w"
  shows "sizes_ok w" "orgs_wired w" "owners_ok w" "jobs_once w"
    "(org, t) \<in> set (wi_open w) \<Longrightarrow> ticket_ok w org t"
    "(org, t) \<in> set (wi_open w) \<Longrightarrow> rg_futures (wi_reg w) ! ti_future t = Waiting \<longrightarrow> attached (wi_reg w) org t"
  using assms by (auto simp: wiring_ok_def tickets_ok_def)

lemma org_object: "sizes_ok w \<Longrightarrow> orgs_wired w \<Longrightarrow> dget (rg_by_org (wi_reg w)) org = Some c \<Longrightarrow> c < length (rg_objects (wi_reg w))"
  by (auto simp: sizes_ok_def orgs_wired_def)

lemma ticket_sizes: "sizes_ok w \<Longrightarrow> ticket_ok w org t \<Longrightarrow> ti_conn t < length (rg_objects (wi_reg w)) \<and> ti_future t < length (rg_futures (wi_reg w))"
  by (auto simp: sizes_ok_def ticket_ok_def)

lemma connect_effect:
  assumes "sizes_ok w" "orgs_wired w" "owners_ok w"
  defines "rg \<equiv> wi_reg w"
  shows "\<exists>rg1. connect org b s rg = rg1\<lparr>rg_objects := rg_objects rg1 @ [\<lparr>co_socket = s, co_bridge = b, co_guid = None, co_pending = []\<rparr>],
        rg_by_org := AList.update org (length (rg_objects rg)) (rg_by_org rg)\<rparr> \<and>
      length (rg_objects rg1) = length (rg_objects rg) \<and> rg_by_org rg1 = rg_by_org rg \<and> length (rg_futures rg1) = length (rg_futures rg) \<and>
      (\<forall>c. pending_of rg1 c = pending_of rg c \<or> pending_of rg1 c = []) \<and>
      (\<forall>t org'. ti_future t < length (rg_futures rg) \<longrightarrow> (rg_futures rg ! ti_future t = Waiting \<longrightarrow> attached rg org' t) \<longrightarrow>
        rg_futures rg1 ! ti_future t = Waiting \<longrightarrow> org' \<noteq> org \<and> attached rg1 org' t)"
proof (cases "dget (rg_by_org rg) org")
  case None
  then show ?thesis by (intro exI [of _ rg]) (auto simp: connect_def attached_def)
next
  case (Some c)
  then have c: "c < length (rg_objects rg)" using org_object assms by blast
  let ?rg1 = "fail_pending c ''replaced by a new connection'' rg"
  have "org' \<noteq> org \<and> attached ?rg1 org' t"
    if "ti_future t < length (rg_futures rg)" "rg_futures rg ! ti_future t = Waiting \<longrightarrow> attached rg org' t" "rg_futures ?rg1 ! ti_future t = Waiting" for t org'
    using attached_fail [OF c that] Some by (auto simp: attached_def)
  then show ?thesis using Some c by (intro exI [of _ ?rg1]) (simp add: connect_def pending_fail Let_def)
qed

lemma wired_connect:
  assumes "wiring_ok w"
  shows "wiring_ok (w\<lparr>wi_reg := connect org b s (wi_reg w), wi_org := wi_org w @ [org]\<rparr>)" (is "wiring_ok ?w")
proof -
  note W = wiring_okD [OF assms]
  let ?rg = "wi_reg w"
  obtain rg1 where rg1: "wi_reg ?w = rg1\<lparr>rg_objects := rg_objects rg1 @ [\<lparr>co_socket = s, co_bridge = b, co_guid = None, co_pending = []\<rparr>],
        rg_by_org := AList.update org (length (rg_objects ?rg)) (rg_by_org ?rg)\<rparr>"
      "length (rg_objects rg1) = length (rg_objects ?rg)" "rg_by_org rg1 = rg_by_org ?rg" "length (rg_futures rg1) = length (rg_futures ?rg)"
      "\<forall>c. pending_of rg1 c = pending_of ?rg c \<or> pending_of rg1 c = []"
      "\<forall>t org'. ti_future t < length (rg_futures ?rg) \<longrightarrow> (rg_futures ?rg ! ti_future t = Waiting \<longrightarrow> attached ?rg org' t) \<longrightarrow>
        rg_futures rg1 ! ti_future t = Waiting \<longrightarrow> org' \<noteq> org \<and> attached rg1 org' t"
    using connect_effect [OF W(1-3), of org b s] by auto
  have len: "length (wi_org w) = length (rg_objects rg1)" using W(1) rg1(2) by (simp add: sizes_ok_def)
  show ?thesis
  proof (rule wiring_okI)
    show "sizes_ok ?w" using W(1) rg1 by (simp add: sizes_ok_def)
    show "orgs_wired ?w" using W(2) rg1(2) len unfolding orgs_wired_def rg1(1)
      by (fastforce simp: update_conv' nth_append split: if_splits)
    have "dget (pending_of rg1 c) job = Some f \<Longrightarrow> dget (pending_of ?rg c) job = Some f" for c job f using rg1(5) by (metis map_of.simps(1) option.distinct(1))
    then show "owners_ok ?w" using W(3) len unfolding owners_ok_def rg1(1)
      by (auto simp: less_Suc_eq nth_append) blast+
    show "jobs_once ?w" using W(4) by (simp add: jobs_once_def)
    show "ticket_ok ?w org' t" if "(org', t) \<in> set (wi_open ?w)" for org' t
      using W(5) [of org' t] that by (simp add: ticket_ok_def nth_append)
    show "attached (wi_reg ?w) org' t" if t: "(org', t) \<in> set (wi_open ?w)" "rg_futures (wi_reg ?w) ! ti_future t = Waiting" for org' t
    proof -
      have o': "(org', t) \<in> set (wi_open w)" using t(1) by simp
      have s: "ti_conn t < length (rg_objects ?rg) \<and> ti_future t < length (rg_futures ?rg)" using ticket_sizes W(1) W(5) [OF o'] by blast
      have "rg_futures rg1 ! ti_future t = Waiting" using t(2) by (simp add: rg1(1))
      then have "org' \<noteq> org \<and> attached rg1 org' t" using rg1(6) s W(6) [OF o'] by blast
      then show ?thesis using s rg1(2,3) by (simp add: rg1(1) attached_def update_conv')
    qed
  qed
qed

lemma wired_disconnect:
  assumes "wiring_ok w"
  shows "wiring_ok (w\<lparr>wi_reg := disconnect org s (wi_reg w)\<rparr>)"
proof (cases "\<exists>c. dget (rg_by_org (wi_reg w)) org = Some c \<and> co_socket (rg_objects (wi_reg w) ! c) = s")
  case False
  then have "disconnect org s (wi_reg w) = wi_reg w" by (auto simp: disconnect_def split: option.split)
  then show ?thesis using assms by simp
next
  case True
  note W = wiring_okD [OF assms]
  then obtain c where c: "dget (rg_by_org (wi_reg w)) org = Some c" "co_socket (rg_objects (wi_reg w) ! c) = s" using True by blast
  let ?rg = "wi_reg w" and ?rg1 = "fail_pending c ''bridge disconnected'' (wi_reg w)"
  let ?w = "w\<lparr>wi_reg := ?rg1\<lparr>rg_by_org := AList.delete org (rg_by_org ?rg)\<rparr>\<rparr>"
  have cl: "c < length (rg_objects ?rg)" using org_object W(1,2) c(1) by blast
  have "wiring_ok ?w"
  proof (rule wiring_okI)
    show "sizes_ok ?w" using W(1) by (simp add: sizes_ok_def)
    show "orgs_wired ?w" using W(2) by (simp add: orgs_wired_def delete_conv')
    show "owners_ok ?w" using W(3) by (simp add: owners_ok_def pending_fail [OF cl])
    show "jobs_once ?w" using W(4) by (simp add: jobs_once_def)
    show "ticket_ok ?w org' t" if "(org', t) \<in> set (wi_open ?w)" for org' t
      using W(5) [of org' t] that by (simp add: ticket_ok_def)
    show "attached (wi_reg ?w) org' t" if t: "(org', t) \<in> set (wi_open ?w)" "rg_futures (wi_reg ?w) ! ti_future t = Waiting" for org' t
    proof -
      have o': "(org', t) \<in> set (wi_open w)" using t(1) by simp
      have s: "ti_future t < length (rg_futures ?rg)" using ticket_sizes W(1) W(5) [OF o'] by blast
      have "ti_conn t \<noteq> c \<and> attached ?rg1 org' t" using attached_fail [OF cl s W(6) [OF o']] t(2) by simp
      then show ?thesis using c(1) by (auto simp: attached_def delete_conv')
    qed
  qed
  then show ?thesis using c by (simp add: disconnect_def)
qed

lemma wired_dispatch:
  assumes "wiring_ok w" "dispatch_send refuses org job xml company (wi_reg w) = (rg, Inr t)"
    and free: "\<forall>(org', t') \<in> set (wi_open w). org' = org \<longrightarrow> ti_job t' \<noteq> job"
  shows "wiring_ok (w\<lparr>wi_reg := rg, wi_open := (org, t) # wi_open w, wi_owner := wi_owner w @ [ti_conn t]\<rparr>)" (is "wiring_ok ?w")
proof -
  note W = wiring_okD [OF assms(1)]
  let ?rg = "wi_reg w" and ?f = "length (rg_futures (wi_reg w))"
  obtain c where c: "dget (rg_by_org ?rg) org = Some c" using assms(2) by (auto simp: dispatch_send_def split: option.splits)
  have cl: "c < length (rg_objects ?rg)" using org_object W(1,2) c by blast
  have t: "t = \<lparr>ti_conn = c, ti_job = job, ti_future = ?f\<rparr>" and rg: "length (rg_objects rg) = length (rg_objects ?rg)"
      "rg_by_org rg = rg_by_org ?rg" "rg_futures rg = rg_futures ?rg @ [Waiting]"
      "\<And>d. pending_of rg d = (if d = c then AList.update job ?f (pending_of ?rg c) else pending_of ?rg d)"
    using assms(2) c by (auto simp: dispatch_send_def Let_def pending_set_pending [OF cl] set_pending_futures pending_of_def [symmetric] split: option.splits)
  have len: "length (wi_owner w) = ?f" "length (wi_org w) = length (rg_objects ?rg)" using W(1) by (simp_all add: sizes_ok_def)
  show ?thesis
  proof (rule wiring_okI)
    show "sizes_ok ?w" using W(1) rg by (simp add: sizes_ok_def)
    show "orgs_wired ?w" using W(2) rg by (simp add: orgs_wired_def)
    show "owners_ok ?w" using W(3) len unfolding owners_ok_def
      by (auto simp: rg(4) t nth_append update_conv' less_Suc_eq split: if_splits)
    show "jobs_once ?w" using W(4) free by (auto simp: jobs_once_def t)
    show "ticket_ok ?w org' t'" if t': "(org', t') \<in> set (wi_open ?w)" for org' t'
    proof (cases "(org', t') = (org, t)")
      case True
      then show ?thesis using c W(2) len by (auto simp: ticket_ok_def t nth_append orgs_wired_def)
    next
      case False
      then show ?thesis using W(5) [of org' t'] t' by (auto simp: ticket_ok_def nth_append)
    qed
    show "attached (wi_reg ?w) org' t'" if t': "(org', t') \<in> set (wi_open ?w)" "rg_futures (wi_reg ?w) ! ti_future t' = Waiting" for org' t'
    proof (cases "(org', t') = (org, t)")
      case True
      then show ?thesis using c by (simp add: attached_def t rg update_conv')
    next
      case False
      then have o': "(org', t') \<in> set (wi_open w)" using t'(1) by auto
      have s: "ti_future t' < ?f" using ticket_sizes W(1) W(5) [OF o'] by blast
      then have "attached ?rg org' t'" using W(6) [OF o'] t'(2) rg(3) by (simp add: nth_append)
      moreover have "\<not> (ti_conn t' = c \<and> ti_job t' = job)"
        using c W(2) W(5) [OF o'] free o' by (auto simp: orgs_wired_def ticket_ok_def)
      ultimately show ?thesis by (auto simp: attached_def rg update_conv')
    qed
  qed
qed

lemma dispatch_end_simps [simp]:
  "length (rg_objects (fst (dispatch_end t rg))) = length (rg_objects rg)"
  "rg_by_org (fst (dispatch_end t rg)) = rg_by_org rg"
  "rg_futures (fst (dispatch_end t rg)) = settle Cancelled (ti_future t) (rg_futures rg)"
  by (simp_all add: dispatch_end_def)

lemma pending_end: "ti_conn t < length (rg_objects rg) \<Longrightarrow>
    pending_of (fst (dispatch_end t rg)) d = (if d = ti_conn t then AList.delete (ti_job t) (pending_of rg d) else pending_of rg d)"
  by (simp add: dispatch_end_def pending_set_pending) (simp add: pending_of_def)

lemma wired_end:
  assumes "wiring_ok w" "(org, t) \<in> set (wi_open w)"
  shows "wiring_ok (w\<lparr>wi_reg := fst (dispatch_end t (wi_reg w)), wi_open := removeAll (org, t) (wi_open w)\<rparr>)" (is "wiring_ok ?w")
proof -
  note W = wiring_okD [OF assms(1)]
  have cl: "ti_conn t < length (rg_objects (wi_reg w))" using ticket_sizes W(1) W(5) [OF assms(2)] by blast
  show ?thesis
  proof (rule wiring_okI)
    show "sizes_ok ?w" using W(1) by (simp add: sizes_ok_def)
    show "orgs_wired ?w" using W(2) by (simp add: orgs_wired_def)
    show "owners_ok ?w" using W(3) by (auto simp: owners_ok_def pending_end [OF cl] delete_conv' split: if_splits)
    show "jobs_once ?w" using W(4) by (auto simp: jobs_once_def)
    show "ticket_ok ?w org' t'" if "(org', t') \<in> set (wi_open ?w)" for org' t'
      using W(5) [of org' t'] that by (simp add: ticket_ok_def)
    show "attached (wi_reg ?w) org' t'" if t': "(org', t') \<in> set (wi_open ?w)" "rg_futures (wi_reg ?w) ! ti_future t' = Waiting" for org' t'
    proof -
      have o': "(org', t') \<in> set (wi_open w)" "(org', t') \<noteq> (org, t)" using t'(1) by auto
      have "attached (wi_reg w) org' t'" using W(6) [OF o'(1)] settle_waiting [of Cancelled] t'(2) by auto
      moreover have "\<not> (ti_conn t' = ti_conn t \<and> ti_job t' = ti_job t)"
        using W(4) W(5) [OF o'(1)] W(5) [OF assms(2)] o' assms(2) by (auto simp: jobs_once_def ticket_ok_def)
      ultimately show ?thesis by (auto simp: attached_def pending_end [OF cl] delete_conv')
    qed
  qed
qed

lemma on_frame_effect:
  "length (rg_objects (on_frame org fr rg)) = length (rg_objects rg) \<and> rg_by_org (on_frame org fr rg) = rg_by_org rg \<and>
    pending_of (on_frame org fr rg) d = pending_of rg d \<and>
    (rg_futures (on_frame org fr rg) = rg_futures rg \<or>
     (\<exists>v c f job. v \<noteq> Waiting \<and> dget (rg_by_org rg) org = Some c \<and> dget (pending_of rg c) job = Some f \<and>
       rg_futures (on_frame org fr rg) = settle v f (rg_futures rg)))"
proof (cases "dget (rg_by_org rg) org")
  case (Some c)
  have "pending_of (rg\<lparr>rg_objects := (rg_objects rg)[c := (rg_objects rg ! c)\<lparr>co_guid := g\<rparr>]\<rparr>) d = pending_of rg d" for g
    by (cases "c < length (rg_objects rg)") (simp_all add: pending_of_def nth_list_update list_update_beyond)
  moreover have "\<exists>v'. v' \<noteq> Waiting \<and> v' = v" if "v \<noteq> Waiting" for v using that by simp
  moreover have "rg_futures (settle_job v fr c rg) = rg_futures rg \<or> (\<exists>f job. dget (pending_of rg c) job = Some f \<and>
      rg_futures (settle_job v fr c rg) = settle v f (rg_futures rg))" "rg_objects (settle_job v fr c rg) = rg_objects rg"
      "rg_by_org (settle_job v fr c rg) = rg_by_org rg" "pending_of (settle_job v fr c rg) d = pending_of rg d" for v
    by (auto simp: settle_job_def pending_of_def split: option.split)
  ultimately show ?thesis using Some unfolding on_frame_def Let_def by (simp split: if_split) (metis future.distinct(1) future.distinct(3))
qed (simp add: on_frame_def)

lemma wired_frame:
  assumes "wiring_ok w"
  shows "wiring_ok (w\<lparr>wi_reg := on_frame org fr (wi_reg w)\<rparr>)" (is "wiring_ok ?w")
proof -
  note W = wiring_okD [OF assms]
  note E = on_frame_effect [of org fr "wi_reg w"]
  have len: "length (rg_futures (on_frame org fr (wi_reg w))) = length (rg_futures (wi_reg w))" using on_frame_effect [of org fr "wi_reg w" 0] by auto
  show ?thesis
  proof (rule wiring_okI)
    show "sizes_ok ?w" using W(1) E len by (simp add: sizes_ok_def)
    show "orgs_wired ?w" using W(2) E by (simp add: orgs_wired_def)
    show "owners_ok ?w" using W(3) E by (simp add: owners_ok_def)
    show "jobs_once ?w" using W(4) by (simp add: jobs_once_def)
    show "ticket_ok ?w org' t" if "(org', t) \<in> set (wi_open ?w)" for org' t
      using W(5) [of org' t] that by (simp add: ticket_ok_def)
    show "attached (wi_reg ?w) org' t" if t: "(org', t) \<in> set (wi_open ?w)" "rg_futures (wi_reg ?w) ! ti_future t = Waiting" for org' t
    proof -
      have "rg_futures (wi_reg w) ! ti_future t = Waiting" using t(2) E settle_waiting by (metis wiring.select_convs(1) wiring.surjective wiring.update_convs(1))
      then show ?thesis using W(6) [of org' t] t(1) E by (simp add: attached_def)
    qed
  qed
qed

lemma wired_ok: "wired refuses w \<Longrightarrow> wiring_ok w"
proof (induction rule: wired.induct)
  case start
  show ?case by (simp add: wiring_ok_def sizes_ok_def orgs_wired_def owners_ok_def tickets_ok_def jobs_once_def new_registry_def)
next
  case (step w e w')
  from step.hyps(2) step.IH show ?case
    by (cases rule: wire_step.cases) (auto intro: wired_connect wired_disconnect wired_dispatch wired_end wired_frame)
qed

lemma settled_by_frame:
  assumes "attached rg org t" "rg_futures rg ! ti_future t = Waiting" "ti_future t < length (rg_futures rg)"
    and "get_field fr ''type'' None = Some ''job_result''" "get_field fr ''job_id'' None = Some (ti_job t)"
  shows "rg_futures (on_frame org fr rg) ! ti_future t = Answered (utf8 (py_text (get_field fr ''tally_xml'' (Some ''''))))"
  using assms by (simp add: on_frame_def settle_job_def settle_def attached_def pending_of_def py_text_def)

lemma untouched_by_frame:
  assumes "wiring_ok w" "(org, t) \<in> set (wi_open w)" "org' \<noteq> org"
  shows "rg_futures (on_frame org' fr (wi_reg w)) ! ti_future t = rg_futures (wi_reg w) ! ti_future t"
proof -
  note W = wiring_okD [OF assms(1)]
  have "f \<noteq> ti_future t" if "dget (rg_by_org (wi_reg w)) org' = Some c" "dget (pending_of (wi_reg w) c) job = Some f" for c job f
    using that W(2,3) W(5) [OF assms(2)] assms(3) unfolding orgs_wired_def owners_ok_def ticket_ok_def by metis
  then show ?thesis using on_frame_effect [of org' fr "wi_reg w" 0] settle_other by metis
qed

lemma failed_by_connect:
  assumes "wiring_ok w" "(org, t) \<in> set (wi_open w)"
  shows "rg_futures (connect org b s (wi_reg w)) ! ti_future t \<noteq> Waiting"
proof -
  note W = wiring_okD [OF assms(1)]
  have "ti_future t < length (rg_futures (wi_reg w))" using ticket_sizes W(1) W(5) [OF assms(2)] by blast
  moreover obtain rg1 where "rg_futures (connect org b s (wi_reg w)) = rg_futures rg1"
      "\<forall>t org'. ti_future t < length (rg_futures (wi_reg w)) \<longrightarrow> (rg_futures (wi_reg w) ! ti_future t = Waiting \<longrightarrow> attached (wi_reg w) org' t) \<longrightarrow>
        rg_futures rg1 ! ti_future t = Waiting \<longrightarrow> org' \<noteq> org \<and> attached rg1 org' t"
    using connect_effect [OF W(1-3), of org b s] by auto
  ultimately show ?thesis using W(6) [OF assms(2)] by auto
qed

lemma failed_by_disconnect:
  assumes "wiring_ok w" "(org, t) \<in> set (wi_open w)" "\<not> is_online org (disconnect org s (wi_reg w))"
  shows "rg_futures (disconnect org s (wi_reg w)) ! ti_future t \<noteq> Waiting"
proof -
  note W = wiring_okD(6) [OF wired_disconnect [OF assms(1)], of org t org s]
  show ?thesis using W assms(2,3) by (auto simp: attached_def is_online_def)
qed

text \<open>
  C15: Over any sequence of connections, disconnections, frames and requests (one at a time for a job), a
  request that waits is settled by the answer its bridge sends for its job, whatever has happened to other
  connections; no frame of another organization touches it; and when its connection is replaced or closed
  it fails at once instead of waiting for the time limit.
\<close>

theorem answers_reach_their_request:
  assumes "wired refuses w" "(org, t) \<in> set (wi_open w)" "rg_futures (wi_reg w) ! ti_future t = Waiting"
  shows "(\<forall>fr. get_field fr ''type'' None = Some ''job_result'' \<and> get_field fr ''job_id'' None = Some (ti_job t) \<longrightarrow>
        snd (dispatch_end t (on_frame org fr (wi_reg w))) = Relayed (Bytes (utf8 (py_text (get_field fr ''tally_xml'' (Some '''')))))) \<and>
    (\<forall>org' fr. org' \<noteq> org \<longrightarrow> rg_futures (on_frame org' fr (wi_reg w)) ! ti_future t = Waiting) \<and>
    (\<forall>b s. rg_futures (connect org b s (wi_reg w)) ! ti_future t \<noteq> Waiting) \<and>
    (\<forall>s. \<not> is_online org (disconnect org s (wi_reg w)) \<longrightarrow> rg_futures (disconnect org s (wi_reg w)) ! ti_future t \<noteq> Waiting)"
proof -
  have ok: "wiring_ok w" using assms(1) by (rule wired_ok)
  note W = wiring_okD [OF ok]
  have "attached (wi_reg w) org t" "ti_future t < length (rg_futures (wi_reg w))"
    using W(6) [OF assms(2)] assms(3) ticket_sizes W(1) W(5) [OF assms(2)] by blast+
  then have "snd (dispatch_end t (on_frame org fr (wi_reg w))) = Relayed (Bytes (utf8 (py_text (get_field fr ''tally_xml'' (Some '''')))))"
    if "get_field fr ''type'' None = Some ''job_result''" "get_field fr ''job_id'' None = Some (ti_job t)" for fr
    using settled_by_frame [of "wi_reg w" org t fr] assms(3) that by (simp add: dispatch_end_def)
  then show ?thesis
    using untouched_by_frame [OF ok assms(2)] failed_by_connect [OF ok assms(2)] failed_by_disconnect [OF ok assms(2)] assms(3) by auto
qed

definition two_bridges :: registry where
  "two_bridges = connect ''o2'' ''b2'' 8 (connect ''o1'' ''b1'' 7 new_registry)"

theorem answers_reach_their_request_witness:
  "snd (dispatch_end \<lparr>ti_conn = 0, ti_job = ''j'', ti_future = 0\<rparr>
      (on_frame ''o1'' [(''type'', Some ''job_result''), (''job_id'', Some ''j''), (''tally_xml'', Some ''<R/>'')]
        (fst (dispatch_send (\<lambda>s. None) ''o1'' ''j'' ''<E/>'' None two_bridges)))) = Relayed (Bytes ''<R/>'') \<and>
   map fst (rg_sent (fst (dispatch_send (\<lambda>s. None) ''o1'' ''j'' ''<E/>'' None two_bridges))) = [7]"
proof -
  let ?r = "\<lambda>s. None" and ?t = "\<lparr>ti_conn = 0, ti_job = ''j'', ti_future = 0\<rparr>"
  let ?w0 = "\<lparr>wi_reg = new_registry, wi_open = [], wi_org = [], wi_owner = []\<rparr>"
  let ?w1 = "?w0\<lparr>wi_reg := connect ''o1'' ''b1'' 7 (wi_reg ?w0), wi_org := wi_org ?w0 @ [''o1'']\<rparr>"
  let ?w2 = "?w1\<lparr>wi_reg := connect ''o2'' ''b2'' 8 (wi_reg ?w1), wi_org := wi_org ?w1 @ [''o2'']\<rparr>"
  let ?s = "dispatch_send ?r ''o1'' ''j'' ''<E/>'' None (wi_reg ?w2)"
  let ?w3 = "?w2\<lparr>wi_reg := fst ?s, wi_open := (''o1'', ?t) # wi_open ?w2, wi_owner := wi_owner ?w2 @ [ti_conn ?t]\<rparr>"
  have s: "snd ?s = Inr ?t" "rg_futures (fst ?s) = [Waiting]" "map fst (rg_sent (fst ?s)) = [7]" by code_simp+
  have "wired ?r ?w2" by (rule wired.step [OF wired.step [OF wired.start connects] connects])
  then have w: "wired ?r ?w3" by (rule wired.step [OF _ dispatches]) (use s(1) in \<open>simp_all add: prod_eq_iff\<close>)
  let ?fr = "[(''type'', Some ''job_result''), (''job_id'', Some ''j''), (''tally_xml'', Some ''<R/>'')]"
  have f: "get_field ?fr ''type'' None = Some ''job_result''" "get_field ?fr ''job_id'' None = Some (ti_job ?t)"
    "utf8 (py_text (get_field ?fr ''tally_xml'' (Some ''''))) = ''<R/>''" by code_simp+
  have "snd (dispatch_end ?t (on_frame ''o1'' ?fr (fst ?s))) = Relayed (Bytes ''<R/>'')"
    using answers_reach_their_request [OF w, of "''o1''" ?t] f s(2) by simp
  then show ?thesis using s(3) by (simp add: two_bridges_def)
qed

section \<open>One relay for a request\<close>

definition claimed_since :: "string \<Rightarrow> keys_store \<Rightarrow> int option" where
  "claimed_since i ks = map_option (\<lambda>e. e - claim_ttl) (dget ks (claim_key i))"

lemma set_claim_Some: "set_claim i now ks = Some ks' \<longleftrightarrow> \<not> key_exists now (claim_key i) ks \<and> ks' = AList.update (claim_key i) (now + claim_ttl) ks"
  by (auto simp: set_claim_def)

interpretation request_claim: lease "claimed_since i" "set_claim i" claim_ttl for i
proof unfold_locales
  show "set_claim i now ks = None" if "claimed_since i ks = Some t" "now - t < claim_ttl" for ks t now
    using that by (auto simp: claimed_since_def set_claim_def key_exists_def)
  show "claimed_since i ks' = Some now" if "set_claim i now ks = Some ks'" for now ks ks'
    using that by (simp add: set_claim_Some claimed_since_def update_conv')
qed

text \<open>
  The processes that hold connections share the keys.  Each of them may be handed a request, in any order
  and more than once; presence comes and goes in between.
\<close>

record fleet =
  fl_nodes :: "registry list"
  fl_keys :: keys_store
  fl_now :: int
  fl_relayed :: "(string \<times> int) list"

datatype fleet_event = Wait int | Handed nat relay_request | Present string | Absent string | Changes nat registry

fun fleet_step :: "(nat \<Rightarrow> exc option) \<Rightarrow> fleet_event \<Rightarrow> fleet \<Rightarrow> fleet" where
  "fleet_step refuses (Wait d) fs = fs\<lparr>fl_now := fl_now fs + \<bar>d\<bar>\<rparr>"
| "fleet_step refuses (Handed n q) fs =
     (case handle_request refuses (fl_now fs) q (fl_keys fs) (fl_nodes fs ! n) of
        ((ks, rg), r) \<Rightarrow> fs\<lparr>fl_keys := ks, fl_nodes := (fl_nodes fs)[n := rg],
                            fl_relayed := (case r of None \<Rightarrow> fl_relayed fs | Some _ \<Rightarrow> fl_relayed fs @ [(rr_id q, fl_now fs)])\<rparr>)"
| "fleet_step refuses (Present org) fs = fs\<lparr>fl_keys := presence_connected (fl_now fs) org (fl_keys fs)\<rparr>"
| "fleet_step refuses (Absent org) fs = fs\<lparr>fl_keys := presence_disconnected org (fl_keys fs)\<rparr>"
| "fleet_step refuses (Changes n rg) fs = fs\<lparr>fl_nodes := (fl_nodes fs)[n := rg]\<rparr>"

definition fleet_run :: "(nat \<Rightarrow> exc option) \<Rightarrow> fleet_event list \<Rightarrow> fleet \<Rightarrow> fleet" where
  "fleet_run refuses es fs = fold (fleet_step refuses) es fs"

definition new_fleet :: "registry list \<Rightarrow> fleet" where
  "new_fleet nodes = \<lparr>fl_nodes = nodes, fl_keys = [], fl_now = 0, fl_relayed = []\<rparr>"

lemma presence_not_claim: "presence_key org \<noteq> claim_key i" "claim_key i \<noteq> presence_key org"
  by (simp_all add: presence_key_def claim_key_def)

lemma claim_key_inj: "claim_key i = claim_key j \<longleftrightarrow> i = j"
  by (simp add: claim_key_def)

definition claims_held :: "fleet \<Rightarrow> bool" where
  "claims_held fs \<longleftrightarrow>
     (\<forall>(i, t)\<in>set (fl_relayed fs). t \<le> fl_now fs \<and> (\<exists>t'. claimed_since i (fl_keys fs) = Some t' \<and> t \<le> t'))"

definition apart :: "(string \<times> int) list \<Rightarrow> bool" where
  \<comment> \<open>two relays of the same request are as far apart as a claim lives\<close>
  "apart rs \<longleftrightarrow> (\<forall>a b. a < b \<longrightarrow> b < length rs \<longrightarrow> fst (rs ! a) = fst (rs ! b) \<longrightarrow> snd (rs ! a) + claim_ttl \<le> snd (rs ! b))"

lemma apart_append: "apart rs \<Longrightarrow> (\<And>t. (i, t) \<in> set rs \<Longrightarrow> t + claim_ttl \<le> now) \<Longrightarrow> apart (rs @ [(i, now)])"
  unfolding apart_def by (auto simp: nth_append less_Suc_eq)

lemma handle_cases:
  assumes "handle_request refuses now q ks rg = ((ks', rg'), r)"
  shows "r = None \<and> ks' = ks \<or> r \<noteq> None \<and> set_claim (rr_id q) now ks = Some ks'"
  using assms by (auto simp: handle_request_def Let_def split: if_splits option.splits prod.splits)

lemma claimed_since_other:
  "claimed_since i (presence_connected now org ks) = claimed_since i ks" "claimed_since i (presence_disconnected org ks) = claimed_since i ks"
  "i \<noteq> j \<Longrightarrow> set_claim j now ks = Some ks' \<Longrightarrow> claimed_since i ks' = claimed_since i ks"
  by (auto simp: claimed_since_def presence_connected_def presence_disconnected_def set_claim_Some update_conv' delete_conv' presence_not_claim claim_key_inj)

lemma fleet_step_inv:
  assumes "claims_held fs" "apart (fl_relayed fs)"
  shows "claims_held (fleet_step refuses e fs) \<and> apart (fl_relayed (fleet_step refuses e fs))"
proof (cases e)
  case (Handed n q)
  obtain ks rg r where h: "handle_request refuses (fl_now fs) q (fl_keys fs) (fl_nodes fs ! n) = ((ks, rg), r)" by (metis prod.collapse)
  show ?thesis
  proof (cases r)
    case None
    then show ?thesis using handle_cases [OF h] assms Handed h by (simp add: claims_held_def)
  next
    case (Some x)
    then have k: "set_claim (rr_id q) (fl_now fs) (fl_keys fs) = Some ks" using handle_cases [OF h] by simp
    have old: "t + claim_ttl \<le> fl_now fs" if t: "(rr_id q, t) \<in> set (fl_relayed fs)" for t
    proof -
      obtain t' where "claimed_since (rr_id q) (fl_keys fs) = Some t'" "t \<le> t'" using assms(1) t unfolding claims_held_def by blast
      then show ?thesis using request_claim.fresh_refuses [of "rr_id q" "fl_keys fs" t' "fl_now fs"] k by force
    qed
    have now: "claimed_since (rr_id q) ks = Some (fl_now fs)" by (rule request_claim.claim_holds [OF k])
    have "t \<le> fl_now fs \<and> (\<exists>t'. claimed_since i ks = Some t' \<and> t \<le> t')" if it: "(i, t) \<in> set (fl_relayed fs @ [(rr_id q, fl_now fs)])" for i t
    proof (cases "i = rr_id q")
      case True
      then show ?thesis using it assms(1) now unfolding claims_held_def by auto
    next
      case False
      then show ?thesis using it assms(1) claimed_since_other(3) [OF False k] unfolding claims_held_def by auto
    qed
    then have "claims_held (fleet_step refuses e fs)" using Handed h Some by (auto simp: claims_held_def)
    moreover have "apart (fl_relayed fs @ [(rr_id q, fl_now fs)])" using assms(2) old by (rule apart_append)
    ultimately show ?thesis using Handed h Some by simp
  qed
qed (use assms in \<open>auto simp: claims_held_def claimed_since_other\<close>)

text \<open>
  C16: However many processes hold a connection of the organization, and however often each of them is handed
  a request, one process relays it; another could at the earliest when the claim has expired, which is after
  the time limit of the request.
\<close>

theorem request_relayed_once:
  "apart (fl_relayed (fleet_run refuses es (new_fleet nodes))) \<and> 120 + 10 < claim_ttl"
proof -
  have "claims_held (fleet_run refuses es fs) \<and> apart (fl_relayed (fleet_run refuses es fs))" if "claims_held fs" "apart (fl_relayed fs)" for fs
    using that unfolding fleet_run_def
  proof (induction es arbitrary: fs)
    case (Cons e es)
    then show ?case using fleet_step_inv [of fs refuses e] by simp
  qed simp
  moreover have "claims_held (new_fleet nodes)" "apart (fl_relayed (new_fleet nodes))" by (simp_all add: new_fleet_def claims_held_def apart_def)
  ultimately show ?thesis by (simp add: claim_ttl_def)
qed

section \<open>Refusals\<close>

text \<open>
  A dispatch is refused as not connected exactly when no process of the fleet, as far as presence tells,
  holds a connection of the organization, and then nothing has been sent and nothing is left waiting, so
  that trying again is safe.
\<close>

theorem refused_before_sending:
  assumes "\<forall>s. refuses s \<noteq> Some BridgeNotConnected"
  shows "(snd (route_dispatch refuses i now org job xml company ks rg) = Stopped BridgeNotConnected \<longleftrightarrow> \<not> is_online_anywhere now org rg ks) \<and>
    (\<not> is_online_anywhere now org rg ks \<longrightarrow> fst (route_dispatch refuses i now org job xml company ks rg) = rg)"
  using assms
  by (auto simp: route_dispatch_def is_online_anywhere_def is_online_def dispatch_send_def Let_def
      split: option.split if_split prod.splits sum.splits)

theorem refused_before_sending_witness:
  "snd (route_dispatch (\<lambda>s. None) ''r1'' 100 ''o3'' ''j'' ''<E/>'' None (Some [(presence_key ''o3'', 90)]) two_bridges) = Stopped BridgeNotConnected \<and>
   snd (route_dispatch (\<lambda>s. None) ''r1'' 80 ''o3'' ''j'' ''<E/>'' None (Some [(presence_key ''o3'', 90)]) two_bridges) \<noteq> Stopped BridgeNotConnected"
proof -
  have "\<not> is_online_anywhere 100 ''o3'' two_bridges (Some [(presence_key ''o3'', 90)])"
    "is_online_anywhere 80 ''o3'' two_bridges (Some [(presence_key ''o3'', 90)])" by code_simp+
  then show ?thesis using refused_before_sending [of "\<lambda>s. None"] by simp
qed

end
