(* ===== verification/Api.thy ===== *)
theory Api
  imports JobRepo RateLimit Identity Relay
begin

text \<open>
  The HTTP interface, \<open>app/api/routers\<close>, and the background tasks, \<open>app/workers/tasks.py\<close>, over the
  services: what a server does with a call of a principal, from the token to the answer.  A task is put in
  a queue by a call and run by a worker; both see the same tables, each process has its own cache of jobs.
\<close>

section \<open>The server\<close>

datatype task_call = Validate_Task known_values | Generate_Task request | Push_Task

datatype task_envelope =
    Env_Validated bool "(string, nat) dict" "envelope list"
  | Env_Generated job_status summary_result
  | Env_Pushed job_status import_result
  | Env_Error problem

record queued_task =
  qt_id :: string
  qt_org :: string
  qt_job :: string
  qt_call :: task_call

record 's server =
  sr_db :: "job_record list \<times> 's"
  sr_node :: store_node
  sr_staged :: "staged_record list"
  sr_templates :: template_table
  sr_accounts :: accounts
  sr_queue :: "queued_task list"
  sr_results :: "(string \<times> task_envelope res) list"

record 's api_env =
  ae_storage :: "'s storage"
  ae_stages :: stage_env
  ae_max_upload :: nat
  ae_mode :: auth_mode
  ae_tokens :: token_env
  ae_idp :: idp_settings
  ae_push :: push_env

record call_context =
  cx_now :: int
  cx_id :: string
  cx_stamp :: string

definition lock_job ::
    "'s api_env \<Rightarrow> int \<Rightarrow> string \<Rightarrow> string \<Rightarrow> (job \<Rightarrow> job \<times> 'a res) \<Rightarrow> 's server \<Rightarrow> 's server \<times> 'a res" where
  \<comment> \<open>\<open>with store.lock(org_id, job_id)\<close>\<close>
  "lock_job env now org i body srv =
     (case repo_lock (sv_readers (en_services (ae_stages env))) (ae_storage env) now org i body (sr_db srv) (sr_node srv) of
        (db, nd, r) \<Rightarrow> (srv\<lparr>sr_db := db, sr_node := nd\<rparr>, r))"

definition read_job :: "'s api_env \<Rightarrow> int \<Rightarrow> string \<Rightarrow> string \<Rightarrow> (job \<Rightarrow> 'a res) \<Rightarrow> 's server \<Rightarrow> 's server \<times> 'a res" where
  \<comment> \<open>\<open>store.get(org_id, job_id)\<close> and what is computed from the job\<close>
  "read_job env now org i f srv =
     (case repo_get (sv_readers (en_services (ae_stages env))) (ae_storage env) now org i (sr_db srv) (sr_node srv) of
        (nd, r) \<Rightarrow> (srv\<lparr>sr_node := nd\<rparr>, rbind r f))"

section \<open>Jobs\<close>

definition entity_param :: "string \<Rightarrow> entity_type res" where
  "entity_param s = (case entity_of_value s of None \<Rightarrow> raise_default InvalidEntityType | Some e \<Rightarrow> Inr e)"

record job_view =
  jv_id :: string
  jv_entity :: string
  jv_status :: string
  jv_filename :: "string option"
  jv_company :: "string option"
  jv_rows :: "nat option"
  jv_columns :: "nat option"
  jv_notes :: "string list"
  jv_created_at :: int
  jv_updated_at :: int

definition view_job :: "job \<Rightarrow> job_view" where
  "view_job j =
     \<lparr>jv_id = j_id j, jv_entity = entity_value (j_entity j), jv_status = status_value (j_status j),
      jv_filename = j_filename j, jv_company = j_company j,
      jv_rows = map_option (\<lambda>f. length (fr_rows f)) (j_df j), jv_columns = map_option (\<lambda>f. length (fr_cols f)) (j_df j),
      jv_notes = j_notes j, jv_created_at = j_created_at j, jv_updated_at = j_updated_at j\<rparr>"

fun read_capped :: "nat \<Rightarrow> string \<Rightarrow> string list \<Rightarrow> string res" where
  \<comment> \<open>the chunks a read returns, until an empty one\<close>
  "read_capped limit buffer [] = Inr buffer"
| "read_capped limit buffer (chunk # chunks) =
     (if chunk = '''' then Inr buffer
      else if limit < length (buffer @ chunk) then raise_default PayloadTooLarge
      else read_capped limit (buffer @ chunk) chunks)"

record line_preview =
  lp_ledger :: string
  lp_is_debit :: bool
  lp_amount :: fdec
  lp_stock_item :: "string option"
  lp_quantity :: "fdec option"
  lp_unit :: "string option"

record voucher_preview =
  vp_number :: "string option"
  vp_date :: date
  vp_type :: string
  vp_party :: "string option"
  vp_debit :: fdec
  vp_credit :: fdec
  vp_balanced :: bool
  vp_lines :: "line_preview list"

record preview =
  pv_count :: nat
  pv_errors :: nat
  pv_warnings :: nat
  pv_vouchers :: "voucher_preview list"

definition preview_voucher :: "voucher \<Rightarrow> voucher_preview" where
  "preview_voucher v =
     \<lparr>vp_number = v_reference v, vp_date = v_date v, vp_type = v_type v, vp_party = v_party_ledger v,
      vp_debit = debit_total v, vp_credit = credit_total v, vp_balanced = is_balanced v,
      vp_lines = map (\<lambda>l. \<lparr>lp_ledger = vl_ledger l, lp_is_debit = vl_is_debit l, lp_amount = vl_amount l,
                            lp_stock_item = vl_stock_item l, lp_quantity = vl_quantity l, lp_unit = vl_unit l\<rparr>) (v_lines v)\<rparr>"

definition preview_vouchers :: "date_parser \<Rightarrow> job \<Rightarrow> preview res" where
  "preview_vouchers pd j =
     (if j_entity j \<noteq> VOUCHER then raise_default InvalidState
      else case j_mapped_df j of
          None \<Rightarrow> raise_default InvalidState
        | Some df \<Rightarrow>
            (case rows_to_vouchers pd CONVERT (records df) [] of
               (Inl e, _) \<Rightarrow> Inl e
             | (Inr vs, errs) \<Rightarrow>
                 Inr \<lparr>pv_count = length vs, pv_errors = length (filter (\<lambda>e. e_severity e = Sev_Error) errs),
                      pv_warnings = length (filter (\<lambda>e. e_severity e = Sev_Warning) errs),
                      pv_vouchers = map preview_voucher (take 100 vs)\<rparr>))"

definition count_decisions :: "verdict list \<Rightarrow> (decision, nat) dict" where
  "count_decisions vs = fold (\<lambda>v d. AList.update (vd_decision v) (setdefault (vd_decision v) 0 d + 1) d) vs []"

definition capitalize :: "string \<Rightarrow> string" where
  "capitalize s = (case s of [] \<Rightarrow> [] | c # cs \<Rightarrow> upper [c] @ lower cs)"

definition company_slug :: "string option \<Rightarrow> string" where
  \<comment> \<open>\<open>isalnum\<close> is \<open>\w\<close> without the underscore, which stands for itself\<close>
  "company_slug company =
     map (\<lambda>c. if is_word c then c else CHR ''_'') (if truthy company then the company else ''Company'')"

definition artifact_name :: "string \<Rightarrow> job \<Rightarrow> string" where
  "artifact_name stamp j =
     company_slug (j_company j) @ ''_'' @ capitalize (entity_value (j_entity j)) @ ''_'' @ stamp @ ''.xml''"

definition disposition :: "string \<Rightarrow> string" where
  "disposition filename = ''attachment; filename='' @ [CHR 0x22] @ filename @ [CHR 0x22]"

section \<open>Calls\<close>

datatype api_call =
    Create_Job string
  | Get_Job string
  | Upload_File string "string list" "string option"
  | Get_Profile string
  | Mapping_Suggestions string
  | Apply_Mapping string "(string, string option) dict" "(string, string) dict" "string option"
  | Validate_Job string known_values
  | Task_Status string string
  | Get_Validation string
  | Voucher_Preview string
  | Resolve_Job string "row list"
  | Generate_Job string request
  | Get_Artifact string
  | Push_Job string

datatype answer =
    Job_Answer job_view
  | Profile_Answer profile_signals
  | Proposal_Answer proposal
  | Accepted_Answer string
  | Pending_Answer
  | Task_Answer task_envelope
  | Task_Failed_Answer
  | Validation_Answer bool "(string, nat) dict" "envelope list"
  | Preview_Answer preview
  | Resolution_Answer "(decision, nat) dict" "verdict list"
  | Artifact_Answer string string

definition with_job :: "job \<times> 'a res \<Rightarrow> (job \<Rightarrow> 'a \<Rightarrow> 'b) \<Rightarrow> job \<times> 'b res" where
  \<comment> \<open>the answer of a stage that has not raised\<close>
  "with_job r f = (case r of (j, Inl e) \<Rightarrow> (j, Inl e) | (j, Inr x) \<Rightarrow> (j, Inr (f j x)))"

definition submit :: "call_context \<Rightarrow> string \<Rightarrow> string \<Rightarrow> task_call \<Rightarrow> 's server \<times> unit res \<Rightarrow> 's server \<times> answer res" where
  "submit cx org i c s =
     (case s of
        (srv, Inl e) \<Rightarrow> (srv, Inl e)
      | (srv, Inr _) \<Rightarrow>
          (srv\<lparr>sr_queue := sr_queue srv @ [\<lparr>qt_id = cx_id cx, qt_org = org, qt_job = i, qt_call = c\<rparr>]\<rparr>, Inr (Accepted_Answer (cx_id cx))))"

definition upload_file ::
    "'s api_env \<Rightarrow> call_context \<Rightarrow> string \<Rightarrow> string \<Rightarrow> string list \<Rightarrow> string option \<Rightarrow> 's server \<Rightarrow> 's server \<times> answer res" where
  \<comment> \<open>the staged rows are committed by the stage, before the job is\<close>
  "upload_file env cx org i chunks filename srv =
     (case read_capped (ae_max_upload env) '''' chunks of
        Inl e \<Rightarrow> (srv, Inl e)
      | Inr content \<Rightarrow>
          let en = ae_stages env;
              stage = ingest (en_services en) (en_limits en) (cx_now cx) content filename (sr_staged srv);
              staged = (case snd (read_job env (cx_now cx) org i Inr srv) of Inl e \<Rightarrow> sr_staged srv | Inr j \<Rightarrow> fst (stage j));
              (srv1, r) = lock_job env (cx_now cx) org i (\<lambda>j. with_job (snd (stage j)) (\<lambda>j' _. Job_Answer (view_job j'))) srv
          in (srv1\<lparr>sr_staged := staged\<rparr>, r))"

definition task_status :: "(string \<times> task_envelope res) list \<Rightarrow> string \<Rightarrow> answer" where
  "task_status results tid =
     (case map_of results tid of
        None \<Rightarrow> Pending_Answer
      | Some (Inl e) \<Rightarrow> Task_Failed_Answer
      | Some (Inr x) \<Rightarrow> Task_Answer x)"

definition create_job :: "'s api_env \<Rightarrow> call_context \<Rightarrow> string \<Rightarrow> string \<Rightarrow> string \<Rightarrow> 's server \<Rightarrow> 's server \<times> answer res" where
  "create_job env cx org user ent srv =
     (case entity_param ent of
        Inl e \<Rightarrow> (srv, Inl e)
      | Inr t \<Rightarrow>
          (case repo_create (cx_id cx) org user t (cx_now cx) (sr_db srv, sr_node srv) of
             (db, nd, j) \<Rightarrow> (srv\<lparr>sr_db := db, sr_node := nd\<rparr>, Inr (Job_Answer (view_job j)))))"

definition get_job :: "'s api_env \<Rightarrow> call_context \<Rightarrow> string \<Rightarrow> string \<Rightarrow> 's server \<Rightarrow> 's server \<times> answer res" where
  "get_job env cx org i = read_job env (cx_now cx) org i (\<lambda>j. Inr (Job_Answer (view_job j)))"

definition get_profile :: "'s api_env \<Rightarrow> call_context \<Rightarrow> string \<Rightarrow> string \<Rightarrow> 's server \<Rightarrow> 's server \<times> answer res" where
  "get_profile env cx org i =
     read_job env (cx_now cx) org i
       (\<lambda>j. case j_profile j of None \<Rightarrow> raise_default InvalidState | Some p \<Rightarrow> Inr (Profile_Answer p))"

definition mapping_suggestions :: "'s api_env \<Rightarrow> call_context \<Rightarrow> string \<Rightarrow> string \<Rightarrow> 's server \<Rightarrow> 's server \<times> answer res" where
  "mapping_suggestions env cx org i srv =
     lock_job env (cx_now cx) org i
       (\<lambda>j. (j, rbind (suggest_mapping (en_services (ae_stages env)) (sr_templates srv) j) (\<lambda>p. Inr (Proposal_Answer p)))) srv"

definition post_mapping ::
    "'s api_env \<Rightarrow> call_context \<Rightarrow> string \<Rightarrow> string \<Rightarrow> (string, string option) dict \<Rightarrow> (string, string) dict \<Rightarrow> string option \<Rightarrow> 's server \<Rightarrow> 's server \<times> answer res" where
  "post_mapping env cx org i mapping constants template =
     lock_job env (cx_now cx) org i
       (\<lambda>j. with_job (apply_mapping (en_services (ae_stages env)) (cx_now cx) mapping constants template j) (\<lambda>j' _. Job_Answer (view_job j')))"

definition validate_job :: "'s api_env \<Rightarrow> call_context \<Rightarrow> string \<Rightarrow> string \<Rightarrow> known_values \<Rightarrow> 's server \<Rightarrow> 's server \<times> answer res" where
  "validate_job env cx org i known srv =
     submit cx org i (Validate_Task known) (read_job env (cx_now cx) org i (require Validate) srv)"

definition get_task_status :: "'s api_env \<Rightarrow> call_context \<Rightarrow> string \<Rightarrow> string \<Rightarrow> string \<Rightarrow> 's server \<Rightarrow> 's server \<times> answer res" where
  "get_task_status env cx org i tid srv =
     read_job env (cx_now cx) org i (\<lambda>j. Inr (task_status (sr_results srv) tid)) srv"

definition get_validation :: "'s api_env \<Rightarrow> call_context \<Rightarrow> string \<Rightarrow> string \<Rightarrow> 's server \<Rightarrow> 's server \<times> answer res" where
  "get_validation env cx org i =
     read_job env (cx_now cx) org i
       (\<lambda>j. case j_validation j of None \<Rightarrow> raise_default InvalidState | Some v \<Rightarrow> Inr (Validation_Answer (r_ok v) (r_stats v) (r_errors v)))"

definition preview_job :: "'s api_env \<Rightarrow> call_context \<Rightarrow> string \<Rightarrow> string \<Rightarrow> 's server \<Rightarrow> 's server \<times> answer res" where
  "preview_job env cx org i =
     read_job env (cx_now cx) org i
       (\<lambda>j. rbind (preview_vouchers (sv_dates (en_services (ae_stages env))) j) (\<lambda>p. Inr (Preview_Answer p)))"

definition resolve_job :: "'s api_env \<Rightarrow> call_context \<Rightarrow> string \<Rightarrow> string \<Rightarrow> row list \<Rightarrow> 's server \<Rightarrow> 's server \<times> answer res" where
  "resolve_job env cx org i existing =
     lock_job env (cx_now cx) org i
       (\<lambda>j. with_job (run_resolution (en_services (ae_stages env)) (cx_now cx) (Some existing) j)
              (\<lambda>j' vs. Resolution_Answer (count_decisions vs) vs))"

definition generate_job :: "'s api_env \<Rightarrow> call_context \<Rightarrow> string \<Rightarrow> string \<Rightarrow> request \<Rightarrow> 's server \<Rightarrow> 's server \<times> answer res" where
  "generate_job env cx org i rq srv =
     submit cx org i (Generate_Task rq) (read_job env (cx_now cx) org i (require Generate) srv)"

definition get_artifact :: "'s api_env \<Rightarrow> call_context \<Rightarrow> string \<Rightarrow> string \<Rightarrow> 's server \<Rightarrow> 's server \<times> answer res" where
  "get_artifact env cx org i =
     read_job env (cx_now cx) org i
       (\<lambda>j. case j_xml j of None \<Rightarrow> raise_default InvalidState
            | Some xml \<Rightarrow> Inr (Artifact_Answer xml (disposition (artifact_name (cx_stamp cx) j))))"

definition push_job :: "'s api_env \<Rightarrow> call_context \<Rightarrow> string \<Rightarrow> string \<Rightarrow> 's server \<Rightarrow> 's server \<times> answer res" where
  "push_job env cx org i srv =
     submit cx org i Push_Task (read_job env (cx_now cx) org i (ensure_pushable (cx_now cx)) srv)"

fun handle :: "'s api_env \<Rightarrow> call_context \<Rightarrow> string \<Rightarrow> string \<Rightarrow> api_call \<Rightarrow> 's server \<Rightarrow> 's server \<times> answer res" where
  "handle env cx org user (Create_Job ent) srv = create_job env cx org user ent srv"
| "handle env cx org user (Get_Job i) srv = get_job env cx org i srv"
| "handle env cx org user (Upload_File i chunks filename) srv = upload_file env cx org i chunks filename srv"
| "handle env cx org user (Get_Profile i) srv = get_profile env cx org i srv"
| "handle env cx org user (Mapping_Suggestions i) srv = mapping_suggestions env cx org i srv"
| "handle env cx org user (Apply_Mapping i mapping constants template) srv = post_mapping env cx org i mapping constants template srv"
| "handle env cx org user (Validate_Job i known) srv = validate_job env cx org i known srv"
| "handle env cx org user (Task_Status i tid) srv = get_task_status env cx org i tid srv"
| "handle env cx org user (Get_Validation i) srv = get_validation env cx org i srv"
| "handle env cx org user (Voucher_Preview i) srv = preview_job env cx org i srv"
| "handle env cx org user (Resolve_Job i existing) srv = resolve_job env cx org i existing srv"
| "handle env cx org user (Generate_Job i rq) srv = generate_job env cx org i rq srv"
| "handle env cx org user (Get_Artifact i) srv = get_artifact env cx org i srv"
| "handle env cx org user (Push_Job i) srv = push_job env cx org i srv"

lemmas endpoint_defs = create_job_def get_job_def get_profile_def mapping_suggestions_def post_mapping_def validate_job_def
  get_task_status_def get_validation_def preview_job_def resolve_job_def generate_job_def get_artifact_def push_job_def

section \<open>Answers\<close>

datatype http = Success answer | Problem problem

definition internal_error :: problem where
  "internal_error = \<lparr>p_status = 500, p_code = ''internal_error'', p_errors = []\<rparr>"

definition to_http :: "answer res \<Rightarrow> http" where
  "to_http r = (case r of Inr x \<Rightarrow> Success x | Inl (AppErr a) \<Rightarrow> Problem (to_problem a) | Inl e \<Rightarrow> Problem internal_error)"

definition serve ::
    "'s api_env \<Rightarrow> call_context \<Rightarrow> fresh \<Rightarrow> string option \<Rightarrow> string option \<Rightarrow> api_call \<Rightarrow> 's server \<Rightarrow> 's server \<times> http" where
  "serve env cx fi authorization org call srv =
     (case get_principal (ae_mode env) (ae_tokens env) (ae_idp env) fi authorization org (sr_accounts srv) of
        (ac, Inl e) \<Rightarrow> (srv\<lparr>sr_accounts := ac\<rparr>, to_http (Inl e))
      | (ac, Inr p) \<Rightarrow>
          (case handle env cx (pc_org p) (pc_user p) call (srv\<lparr>sr_accounts := ac\<rparr>) of (srv', r) \<Rightarrow> (srv', to_http r)))"

section \<open>Workers\<close>

definition enveloped :: "task_envelope res \<Rightarrow> task_envelope res" where
  \<comment> \<open>an application error is a result, anything else a crash of the task\<close>
  "enveloped r = (case r of Inl (AppErr a) \<Rightarrow> Inr (Env_Error (to_problem a)) | _ \<Rightarrow> r)"

definition validate_task :: "'s api_env \<Rightarrow> int \<Rightarrow> string \<Rightarrow> string \<Rightarrow> known_values \<Rightarrow> 's server \<Rightarrow> 's server \<times> task_envelope res" where
  "validate_task env now org i known srv =
     apsnd enveloped (lock_job env now org i
       (\<lambda>j. with_job (run_validation (en_services (ae_stages env)) now known j) (\<lambda>j' r. Env_Validated (r_ok r) (r_stats r) (r_errors r))) srv)"

definition generate_task :: "'s api_env \<Rightarrow> int \<Rightarrow> string \<Rightarrow> string \<Rightarrow> request \<Rightarrow> 's server \<Rightarrow> 's server \<times> task_envelope res" where
  "generate_task env now org i rq srv =
     apsnd enveloped (lock_job env now org i
       (\<lambda>j. with_job (run_generation (en_printer (ae_stages env)) (sv_dates (en_services (ae_stages env))) now rq j)
              (\<lambda>j' sm. Env_Generated (j_status j') sm)) srv)"

definition claim_section :: "int \<Rightarrow> job \<Rightarrow> job \<times> (string \<times> string option) res" where
  "claim_section now j =
     (case claim_push now j of (j', Inl e) \<Rightarrow> (j', Inl e) | (j', Inr _) \<Rightarrow> (j', Inr (the (j_xml j'), j_company j')))"

definition record_section :: "int \<Rightarrow> import_result \<Rightarrow> job \<Rightarrow> job \<times> job_status res" where
  "record_section now r j = (case record_push_result now r j of (j', s) \<Rightarrow> (j', Inr s))"

definition failure_section :: "int \<Rightarrow> string \<Rightarrow> job \<Rightarrow> job \<times> unit res" where
  "failure_section now reason j = (record_push_failure now reason j, Inr ())"

definition release_section :: "int \<Rightarrow> job \<Rightarrow> job \<times> unit res" where
  "release_section now j = (release_claim now j, Inr ())"

definition direct_section :: "push_env \<Rightarrow> int \<Rightarrow> gateway \<Rightarrow> job \<Rightarrow> job \<times> task_envelope res" where
  "direct_section pe now gw j =
     (case run_push pe gw j of
        Inl e \<Rightarrow> (j, Inl e)
      | Inr r \<Rightarrow> (case record_push_result now r j of (j', s) \<Rightarrow> (j', Inr (Env_Pushed s r))))"

definition task_problem :: "app_class \<Rightarrow> string \<Rightarrow> task_envelope" where
  "task_problem cls code = Env_Error (to_problem (app_error_new cls (Some code) []))"

definition after :: "'s server \<times> 'a res \<Rightarrow> ('a \<Rightarrow> task_envelope) \<Rightarrow> 's server \<times> task_envelope res" where
  \<comment> \<open>what is left to do in a task once a section is through: an exception crashes it\<close>
  "after s f = (case s of (srv, Inl e) \<Rightarrow> (srv, Inl e) | (srv, Inr x) \<Rightarrow> (srv, Inr (f x)))"

definition push_direct_task :: "'s api_env \<Rightarrow> int \<Rightarrow> string \<Rightarrow> string \<Rightarrow> gateway \<Rightarrow> 's server \<Rightarrow> 's server \<times> task_envelope res" where
  "push_direct_task env now org i gw srv =
     (case lock_job env now org i (direct_section (ae_push env) now gw) srv of
        (srv1, Inl (AppErr a)) \<Rightarrow>
          after (lock_job env now org i (failure_section now (pe_message (ae_push env) (AppErr a))) srv1) (\<lambda>_. Env_Error (to_problem a))
      | r \<Rightarrow> r)"

definition push_relayed_task ::
    "'s api_env \<Rightarrow> int \<Rightarrow> string \<Rightarrow> string \<Rightarrow> relay_outcome \<Rightarrow> 's server \<Rightarrow> 's server \<times> task_envelope res" where
  "push_relayed_task env now org i out srv =
     (case out of
        Not_Connected \<Rightarrow> after (lock_job env now org i (release_section now) srv) (\<lambda>_. task_problem ServiceUnavailable ''bridge_unavailable'')
      | Offline reason \<Rightarrow> after (lock_job env now org i (failure_section now reason) srv) (\<lambda>_. task_problem ServiceUnavailable ''bridge_no_result'')
      | Relayed data \<Rightarrow>
          (case parse_import_response (pe_response (ae_push env)) data of
             Inr r \<Rightarrow> after (lock_job env now org i (record_section now r) srv) (\<lambda>s. Env_Pushed s r)
           | Inl XMLSecurityError \<Rightarrow>
               after (lock_job env now org i (failure_section now (''unparseable Tally response: '' @ pe_message (ae_push env) XMLSecurityError)) srv)
                 (\<lambda>_. task_problem UnprocessableData ''bad_tally_response'')
           | Inl e \<Rightarrow> (srv, Inl e)))"

text \<open>The claim, and the rest of the task at a later time, with what the transport has done in between.\<close>

definition push_claim :: "'s api_env \<Rightarrow> int \<Rightarrow> string \<Rightarrow> string \<Rightarrow> 's server \<Rightarrow> 's server \<times> (string \<times> string option) res" where
  "push_claim env now org i srv = lock_job env now org i (claim_section now) srv"

definition push_rest ::
    "'s api_env \<Rightarrow> int \<Rightarrow> string \<Rightarrow> string \<Rightarrow> gateway \<Rightarrow> relay_outcome \<Rightarrow> 's server \<Rightarrow> 's server \<times> task_envelope res" where
  "push_rest env now org i gw out srv =
     (if pe_direct (ae_push env) then push_direct_task env now org i gw srv else push_relayed_task env now org i out srv)"

definition push_job_task ::
    "'s api_env \<Rightarrow> int \<Rightarrow> int \<Rightarrow> string \<Rightarrow> string \<Rightarrow> gateway \<Rightarrow> relay_outcome \<Rightarrow> 's server \<Rightarrow> 's server \<times> task_envelope res" where
  "push_job_task env t0 t1 org i gw out srv =
     (case push_claim env t0 org i srv of
        (srv1, Inl (AppErr a)) \<Rightarrow> (srv1, Inr (Env_Error (to_problem a)))
      | (srv1, Inl e) \<Rightarrow> (srv1, Inl e)
      | (srv1, Inr _) \<Rightarrow> push_rest env t1 org i gw out srv1)"

definition run_task ::
    "'s api_env \<Rightarrow> int \<Rightarrow> int \<Rightarrow> gateway \<Rightarrow> relay_outcome \<Rightarrow> queued_task \<Rightarrow> 's server \<Rightarrow> 's server" where
  \<comment> \<open>a worker runs a task of the queue and keeps what comes of it\<close>
  "run_task env t0 t1 gw out q srv =
     (case (case qt_call q of
              Validate_Task known \<Rightarrow> validate_task env t0 (qt_org q) (qt_job q) known srv
            | Generate_Task rq \<Rightarrow> generate_task env t0 (qt_org q) (qt_job q) rq srv
            | Push_Task \<Rightarrow> push_job_task env t0 t1 (qt_org q) (qt_job q) gw out srv) of
        (srv', r) \<Rightarrow> srv'\<lparr>sr_queue := remove1 q (sr_queue srv'), sr_results := (qt_id q, r) # sr_results srv'\<rparr>)"

text \<open>The daily clean-up of what uploads have staged, and the number of rows it deletes.\<close>

definition retention_seconds :: int where
  "retention_seconds = 30 * 24 * 60 * 60"

definition cleanup_staged_records :: "int \<Rightarrow> staged_record list \<Rightarrow> staged_record list \<times> nat" where
  "cleanup_staged_records now rows =
     (let old = (\<lambda>r. sd_created_at r < now - retention_seconds) in (filter (\<lambda>r. \<not> old r) rows, length (filter old rows)))"

section \<open>Saved templates\<close>

record template_response =
  ts_id :: string
  ts_name :: string
  ts_entity :: string
  ts_mapping :: "(string, string) dict"
  ts_constants :: "(string, string) dict"
  ts_columns :: "string list"
  ts_builtin :: bool
  ts_created_at :: "int option"

definition saved_response :: "template_view \<Rightarrow> template_response" where
  "saved_response t =
     \<lparr>ts_id = tv_id t, ts_name = tv_name t, ts_entity = tv_entity t, ts_mapping = tv_mapping t, ts_constants = tv_constants t,
      ts_columns = tv_columns t, ts_builtin = tv_builtin t, ts_created_at = Some (tv_created_at t)\<rparr>"

definition builtin_entity :: "(string, entity_type) dict" where
  "builtin_entity = [(''shopify'', VOUCHER)]"

definition builtins_for :: "entity_type \<Rightarrow> template_response list" where
  "builtins_for ent =
     map (\<lambda>(n, t). \<lparr>ts_id = ''builtin:'' @ n, ts_name = n, ts_entity = entity_value ent,
                     ts_mapping = filter (\<lambda>(k, v). v \<noteq> '''') (bt_mapping t), ts_constants = bt_constants t,
                     ts_columns = map snd (bt_mapping t), ts_builtin = True, ts_created_at = None\<rparr>)
       (filter (\<lambda>(n, t). dget builtin_entity n = Some ent) templates)"

definition templates_list ::
    "(stored_template list \<Rightarrow> stored_template list) \<Rightarrow> string \<Rightarrow> string \<Rightarrow> template_table \<Rightarrow> template_response list res" where
  "templates_list by_name_order org ent db =
     rbind (entity_param ent) (\<lambda>e. Inr (builtins_for e @ map saved_response (list_templates by_name_order db org e)))"

definition templates_save ::
    "string \<times> int \<Rightarrow> string \<Rightarrow> string \<Rightarrow> string \<Rightarrow> string \<Rightarrow> (string, string option) dict \<Rightarrow> (string, string) dict \<Rightarrow> string list \<Rightarrow>
     template_table \<Rightarrow> template_table \<times> template_response res" where
  "templates_save new_row org user ent name mapping constants cols db =
     (case entity_param ent of
        Inl e \<Rightarrow> (db, Inl e)
      | Inr t \<Rightarrow>
          (case save_template db new_row org user t (strip name) mapping constants cols of
             (db', v) \<Rightarrow> (db', Inr (saved_response v))))"

definition templates_delete :: "string \<Rightarrow> string \<Rightarrow> template_table \<Rightarrow> template_table \<times> unit res" where
  "templates_delete org tid db =
     (case delete_template db org tid of (db', b) \<Rightarrow> (db', if b then Inr () else raise_default NotFound))"

section \<open>Stages keep the identity of a job\<close>

named_theorems kept \<open>operations that leave the identifier and the owner of a job\<close>

definition keeps :: "(job \<Rightarrow> job \<times> 'a res) \<Rightarrow> bool" where
  "keeps body \<longleftrightarrow> (\<forall>j. j_id (fst (body j)) = j_id j \<and> j_org (fst (body j)) = j_org j)"

lemma fst_with_job [simp]: "fst (with_job r f) = fst r"
  by (simp add: with_job_def split: prod.split sum.split)

lemma keeps_with_job [kept]: "keeps body \<Longrightarrow> keeps (\<lambda>j. with_job (body j) f)"
  by (simp add: keeps_def)

lemma keeps_same [kept]: "keeps (\<lambda>j. (j, f j))"
  by (simp add: keeps_def)

lemma keeps_ingest [kept]: "keeps (\<lambda>j. snd (ingest sv lm now content fn st j))"
  by (auto simp: keeps_def ingest_def reset_from_def Let_def split: sum.split option.split)

lemma keeps_apply_mapping [kept]: "keeps (\<lambda>j. apply_mapping sv now m c t j)"
  by (auto simp: keeps_def apply_mapping_def reset_from_def Let_def split: sum.split option.split prod.split)

lemma keeps_run_validation [kept]: "keeps (\<lambda>j. run_validation sv now kn j)"
  by (auto simp: keeps_def run_validation_def split: sum.split option.split)

lemma keeps_run_resolution [kept]: "keeps (\<lambda>j. run_resolution sv now ex j)"
  by (auto simp: keeps_def run_resolution_def Let_def split: sum.split option.split)

lemma keeps_run_generation [kept]: "keeps (\<lambda>j. run_generation pr pd now rq j)"
proof -
  have "j_id j' = j_id j \<and> j_org j' = j_org j" if "run_generation pr pd now rq j = (j', r)" for j j' r
    using run_generation_result [OF that] by (auto simp: with_xml_def)
  then show ?thesis unfolding keeps_def by (metis prod.collapse)
qed

lemma keeps_sections [kept]:
  "keeps (claim_section now)" "keeps (record_section now r)" "keeps (failure_section now reason)" "keeps (release_section now)"
  "keeps (direct_section pe now gw)"
  by (auto simp: keeps_def claim_section_def claim_push_def record_section_def record_push_result_def failure_section_def
      record_push_failure_def release_section_def release_claim_def direct_section_def Let_def split: sum.split)

section \<open>The boundary between tenants\<close>

definition server_ok :: "'s server \<Rightarrow> bool" where
  "server_ok srv \<longleftrightarrow> repo_inv (fst (sr_db srv)) (sr_node srv)"

definition only_org :: "string \<Rightarrow> 's server \<Rightarrow> 's server \<Rightarrow> bool" where
  \<comment> \<open>of the rows of jobs, those of one organization may have changed\<close>
  "only_org org srv srv' \<longleftrightarrow> (\<forall>x. jr_org x \<noteq> org \<longrightarrow> (x \<in> set (fst (sr_db srv')) \<longleftrightarrow> x \<in> set (fst (sr_db srv))))"

definition safe_for :: "string \<Rightarrow> 's server \<Rightarrow> 's server \<Rightarrow> bool" where
  "safe_for org srv srv' \<longleftrightarrow> (server_ok srv \<longrightarrow> server_ok srv' \<and> only_org org srv srv') \<and> sr_accounts srv' = sr_accounts srv"

lemma safe_refl: "safe_for org srv srv"
  by (simp add: safe_for_def only_org_def)

lemma safe_trans: "safe_for org a b \<Longrightarrow> safe_for org b c \<Longrightarrow> safe_for org a c"
  by (auto simp: safe_for_def only_org_def)

lemma safe_lock_job:
  assumes "keeps body"
  shows "safe_for org srv (fst (lock_job env now org i body srv))"
proof -
  obtain rows b where db: "sr_db srv = (rows, b)" by fastforce
  obtain rows' b' nd r where l: "repo_lock (sv_readers (en_services (ae_stages env))) (ae_storage env) now org i body (rows, b) (sr_node srv) = ((rows', b'), nd, r)"
    by (metis prod.exhaust)
  have k: "\<And>j. j_id (fst (body j)) = j_id j \<and> j_org (fst (body j)) = j_org j" using assms by (simp add: keeps_def)
  have "server_ok (fst (lock_job env now org i body srv)) \<and> only_org org srv (fst (lock_job env now org i body srv))" if "server_ok srv"
    using lock_isolated [OF _ k l] that l db by (simp add: server_ok_def only_org_def lock_job_def)
  then show ?thesis using l db by (simp add: safe_for_def lock_job_def)
qed

lemma safe_read_job: "safe_for org srv (fst (read_job env now org i f srv))"
proof -
  obtain nd r where g: "repo_get (sv_readers (en_services (ae_stages env))) (ae_storage env) now org i (fst (sr_db srv), snd (sr_db srv)) (sr_node srv) = (nd, r)"
    by fastforce
  have "repo_inv (fst (sr_db srv)) nd" if "repo_inv (fst (sr_db srv)) (sr_node srv)" using repo_get_inv(1) [OF that g] .
  then show ?thesis using g by (simp add: safe_for_def server_ok_def only_org_def read_job_def)
qed

lemma safe_create:
  assumes "repo_create i org user t now (sr_db srv, sr_node srv) = (db, nd, j)" "i \<notin> jr_id ` set (fst (sr_db srv))"
  shows "safe_for org srv (srv\<lparr>sr_db := db, sr_node := nd\<rparr>)"
proof -
  obtain rows b where db: "sr_db srv = (rows, b)" by fastforce
  obtain r where r: "fst db = rows @ [r]" "jr_id r = i" "jr_org r = org" and nd: "nd = cache_put j (sr_node srv)" and j: "j_id j = i" "j_org j = Some org"
    using assms(1) by (auto simp: repo_create_def db new_job_def Let_def)
  have "repo_inv (rows @ [r]) nd" if inv: "repo_inv rows (sr_node srv)"
  proof -
    have "repo_inv (rows @ [r]) (sr_node srv)"
      using inv assms(2) r(2) by (auto simp: repo_inv_def owners_def db)
    then show ?thesis unfolding nd by (rule cache_put_inv) (auto simp: owners_def r j)
  qed
  then show ?thesis using r by (auto simp: safe_for_def server_ok_def only_org_def db)
qed

lemma safe_submit: "safe_for org srv (fst s) \<Longrightarrow> safe_for org srv (fst (submit cx org i c s))"
  by (auto simp: submit_def safe_for_def server_ok_def only_org_def split: prod.split sum.split)

lemma safe_upload: "safe_for org srv (fst (upload_file env cx org i chunks fn srv))"
proof (cases "read_capped (ae_max_upload env) [] chunks")
  case (Inr content)
  let ?body = "\<lambda>j. with_job (snd (ingest (en_services (ae_stages env)) (en_limits (ae_stages env)) (cx_now cx) content fn (sr_staged srv) j))
      (\<lambda>j' _. Job_Answer (view_job j'))"
  have "safe_for org srv (fst (lock_job env (cx_now cx) org i ?body srv))" by (intro safe_lock_job kept)
  then show ?thesis using Inr by (auto simp: upload_file_def Let_def safe_for_def server_ok_def only_org_def split: prod.split)
qed (simp add: upload_file_def safe_refl)

lemma handle_safe:
  assumes "cx_id cx \<notin> jr_id ` set (fst (sr_db srv))"
  shows "safe_for org srv (fst (handle env cx org user call srv))"
proof (cases call)
  case (Create_Job ent)
  then show ?thesis using safe_create [OF _ assms] by (auto simp: create_job_def safe_refl split: sum.split prod.split)
qed (simp_all add: endpoint_defs safe_read_job safe_submit safe_upload safe_lock_job kept)

text \<open>
  C3: Whatever call a request makes, a row of a job can change only if the token has been accepted for a
  user who is a member of the organization the job belongs to; and the tables of jobs and accounts stay
  consistent.
\<close>

theorem only_members_change_jobs:
  assumes "server_ok srv" "accounts_ok (sr_accounts srv)" "is_fresh fi (sr_accounts srv)" "cx_id cx \<notin> jr_id ` set (fst (sr_db srv))"
    and "serve env cx fi auth org call srv = (srv', r)"
  shows "server_ok srv' \<and> accounts_ok (sr_accounts srv') \<and>
    (\<forall>x. (x \<in> set (fst (sr_db srv')) \<longleftrightarrow> x \<notin> set (fst (sr_db srv))) \<longrightarrow>
      (\<exists>p. snd (get_principal (ae_mode env) (ae_tokens env) (ae_idp env) fi auth org (sr_accounts srv)) = Inr p \<and>
        (\<exists>m\<in>set (ac_members (sr_accounts srv')). mb_user m = pc_user p \<and> mb_org m = jr_org x)))"
proof -
  obtain ac g where g: "get_principal (ae_mode env) (ae_tokens env) (ae_idp env) fi auth org (sr_accounts srv) = (ac, g)" by fastforce
  have ac: "accounts_ok ac" using accounts_ok_get_principal [OF assms(2,3)] g by (metis fst_conv)
  show ?thesis
  proof (cases g)
    case (Inl e)
    then have "srv' = srv\<lparr>sr_accounts := ac\<rparr>" using assms(5) g by (simp add: serve_def)
    then show ?thesis using assms(1) ac by (simp add: server_ok_def)
  next
    case (Inr p)
    let ?srv = "srv\<lparr>sr_accounts := ac\<rparr>"
    have "principal_ok org ac p" using get_principal_ok [OF _ g [unfolded Inr]] assms(2) by (simp add: accounts_ok_def)
    then have m: "\<exists>m\<in>set (ac_members ac). mb_user m = pc_user p \<and> mb_org m = pc_org p" by (auto simp: principal_ok_def member_of_def)
    have srv': "srv' = fst (handle env cx (pc_org p) (pc_user p) call ?srv)" using assms(5) g Inr by (auto simp: serve_def split: prod.splits)
    have "safe_for (pc_org p) ?srv srv'" unfolding srv' using assms(4) by (intro handle_safe) simp
    then have s: "server_ok srv'" "only_org (pc_org p) ?srv srv'" "sr_accounts srv' = ac"
      using assms(1) by (simp_all add: safe_for_def server_ok_def)
    have "jr_org x = pc_org p" if "x \<in> set (fst (sr_db srv')) \<longleftrightarrow> x \<notin> set (fst (sr_db srv))" for x
      using s(2) that unfolding only_org_def by auto
    then show ?thesis using s(1,3) ac m g Inr by simp
  qed
qed

definition fresh_server :: "'s \<Rightarrow> 's server" where
  "fresh_server blobs =
     \<lparr>sr_db = ([], blobs), sr_node = \<lparr>nd_cache = [], nd_locks = [], nd_max = 3\<rparr>, sr_staged = [], sr_templates = [],
      sr_accounts = demo_accounts, sr_queue = [], sr_results = []\<rparr>"

definition demo_env :: "stage_env \<Rightarrow> push_env \<Rightarrow> memory api_env" where
  "demo_env en pe =
     \<lparr>ae_storage = memory_storage, ae_stages = en, ae_max_upload = 1000, ae_mode = Legacy, ae_tokens = demo_tokens,
      ae_idp = demo_idp, ae_push = pe\<rparr>"

definition second_fresh :: fresh where
  "second_fresh = \<lparr>fi_user = ''u2'', fi_org = ''o2'', fi_member = ''m2'', fi_service = ''s2''\<rparr>"

definition demo_principal :: principal where
  "demo_principal = \<lparr>pc_user = ''u1'', pc_email = ''ann@x.io'', pc_org = ''o1'', pc_role = ''owner'', pc_kind = User_Kind\<rparr>"

lemma demo_accounts_ok: "accounts_ok demo_accounts"
  using demo_reachable by (rule reachable_ok)

lemma demo_get_principal:
  "get_principal Legacy demo_tokens demo_idp second_fresh (Some ''Bearer u1'') None demo_accounts = (demo_accounts, Inr demo_principal)"
proof -
  have "fst (get_principal Legacy demo_tokens demo_idp second_fresh (Some ''Bearer u1'') None demo_accounts) = demo_accounts"
    "snd (get_principal Legacy demo_tokens demo_idp second_fresh (Some ''Bearer u1'') None demo_accounts) = Inr demo_principal" by code_simp+
  then show ?thesis by (simp add: prod_eq_iff)
qed

lemma second_is_fresh: "is_fresh second_fresh demo_accounts"
proof -
  have "map us_id (ac_users demo_accounts) = [''u1'']" "map og_id (ac_orgs demo_accounts) = [''o1'']" by code_simp+
  then have "us_id ` set (ac_users demo_accounts) = {''u1''}" "og_id ` set (ac_orgs demo_accounts) = {''o1''}"
    by (metis list.set(1,2) set_map)+
  then show ?thesis by (simp add: is_fresh_def second_fresh_def)
qed

theorem only_members_change_jobs_witness:
  "\<forall>en pe. \<exists>srv' r x. serve (demo_env en pe) \<lparr>cx_now = 5, cx_id = ''j1'', cx_stamp = ''''\<rparr> second_fresh (Some ''Bearer u1'') None
       (Create_Job ''ledger'') (fresh_server []) = (srv', r) \<and> fst (sr_db srv') = [x] \<and> jr_org x = ''o1'' \<and>
     (\<exists>m\<in>set (ac_members (sr_accounts srv')). mb_user m = ''u1'' \<and> mb_org m = ''o1'')"
proof (intro allI)
  fix en pe
  let ?cx = "\<lparr>cx_now = 5, cx_id = ''j1'', cx_stamp = ''''\<rparr>" and ?srv = "fresh_server [] :: memory server"
  obtain srv' r where s: "serve (demo_env en pe) ?cx second_fresh (Some ''Bearer u1'') None (Create_Job ''ledger'') ?srv = (srv', r)" by fastforce
  have ok: "server_ok ?srv" "accounts_ok (sr_accounts ?srv)" "is_fresh second_fresh (sr_accounts ?srv)" "cx_id ?cx \<notin> jr_id ` set (fst (sr_db ?srv))"
    by (simp_all add: fresh_server_def server_ok_def repo_inv_def owners_def demo_accounts_ok second_is_fresh)
  have p: "entity_param ''ledger'' = Inr LEDGER" by code_simp
  obtain x where x: "fst (sr_db srv') = [x]" "jr_org x = ''o1''"
    using s by (auto simp: serve_def demo_env_def fresh_server_def demo_get_principal p create_job_def repo_create_def demo_principal_def Let_def)
  then have "x \<in> set (fst (sr_db srv')) \<longleftrightarrow> x \<notin> set (fst (sr_db ?srv))" by (simp add: fresh_server_def)
  with only_members_change_jobs [OF ok s] obtain q m where
    q: "snd (get_principal Legacy demo_tokens demo_idp second_fresh (Some ''Bearer u1'') None demo_accounts) = Inr q"
    "m \<in> set (ac_members (sr_accounts srv'))" "mb_user m = pc_user q" "mb_org m = jr_org x"
    by (auto simp: demo_env_def fresh_server_def)
  have "q = demo_principal" using q(1) by (simp add: demo_get_principal)
  then have "mb_user m = ''u1''" using q(3) by (simp add: demo_principal_def)
  moreover have "mb_org m = ''o1''" using q(4) x(2) by simp
  ultimately show "\<exists>srv' r x. serve (demo_env en pe) ?cx second_fresh (Some ''Bearer u1'') None (Create_Job ''ledger'') ?srv = (srv', r) \<and>
      fst (sr_db srv') = [x] \<and> jr_org x = ''o1'' \<and> (\<exists>m\<in>set (ac_members (sr_accounts srv')). mb_user m = ''u1'' \<and> mb_org m = ''o1'')"
    using s x q(2) by blast
qed

section \<open>Workers stay in the organization of their task\<close>

lemma safe_apsnd: "safe_for org srv (fst s) \<Longrightarrow> safe_for org srv (fst (apsnd f s))"
  by simp

lemma fst_after [simp]: "fst (after s f) = fst s"
  by (simp add: after_def split: prod.split sum.split)

lemma safe_direct: "safe_for org srv (fst (push_direct_task env now org i gw srv))"
proof -
  let ?s = "lock_job env now org i (direct_section (ae_push env) now gw) srv"
  have s: "safe_for org srv (fst ?s)" by (intro safe_lock_job kept)
  have l: "safe_for org (fst ?s) (fst (lock_job env now org i (failure_section now x) (fst ?s)))" for x by (intro safe_lock_job kept)
  have "fst (push_direct_task env now org i gw srv) = fst ?s \<or>
      (\<exists>x. fst (push_direct_task env now org i gw srv) = fst (lock_job env now org i (failure_section now x) (fst ?s)))"
    by (cases "lock_job env now org i (direct_section (ae_push env) now gw) srv")
      (auto simp: push_direct_task_def split: sum.split exc.split)
  then show ?thesis using s safe_trans [OF s l] by auto
qed

lemma safe_relayed: "safe_for org srv (fst (push_relayed_task env now org i out srv))"
  by (auto simp: push_relayed_task_def safe_refl split: relay_outcome.split sum.split exc.split intro: safe_lock_job kept)

lemma safe_push: "safe_for org srv (fst (push_job_task env t0 t1 org i gw out srv))"
proof -
  obtain srv1 c where c: "push_claim env t0 org i srv = (srv1, c)" by fastforce
  have s: "safe_for org srv srv1" using safe_lock_job [of "claim_section t0" org srv env t0 i] c by (simp add: push_claim_def kept)
  have "safe_for org srv1 (fst (push_rest env t1 org i gw out srv1))" by (simp add: push_rest_def safe_direct safe_relayed)
  then show ?thesis using s safe_trans [OF s] c by (auto simp: push_job_task_def split: sum.split exc.split)
qed

text \<open>
  C27: A worker that runs a task changes job rows of the organization the task was put in the queue for, and
  of no other, and leaves the tables of jobs consistent, whatever the task, the transport and the answer.
\<close>

theorem tasks_stay_in_their_organization:
  assumes "server_ok srv"
  shows "server_ok (run_task env t0 t1 gw out q srv) \<and> only_org (qt_org q) srv (run_task env t0 t1 gw out q srv) \<and>
    sr_accounts (run_task env t0 t1 gw out q srv) = sr_accounts srv"
proof -
  have frame: "server_ok (s\<lparr>sr_queue := a, sr_results := b\<rparr>) = server_ok s" "only_org org srv (s\<lparr>sr_queue := a, sr_results := b\<rparr>) = only_org org srv s"
    for s :: "'a server" and a b org by (simp_all add: server_ok_def only_org_def)
  have "safe_for (qt_org q) srv (fst (case qt_call q of
              Validate_Task known \<Rightarrow> validate_task env t0 (qt_org q) (qt_job q) known srv
            | Generate_Task rq \<Rightarrow> generate_task env t0 (qt_org q) (qt_job q) rq srv
            | Push_Task \<Rightarrow> push_job_task env t0 t1 (qt_org q) (qt_job q) gw out srv))"
    by (auto simp: validate_task_def generate_task_def safe_push split: task_call.split intro: safe_lock_job kept)
  then show ?thesis using assms unfolding run_task_def by (auto simp: safe_for_def frame split: prod.split)
qed

theorem tasks_stay_in_their_organization_witness:
  "\<forall>en pe gw out.
     server_ok (run_task (demo_env en pe) 0 1 gw out \<lparr>qt_id = ''t1'', qt_org = ''o1'', qt_job = ''j1'', qt_call = Push_Task\<rparr> (fresh_server [])) \<and>
     sr_accounts (run_task (demo_env en pe) 0 1 gw out \<lparr>qt_id = ''t1'', qt_org = ''o1'', qt_job = ''j1'', qt_call = Push_Task\<rparr> (fresh_server [])) = demo_accounts"
proof (intro allI)
  fix en pe gw out
  let ?q = "\<lparr>qt_id = ''t1'', qt_org = ''o1'', qt_job = ''j1'', qt_call = Push_Task\<rparr>"
  have "server_ok (fresh_server [] :: memory server)" by (simp add: fresh_server_def server_ok_def repo_inv_def owners_def)
  from tasks_stay_in_their_organization [OF this, of "demo_env en pe" 0 1 gw out ?q]
  show "server_ok (run_task (demo_env en pe) 0 1 gw out ?q (fresh_server [])) \<and>
     sr_accounts (run_task (demo_env en pe) 0 1 gw out ?q (fresh_server [])) = demo_accounts" by (simp add: fresh_server_def)
qed

section \<open>Uploads\<close>

lemma read_capped_spec:
  "length buffer \<le> limit \<Longrightarrow> read_capped limit buffer chunks =
     (let content = buffer @ concat (takeWhile (\<lambda>c. c \<noteq> '''') chunks) in
      if length content \<le> limit then Inr content else raise_default PayloadTooLarge)"
proof (induction limit buffer chunks rule: read_capped.induct)
  case (2 limit buffer chunk chunks)
  then show ?case by (cases "chunk = ''''") (simp_all add: Let_def)
qed simp

text \<open>
  An upload is read to the end if and only if it is no longer than the limit, and then the content is
  what the chunks make up; otherwise reading stops, with the answer that it is too large.
\<close>

theorem upload_size_checked:
  "read_capped limit '''' chunks =
     (if length (concat (takeWhile (\<lambda>c. c \<noteq> '''') chunks)) \<le> limit then Inr (concat (takeWhile (\<lambda>c. c \<noteq> '''') chunks))
      else raise_default PayloadTooLarge)"
  using read_capped_spec [of "''''" limit chunks] by (simp add: Let_def)

section \<open>Names of downloads\<close>

lemma word_chars:
  "is_word CHR ''_''" "is_word CHR ''x''" "is_word CHR ''m''" "is_word CHR ''l''" "\<not> is_word CHR 0x22" "\<not> is_word CHR 0x0A"
  "\<not> is_word CHR 0x0D" "\<not> is_word CHR ''/''" "\<not> is_word CHR 0x5C"
  by code_simp+

lemma digit_is_word: "is_dec_digit c \<Longrightarrow> is_word c"
  by (simp add: is_word_def is_dec_digit_def Let_def)

lemma company_slug_chars: "c \<in> set (company_slug co) \<Longrightarrow> is_word c"
  using word_chars(1) by (auto simp: company_slug_def split: if_splits)

lemma entity_is_word: "list_all is_word (capitalize (entity_value e))"
proof -
  have "list_all (\<lambda>e. list_all is_word (capitalize (entity_value e))) [LEDGER, GROUP, STOCK_ITEM, UNIT, VOUCHER]" by code_simp
  then show ?thesis by (cases e) simp_all
qed

text \<open>
  Whatever a user calls the company, the name under which the document is offered has no quote, line
  break or path separator in it, so the header it stands in cannot be broken up.
\<close>

theorem download_name_safe:
  assumes "list_all (\<lambda>c. is_dec_digit c \<or> c = CHR ''_'') stamp" "c \<in> set (artifact_name stamp j)"
  shows "(is_word c \<or> c = CHR ''.'') \<and> c \<notin> {CHR 0x22, CHR 0x0A, CHR 0x0D, CHR ''/'', CHR 0x5C}"
proof -
  let ?P = "\<lambda>c. is_word c \<or> c = CHR ''.''"
  have "list_all ?P stamp" using assms(1) by (rule list.pred_mono_strong) (use digit_is_word word_chars(1) in blast)
  moreover have "list_all ?P (company_slug (j_company j))" using company_slug_chars by (simp add: list_all_iff)
  moreover have "list_all ?P (capitalize (entity_value (j_entity j)))" using entity_is_word by (rule list.pred_mono_strong) simp
  moreover have "list_all ?P ''_''" "list_all ?P ''.xml''" by (simp_all add: word_chars)
  ultimately have "list_all ?P (artifact_name stamp j)" unfolding artifact_name_def by (simp only: list_all_append simp_thms)
  then have w: "?P c" using assms(2) unfolding list_all_iff by (rule bspec)
  have "c \<noteq> d" if "\<not> is_word d" "d \<noteq> CHR ''.''" for d using that w by metis
  then show ?thesis using w word_chars(5-9) by simp
qed

theorem download_name_safe_witness:
  "artifact_name ''20250131_1200'' ((new_job ''j'' LEDGER 0)\<lparr>j_company := Some (''A'' @ [CHR 0x22, CHR 0x0D, CHR 0x0A] @ ''/B'')\<rparr>) =
     ''A____B_Ledger_20250131_1200.xml'' \<and>
   (\<forall>c\<in>set (artifact_name ''20250131_1200'' ((new_job ''j'' LEDGER 0)\<lparr>j_company := Some (''A'' @ [CHR 0x22, CHR 0x0D, CHR 0x0A] @ ''/B'')\<rparr>)).
      is_word c \<or> c = CHR ''.'')"
proof -
  have "list_all (\<lambda>c. is_dec_digit c \<or> c = CHR ''_'') ''20250131_1200''" by code_simp
  note safe = download_name_safe [OF this]
  have "artifact_name ''20250131_1200'' ((new_job ''j'' LEDGER 0)\<lparr>j_company := Some (''A'' @ [CHR 0x22, CHR 0x0D, CHR 0x0A] @ ''/B'')\<rparr>) =
     ''A____B_Ledger_20250131_1200.xml''" by code_simp
  then show ?thesis using safe by blast
qed

section \<open>Results of tasks\<close>

text \<open>
  The result of a task is looked up by its identifier alone: a call that names a job of the caller's own
  organization is shown the result of a task of any other.
\<close>

lemma task_results_not_scoped:
  assumes "snd (read_job env (cx_now cx) org i Inr srv) = Inr j" "map_of (sr_results srv) tid = Some (Inr x)"
  shows "snd (handle env cx org user (Task_Status i tid) srv) = Inr (Task_Answer x)"
  using assms by (simp add: get_task_status_def read_job_def task_status_def rbind_def split: prod.splits sum.splits)

end
