(* ===== verification/Tokens.thy ===== *)
theory Tokens
  imports Identity PushResponse
begin

text \<open>
  The settings in \<open>app/core/config.py\<close> that the rest depends on, and the tokens: \<open>app/core/security.py\<close>, which
  issues and checks those of the application, and \<open>app/core/oidc.py\<close>, which checks those of the identity
  provider.  The token library and the source of the provider's keys are parameters.  Times are whole seconds.
\<close>

section \<open>Settings\<close>

record config =
  cf_environment :: string
  cf_auth_mode :: string
  cf_jwt_secret :: string
  cf_jwt_minutes :: int
  cf_oidc_issuer :: string
  cf_oidc_audience :: string
  cf_oidc_jwks_url :: string
  cf_oidc_web_client_id :: string

definition dev_secret :: string where
  "dev_secret = ''dev-only-insecure-secret-change-me-via-TM_JWT_SECRET-env''"

definition check_config :: "config \<Rightarrow> config res" where
  "check_config cf =
     (if cf_environment cf = ''prod'' \<and> cf_auth_mode cf \<noteq> ''keycloak'' \<and> cf_jwt_secret cf = dev_secret then Inl ValueError
      else if cf_auth_mode cf \<notin> {''legacy'', ''hybrid'', ''keycloak''} then Inl ValueError
      else if cf_auth_mode cf \<in> {''hybrid'', ''keycloak''} \<and> cf_oidc_issuer cf = '''' then Inl ValueError
      else Inr cf)"

definition jwks_endpoint :: "config \<Rightarrow> string" where
  "jwks_endpoint cf =
     (if cf_oidc_jwks_url cf \<noteq> '''' then cf_oidc_jwks_url cf
      else rev (dropWhile (\<lambda>c. c = CHR ''/'') (rev (cf_oidc_issuer cf))) @ ''/protocol/openid-connect/certs'')"

definition mode_of :: "config \<Rightarrow> auth_mode" where
  \<comment> \<open>how a request is authenticated: anything but the first two is a mixture\<close>
  "mode_of cf = (if cf_auth_mode cf = ''legacy'' then Legacy else if cf_auth_mode cf = ''keycloak'' then Keycloak else Hybrid)"

section \<open>Passwords\<close>

datatype hash_error = VerifyMismatchError | VerificationError | InvalidHashError

definition verify_password :: "(string \<Rightarrow> string \<Rightarrow> hash_error + unit) \<Rightarrow> string \<Rightarrow> string \<Rightarrow> bool" where
  "verify_password verify password_hash password = (case verify password_hash password of Inr _ \<Rightarrow> True | Inl _ \<Rightarrow> False)"

section \<open>Tokens\<close>

text \<open>The claims a token carries; \<open>iat\<close>, \<open>exp\<close> and \<open>type\<close> beside those that identify somebody.\<close>

record payload = claims +
  pl_iat :: int
  pl_exp :: int
  pl_type :: string

record check =
  ck_algs :: "string list"
  ck_issuer :: "string option"
  ck_audience :: "string option"
  ck_required :: "string list"

record jwt_lib =
  jw_encode :: "payload \<Rightarrow> string \<Rightarrow> string"
  jw_decode :: "int \<Rightarrow> check \<Rightarrow> string \<Rightarrow> string \<Rightarrow> payload res"
  jw_alg :: "string \<Rightarrow> string option res"
  jw_signing_key :: "string \<Rightarrow> string \<Rightarrow> string res"

definition access_payload :: "config \<Rightarrow> int \<Rightarrow> string \<Rightarrow> string \<Rightarrow> int option \<Rightarrow> payload" where
  "access_payload cf now user_id email minutes =
     \<lparr>cl_sub = user_id, cl_email = Some email, cl_verified = False, cl_name = None, cl_azp = None, cl_client_id = None,
      pl_iat = now, pl_exp = now + 60 * (case minutes of Some m \<Rightarrow> if m \<noteq> 0 then m else cf_jwt_minutes cf | None \<Rightarrow> cf_jwt_minutes cf),
      pl_type = ''access''\<rparr>"

definition create_access_token :: "jwt_lib \<Rightarrow> config \<Rightarrow> int \<Rightarrow> string \<Rightarrow> string \<Rightarrow> int option \<Rightarrow> string" where
  \<comment> \<open>signed with HS256\<close>
  "create_access_token jl cf now user_id email minutes = jw_encode jl (access_payload cf now user_id email minutes) (cf_jwt_secret cf)"

definition local_check :: check where
  "local_check = \<lparr>ck_algs = [''HS256''], ck_issuer = None, ck_audience = None, ck_required = [''exp'', ''sub'']\<rparr>"

definition decode_token :: "jwt_lib \<Rightarrow> config \<Rightarrow> int \<Rightarrow> string \<Rightarrow> payload res" where
  "decode_token jl cf now token = jw_decode jl now local_check (cf_jwt_secret cf) token"

definition oidc_check :: "config \<Rightarrow> check" where
  "oidc_check cf =
     \<lparr>ck_algs = [''RS256'', ''ES256''], ck_issuer = Some (cf_oidc_issuer cf), ck_audience = Some (cf_oidc_audience cf),
      ck_required = [''exp'', ''sub'', ''iss'', ''aud'']\<rparr>"

definition decode_oidc_token :: "jwt_lib \<Rightarrow> config \<Rightarrow> int \<Rightarrow> string \<Rightarrow> payload res" where
  "decode_oidc_token jl cf now token =
     rbind (jw_signing_key jl (jwks_endpoint cf) token) (\<lambda>key. jw_decode jl now (oidc_check cf) key token)"

definition token_algorithm :: "jwt_lib \<Rightarrow> string \<Rightarrow> string res" where
  "token_algorithm jl token = rbind (jw_alg jl token) (\<lambda>a. Inr (case a of None \<Rightarrow> '''' | Some s \<Rightarrow> s))"

text \<open>What the services and the principal of a request use of this.\<close>

definition issuer :: "jwt_lib \<Rightarrow> config \<Rightarrow> int \<Rightarrow> crypto \<Rightarrow> crypto" where
  "issuer jl cf now cr = cr\<lparr>cr_token := (\<lambda>user_id email. create_access_token jl cf now user_id email None)\<rparr>"

definition verifier :: "jwt_lib \<Rightarrow> config \<Rightarrow> int \<Rightarrow> token_env" where
  "verifier jl cf now =
     \<lparr>te_decode = (\<lambda>t. rbind (decode_token jl cf now t) (\<lambda>p. Inr (claims.truncate p))),
      te_decode_oidc = (\<lambda>t. rbind (decode_oidc_token jl cf now t) (\<lambda>p. Inr (claims.truncate p))),
      te_algorithm = token_algorithm jl\<rparr>"

definition authenticate ::
    "jwt_lib \<Rightarrow> config \<Rightarrow> int \<Rightarrow> idp_settings \<Rightarrow> fresh \<Rightarrow> string option \<Rightarrow> string option \<Rightarrow> accounts \<Rightarrow> accounts \<times> principal res" where
  "authenticate jl cf now st fi authorization org ac =
     get_principal (mode_of cf) (verifier jl cf now) st fi authorization org ac"

section \<open>From sign-up to the first request\<close>

definition honours :: "jwt_lib \<Rightarrow> payload \<Rightarrow> string \<Rightarrow> bool" where
  \<comment> \<open>what the library promises of a token: no blanks, the header of its algorithm, accepted with its key from its issue to its expiry\<close>
  "honours jl p secret \<longleftrightarrow>
     (let t = jw_encode jl p secret in
      strip t = t \<and> jw_alg jl t = Inr (Some ''HS256'') \<and>
      (\<forall>now. jw_decode jl now local_check secret t = (if pl_iat p \<le> now \<and> now < pl_exp p then Inr p else Inl PyJWTError)))"

lemma bearer_prefix: "starts_with ''bearer '' (lower (''Bearer '' @ t))" "drop 7 (''Bearer '' @ t) = t" "truthy (Some (''Bearer '' @ t))"
proof -
  have "lower ''Bearer '' = ''bearer ''" by code_simp
  then have "lower (''Bearer '' @ t) = ''bearer '' @ lower t" by (simp only: lower_def map_append)
  then show "starts_with ''bearer '' (lower (''Bearer '' @ t))" by (simp only: starts_with_def) simp
qed (simp_all add: truthy_def)

definition refused_tokens :: "accounts \<times> principal res \<Rightarrow> accounts \<times> principal res" where
  "refused_tokens r = (case r of (ac, Inl PyJWTError) \<Rightarrow> (ac, raise_default Unauthorized) | _ \<Rightarrow> r)"

lemma local_route:
  assumes "truthy (Some a)" "starts_with ''bearer '' (lower a)" "strip (drop 7 a) = t"
    and "mode = Legacy \<or> mode = Hybrid \<and> te_algorithm te t = Inr alg \<and> starts_with ''HS'' alg"
  shows "get_principal mode te st fi (Some a) org ac = refused_tokens (decoded (te_decode te t) (\<lambda>cl. legacy_principal cl org ac) ac)"
  using assms(4) unfolding get_principal_def option.sel assms(3) refused_tokens_def
  by (elim disjE conjE) (simp_all add: assms(1,2) Let_def)

lemma authenticate_local:
  assumes "honours jl p (cf_jwt_secret cf)" "cf_auth_mode cf \<noteq> ''keycloak''"
  defines "t \<equiv> jw_encode jl p (cf_jwt_secret cf)"
  shows "authenticate jl cf now st fi (Some (''Bearer '' @ t)) org ac =
    (if pl_iat p \<le> now \<and> now < pl_exp p then refused_tokens (legacy_principal (claims.truncate p) org ac)
     else (ac, raise_default Unauthorized))"
proof -
  have h: "strip t = t" "token_algorithm jl t = Inr ''HS256''"
      "decode_token jl cf now t = (if pl_iat p \<le> now \<and> now < pl_exp p then Inr p else Inl PyJWTError)"
    using assms(1) by (simp_all add: honours_def t_def token_algorithm_def decode_token_def Let_def)
  have "mode_of cf = Legacy \<or> mode_of cf = Hybrid" using assms(2) by (simp add: mode_of_def)
  then have m: "mode_of cf = Legacy \<or> mode_of cf = Hybrid \<and> te_algorithm (verifier jl cf now) t = Inr ''HS256'' \<and> starts_with ''HS'' ''HS256''"
    using h(2) by (auto simp: verifier_def starts_with_def)
  have r: "strip (drop 7 (''Bearer '' @ t)) = t" unfolding bearer_prefix h(1) ..
  have "decoded (te_decode (verifier jl cf now) t) f ac =
      (if pl_iat p \<le> now \<and> now < pl_exp p then f (claims.truncate p) else (ac, Inl PyJWTError))" for f :: "claims \<Rightarrow> accounts \<times> principal res"
    by (simp add: verifier_def h(3) decoded_def)
  then show ?thesis
    unfolding authenticate_def local_route [OF bearer_prefix(3,1) r m]
    by (cases "pl_iat p \<le> now"; cases "now < pl_exp p") (simp_all add: refused_tokens_def)
qed

lemma member_elsewhere_none:
  assumes "members_ok ac" "i \<notin> us_id ` set (ac_users ac)"
  shows "filter (\<lambda>m. mb_user m = i) (ac_members ac) = []"
  using assms unfolding members_ok_def filter_empty_conv by metis

text \<open>
  C10: Whoever signs up gets a token that works: from the moment it is issued until it expires, a request
  that carries it acts as the new user, as the owner of the new organization, also when it names that
  organization, and in no other organization; from its expiry on it is refused as not authenticated.
\<close>

theorem sign_up_then_act:
  fixes st :: idp_settings and fi' :: fresh
  assumes "accounts_ok ac" "is_fresh fi ac" "cf_auth_mode cf \<noteq> ''keycloak''" "fi_org fi \<noteq> ''''"
    and "signup (issuer jl cf issued cr) fi email pw name org_name ac = (ac', Inr t)"
    and "honours jl (access_payload cf issued (fi_user fi) (norm_email email) None) (cf_jwt_secret cf)"
  defines "request \<equiv> \<lambda>now org. authenticate jl cf now st fi' (Some (''Bearer '' @ tr_token t)) org ac'"
    and "owner \<equiv> \<lparr>pc_user = fi_user fi, pc_email = norm_email email, pc_org = fi_org fi, pc_role = ''owner'', pc_kind = User_Kind\<rparr>"
  shows "(issued \<le> now \<and> now < issued + 60 * cf_jwt_minutes cf \<longrightarrow>
      request now None = (ac', Inr owner) \<and> request now (Some (fi_org fi)) = (ac', Inr owner) \<and>
      (\<forall>other. other \<noteq> '''' \<and> other \<noteq> fi_org fi \<longrightarrow> request now (Some other) = (ac', raise_app Forbidden ''not_a_member''))) \<and>
    (issued + 60 * cf_jwt_minutes cf \<le> now \<longrightarrow> request now org = (ac', raise_default Unauthorized))"
proof -
  let ?p = "access_payload cf issued (fi_user fi) (norm_email email) None"
  let ?u = "\<lparr>us_id = fi_user fi, us_email = norm_email email, us_hash = Some (cr_hash cr pw), us_name = name, us_sub = None\<rparr>"
  let ?m = "\<lparr>mb_id = fi_member fi, mb_org = fi_org fi, mb_user = fi_user fi, mb_role = ''owner''\<rparr>"
  have ac': "ac_users ac' = ac_users ac @ [?u]" "ac_members ac' = ac_members ac @ [?m]"
      "tr_token t = jw_encode jl ?p (cf_jwt_secret cf)"
    using assms(5) by (auto simp: signup_def Let_def raise_app_def add_with_org_def issuer_def create_access_token_def split: if_splits)
  have p: "pl_iat ?p = issued" "pl_exp ?p = issued + 60 * cf_jwt_minutes cf" "cl_sub (claims.truncate ?p) = fi_user fi"
      "cl_email (claims.truncate ?p) = Some (norm_email email)"
    by (simp_all add: access_payload_def claims.truncate_def)
  note act = authenticate_local [OF assms(6,3), folded ac'(3), unfolded p(1,2)]
  have "fi_user fi \<notin> us_id ` set (ac_users ac)" using assms(2) by (simp add: is_fresh_def)
  then have none: "filter (\<lambda>m. mb_user m = fi_user fi) (ac_members ac) = []" and nobody: "find (\<lambda>u. us_id u = fi_user fi) (ac_users ac) = None"
    using assms(1) by (simp_all add: member_elsewhere_none accounts_ok_def find_none) (metis image_eqI)
  have user: "user_by_id ac' (fi_user fi) = Some ?u"
    using find_append_one [OF nobody, of ?u] by (simp add: user_by_id_def ac'(1))
  have found: "find (\<lambda>m. mb_user m = fi_user fi \<and> mb_org m = other) (ac_members ac') = (if other = fi_org fi then Some ?m else None)" for other
    using find_append_one [of "\<lambda>m. mb_user m = fi_user fi \<and> mb_org m = other" "ac_members ac" ?m]
    using none by (auto simp: ac'(2) find_none filter_empty_conv)
  have resolve: "resolve_org_for_user (fi_user fi) None ac' = Inr (fi_org fi, ''owner'')"
      "resolve_org_for_user (fi_user fi) (Some (fi_org fi)) ac' = Inr (fi_org fi, ''owner'')"
      "other \<noteq> '''' \<Longrightarrow> other \<noteq> fi_org fi \<Longrightarrow> resolve_org_for_user (fi_user fi) (Some other) ac' = raise_app Forbidden ''not_a_member''" for other
    using assms(4) user none found by (simp_all add: resolve_org_for_user_def truthy_def ac'(2))
  show ?thesis
    unfolding request_def act by (auto simp: legacy_principal_def p(3,4) resolve refused_tokens_def raise_app_def owner_def)
qed

text \<open>A small token library, and the settings of a server that uses it.\<close>

definition demo_jwt :: jwt_lib where
  "demo_jwt =
     \<lparr>jw_encode = (\<lambda>p s. s @ '':'' @ cl_sub p @ '':'' @ (case cl_email p of None \<Rightarrow> '''' | Some e \<Rightarrow> e) @ '':'' @
                          nat_str (nat (pl_iat p)) @ '':'' @ nat_str (nat (pl_exp p))),
      jw_decode = (\<lambda>now ck key t.
        if ''HS256'' \<notin> set (ck_algs ck) then Inl PyJWTError
        else (case split_on CHR '':'' t of
           [s, sub, email, iat, ex] \<Rightarrow>
             (case (int_of_text iat, int_of_text ex) of
                (Some a, Some b) \<Rightarrow>
                  if s = key \<and> a \<le> now \<and> now < b
                  then Inr \<lparr>cl_sub = sub, cl_email = Some email, cl_verified = False, cl_name = None, cl_azp = None, cl_client_id = None,
                            pl_iat = a, pl_exp = b, pl_type = ''access''\<rparr>
                  else Inl PyJWTError
              | _ \<Rightarrow> Inl PyJWTError)
         | _ \<Rightarrow> Inl PyJWTError)),
      jw_alg = (\<lambda>t. Inr (Some ''HS256'')), jw_signing_key = (\<lambda>url t. Inl PyJWTError)\<rparr>"

definition demo_config :: config where
  "demo_config = \<lparr>cf_environment = ''dev'', cf_auth_mode = ''legacy'', cf_jwt_secret = ''k'', cf_jwt_minutes = 1440, cf_oidc_issuer = '''',
                  cf_oidc_audience = ''api'', cf_oidc_jwks_url = '''', cf_oidc_web_client_id = ''web''\<rparr>"

lemma demo_honours: "honours demo_jwt (access_payload demo_config 100 ''u1'' ''ann@x.io'' None) ''k''"
proof -
  let ?p = "access_payload demo_config 100 ''u1'' ''ann@x.io'' None"
  have "jw_encode demo_jwt ?p ''k'' = ''k:u1:ann@x.io:100:86500''" by code_simp
  moreover have "split_on CHR '':'' ''k:u1:ann@x.io:100:86500'' = [''k'', ''u1'', ''ann@x.io'', ''100'', ''86500'']"
    "int_of_text ''100'' = Some 100" "int_of_text ''86500'' = Some 86500" "strip ''k:u1:ann@x.io:100:86500'' = ''k:u1:ann@x.io:100:86500''"
    by code_simp+
  ultimately show ?thesis by (simp add: honours_def demo_jwt_def local_check_def access_payload_def demo_config_def)
qed

theorem sign_up_then_act_witness:
  "\<exists>ac' t. signup (issuer demo_jwt demo_config 100 demo_crypto) demo_fresh ''ann@x.io'' ''password'' None None no_accounts = (ac', Inr t) \<and>
     authenticate demo_jwt demo_config 200 demo_idp demo_fresh (Some (''Bearer '' @ tr_token t)) None ac' =
       (ac', Inr \<lparr>pc_user = ''u1'', pc_email = ''ann@x.io'', pc_org = ''o1'', pc_role = ''owner'', pc_kind = User_Kind\<rparr>) \<and>
     authenticate demo_jwt demo_config 86500 demo_idp demo_fresh (Some (''Bearer '' @ tr_token t)) None ac' = (ac', raise_default Unauthorized)"
proof -
  let ?s = "signup (issuer demo_jwt demo_config 100 demo_crypto) demo_fresh ''ann@x.io'' ''password'' None None no_accounts"
  have "\<not> isl (snd ?s)" by code_simp
  from returned [OF this] obtain ac' t where s: "?s = (ac', Inr t)" by blast
  have e: "norm_email ''ann@x.io'' = ''ann@x.io''" by code_simp
  have f: "is_fresh demo_fresh no_accounts" by (simp add: is_fresh_def no_accounts_def)
  have h: "honours demo_jwt (access_payload demo_config 100 (fi_user demo_fresh) (norm_email ''ann@x.io'') None) (cf_jwt_secret demo_config)"
    using demo_honours unfolding e by (simp add: demo_fresh_def demo_config_def)
  have c: "cf_auth_mode demo_config \<noteq> ''keycloak''" "fi_org demo_fresh \<noteq> ''''" by (simp_all add: demo_config_def demo_fresh_def)
  note act = sign_up_then_act [OF no_accounts_ok f c s h, unfolded e]
  show ?thesis
    using s act [of 200 demo_idp demo_fresh None] act [of 86500 demo_idp demo_fresh None] by (simp add: demo_config_def demo_fresh_def)
qed

section \<open>Which tokens are accepted\<close>

definition checks_algorithm :: "jwt_lib \<Rightarrow> bool" where
  \<comment> \<open>the library decodes a token only when its header has one of the algorithms it is told to accept\<close>
  "checks_algorithm jl \<longleftrightarrow>
     (\<forall>now ck key t p. jw_decode jl now ck key t = Inr p \<longrightarrow> (\<exists>a\<in>set (ck_algs ck). jw_alg jl t = Inr (Some a)))"

lemma checks_algorithmD:
  "checks_algorithm jl \<Longrightarrow> jw_decode jl now ck key t = Inr p \<Longrightarrow> \<exists>a\<in>set (ck_algs ck). jw_alg jl t = Inr (Some a)"
  unfolding checks_algorithm_def by blast

lemma decoded_Inr: "decoded r f ac = (ac', Inr p) \<Longrightarrow> \<exists>cl. r = Inr cl \<and> f cl = (ac', Inr p)"
  by (auto simp: decoded_def split: sum.splits)

lemma refused_tokens_Inr: "refused_tokens r = (ac', Inr p) \<Longrightarrow> r = (ac', Inr p)"
  by (auto simp: refused_tokens_def raise_default_def split: prod.splits sum.splits exc.splits)

lemma get_principal_routes:
  assumes "get_principal mode te st fi authorization org ac = (ac', Inr p)"
  obtains a where "authorization = Some a" "starts_with ''bearer '' (lower a)" "mode \<noteq> Keycloak"
      "decoded (te_decode te (strip (drop 7 a))) (\<lambda>cl. legacy_principal cl org ac) ac = (ac', Inr p)"
  | a where "authorization = Some a" "starts_with ''bearer '' (lower a)" "mode \<noteq> Legacy"
      "decoded (te_decode_oidc te (strip (drop 7 a))) (\<lambda>cl. oidc_principal st fi cl org ac) ac = (ac', Inr p)"
proof -
  from assms obtain a where a: "authorization = Some a" "starts_with ''bearer '' (lower a)" "truthy (Some a)"
    by (cases authorization) (auto simp: get_principal_def truthy_def raise_default_def split: if_splits)
  let ?t = "strip (drop 7 a)"
  let ?l = "decoded (te_decode te ?t) (\<lambda>cl. legacy_principal cl org ac) ac"
  let ?o = "decoded (te_decode_oidc te ?t) (\<lambda>cl. oidc_principal st fi cl org ac) ac"
  let ?r = "case mode of Legacy \<Rightarrow> ?l | Keycloak \<Rightarrow> ?o
      | Hybrid \<Rightarrow> (case te_algorithm te ?t of Inl e \<Rightarrow> (ac, Inl e) | Inr alg \<Rightarrow> if starts_with ''HS'' alg then ?l else ?o)"
  have "get_principal mode te st fi authorization org ac = refused_tokens ?r"
    unfolding get_principal_def refused_tokens_def a(1) option.sel by (simp only: a(2,3) Let_def simp_thms if_False)
  note r = refused_tokens_Inr [OF trans [OF this [symmetric] assms]]
  show ?thesis
  proof (cases mode)
    case Legacy
    then show ?thesis using that(1) [OF a(1,2)] r by simp
  next
    case Keycloak
    then show ?thesis using that(2) [OF a(1,2)] r by simp
  next
    case Hybrid
    then obtain alg where "te_algorithm te ?t = Inr alg" using r by (cases "te_algorithm te ?t") simp_all
    then show ?thesis using that [OF a(1,2)] r Hybrid by (cases "starts_with ''HS'' alg") simp_all
  qed
qed



end
