(* ===== verification/Endpoints.thy ===== *)
theory Endpoints
  imports Api Tokens
begin

text \<open>
  The endpoints for accounts and bridges, \<open>app/api/routers/auth.py\<close> and \<open>app/api/routers/bridge.py\<close>, with the
  socket of a bridge from its key to the registry and the keys all processes share; and the guard of the body
  size in \<open>app/main.py\<close>.
\<close>

section \<open>Bodies\<close>

text \<open>A body that says it is too long is refused before it is read; a length that is no number is ignored.\<close>

definition length_guard :: "nat \<Rightarrow> string option \<Rightarrow> problem option" where
  "length_guard limit content_length =
     (if truthy content_length
      then (case int_of_text (strip (the content_length)) of
              None \<Rightarrow> None
            | Some n \<Rightarrow> if int limit < n then Some \<lparr>p_status = 413, p_code = ''file_too_large'', p_errors = []\<rparr> else None)
      else None)"

section \<open>Accounts\<close>

record auth_config =
  au_mode :: string
  au_issuer :: "string option"
  au_client_id :: "string option"

definition auth_config_of :: "config \<Rightarrow> auth_config" where
  "auth_config_of cf =
     (let oidc = cf_auth_mode cf \<in> {''hybrid'', ''keycloak''} in
      \<lparr>au_mode = cf_auth_mode cf, au_issuer = (if oidc then Some (cf_oidc_issuer cf) else None),
       au_client_id = (if oidc then Some (cf_oidc_web_client_id cf) else None)\<rparr>)"

definition require_password_auth :: "config \<Rightarrow> unit res" where
  "require_password_auth cf = (if cf_auth_mode cf = ''keycloak'' then raise_app Forbidden ''password_auth_disabled'' else Inr ())"

record client =
  cl_header :: string
  cl_host :: "string option"

definition post_signup ::
    "config \<Rightarrow> limit_settings \<Rightarrow> crypto \<Rightarrow> fresh \<Rightarrow> rat \<Rightarrow> client \<Rightarrow> string \<Rightarrow> string \<Rightarrow> string option \<Rightarrow> string option \<Rightarrow>
     limiter \<times> accounts \<Rightarrow> (limiter \<times> accounts) \<times> token_response res" where
  "post_signup cf ls cr fi now c email password full_name org_name s =
     (case auth_rate_limit ls now (cl_header c) (cl_host c) (fst s) of
        (lm, Inl e) \<Rightarrow> ((lm, snd s), Inl e)
      | (lm, Inr _) \<Rightarrow>
          (case require_password_auth cf of
             Inl e \<Rightarrow> ((lm, snd s), Inl e)
           | Inr _ \<Rightarrow> (case signup cr fi email password full_name org_name (snd s) of (ac, r) \<Rightarrow> ((lm, ac), r))))"

definition post_login ::
    "config \<Rightarrow> limit_settings \<Rightarrow> crypto \<Rightarrow> rat \<Rightarrow> client \<Rightarrow> string \<Rightarrow> string \<Rightarrow> limiter \<times> accounts \<Rightarrow> limiter \<times> token_response res" where
  "post_login cf ls cr now c email password s =
     (case auth_rate_limit ls now (cl_header c) (cl_host c) (fst s) of
        (lm, Inl e) \<Rightarrow> (lm, Inl e)
      | (lm, Inr _) \<Rightarrow> (lm, rbind (require_password_auth cf) (\<lambda>_. login cr email password (snd s))))"

definition get_me :: "principal \<Rightarrow> accounts \<Rightarrow> user_response res" where
  "get_me p ac = get_user_response (pc_user p) ac"

text \<open>A body whose fields break the limits of the schema is refused; what the schema library says of them is left out.\<close>

definition request_validation_error :: problem where
  "request_validation_error = \<lparr>p_status = 422, p_code = ''request_validation_error'', p_errors = []\<rparr>"

definition answered :: "'a res \<Rightarrow> problem + 'a" where
  "answered r = (case r of Inr x \<Rightarrow> Inr x | Inl (AppErr a) \<Rightarrow> Inl (to_problem a) | Inl e \<Rightarrow> Inl internal_error)"

definition service_body_ok :: "string \<Rightarrow> string option \<Rightarrow> bool" where
  "service_body_ok client_id name \<longleftrightarrow>
     2 \<le> length client_id \<and> length client_id \<le> 255 \<and> (case name of None \<Rightarrow> True | Some n \<Rightarrow> length n \<le> 200)"

definition post_service_account ::
    "idp_settings \<Rightarrow> fresh \<Rightarrow> principal \<Rightarrow> string \<Rightarrow> string option \<Rightarrow> string \<Rightarrow> accounts \<Rightarrow> accounts \<times> (problem + service_answer)" where
  "post_service_account st fi p client_id name role ac =
     (if \<not> service_body_ok client_id name then (ac, Inl request_validation_error)
      else apsnd answered (register_service_account st fi (pc_org p) (pc_role p) client_id name role ac))"

section \<open>Bridges\<close>

record bridge_answer =
  ba_id :: string
  ba_name :: "string option"
  ba_key :: string
  ba_online :: bool

definition post_bridge :: "crypto \<Rightarrow> string \<Rightarrow> string \<Rightarrow> principal \<Rightarrow> string option \<Rightarrow> accounts \<Rightarrow> accounts \<times> bridge_answer res" where
  "post_bridge cr raw_key i p name ac =
     (if pc_role p \<notin> {''owner'', ''admin''} then (ac, raise_app Forbidden ''forbidden'')
      else case create_bridge cr raw_key i (pc_org p) name ac of
          (ac', (bid, key)) \<Rightarrow> (ac', Inr \<lparr>ba_id = bid, ba_name = name, ba_key = key, ba_online = False\<rparr>))"

definition bridge_status :: "int \<Rightarrow> principal \<Rightarrow> registry \<Rightarrow> keys_store option \<Rightarrow> bool \<times> string option" where
  "bridge_status now p rg ks = (is_online_anywhere now (pc_org p) rg ks, company_guid (pc_org p) rg)"

definition extract_key :: "string \<Rightarrow> string option \<Rightarrow> string option" where
  \<comment> \<open>the header, empty when absent, and the parameter of the query\<close>
  "extract_key header query =
     (if starts_with ''bearer '' (lower header)
      then (let k = strip (drop 7 header) in if k = '''' then None else Some k)
      else query)"

text \<open>The socket of a bridge: what opening it, a frame and its end do to one process and the keys all share.\<close>

record endpoint_state =
  es_accounts :: accounts
  es_registry :: registry
  es_keys :: "keys_store option"

record session =
  se_org :: string
  se_bridge :: string
  se_socket :: nat

definition ws_open ::
    "crypto \<Rightarrow> int \<Rightarrow> string \<Rightarrow> string option \<Rightarrow> nat \<Rightarrow> endpoint_state \<Rightarrow> endpoint_state \<times> session option" where
  \<comment> \<open>none when the socket is closed as not authenticated\<close>
  "ws_open cr now header query socket es =
     (case authenticate_bridge cr (extract_key header query) (es_accounts es) of
        None \<Rightarrow> (es, None)
      | Some (org, bid) \<Rightarrow>
          (es\<lparr>es_registry := connect org bid socket (es_registry es),
              es_keys := map_option (presence_connected now org) (es_keys es),
              es_accounts := touch_last_seen now bid (es_accounts es)\<rparr>,
           Some \<lparr>se_org = org, se_bridge = bid, se_socket = socket\<rparr>))"

definition ws_frame :: "int \<Rightarrow> session \<Rightarrow> frame_in \<Rightarrow> endpoint_state \<Rightarrow> endpoint_state" where
  "ws_frame now se fr es =
     (let es1 = es\<lparr>es_registry := on_frame (se_org se) fr (es_registry es)\<rparr> in
      if get_field fr ''type'' None = Some ''heartbeat''
      then es1\<lparr>es_keys := map_option (presence_connected now (se_org se)) (es_keys es1)\<rparr> else es1)"

definition ws_close :: "session \<Rightarrow> endpoint_state \<Rightarrow> endpoint_state" where
  "ws_close se es =
     (let rg = disconnect (se_org se) (se_socket se) (es_registry es) in
      es\<lparr>es_registry := rg,
         es_keys := (if is_online (se_org se) rg then es_keys es else map_option (presence_disconnected (se_org se)) (es_keys es))\<rparr>)"

section \<open>Guessing of passwords is slowed down\<close>

datatype password_call =
    Sign_Up fresh string string "string option" "string option"
  | Log_In string string

fun password_step ::
    "config \<Rightarrow> limit_settings \<Rightarrow> crypto \<Rightarrow> rat \<Rightarrow> client \<Rightarrow> password_call \<Rightarrow> limiter \<times> accounts \<Rightarrow>
     (limiter \<times> accounts) \<times> token_response res" where
  "password_step cf ls cr now c (Sign_Up fi email password full_name org_name) s =
     post_signup cf ls cr fi now c email password full_name org_name s"
| "password_step cf ls cr now c (Log_In email password) s =
     (case post_login cf ls cr now c email password s of (lm, r) \<Rightarrow> ((lm, snd s), r))"

fun password_run ::
    "config \<Rightarrow> limit_settings \<Rightarrow> crypto \<Rightarrow> (rat \<times> client \<times> password_call) list \<Rightarrow> limiter \<times> accounts \<Rightarrow> token_response res list" where
  "password_run cf ls cr [] s = []"
| "password_run cf ls cr ((now, c, call) # cs) s =
     (case password_step cf ls cr now c call s of (s', r) \<Rightarrow> r # password_run cf ls cr cs s')"

definition held_off :: "'a res \<Rightarrow> bool" where
  "held_off r \<longleftrightarrow> (case r of Inl (AppErr a) \<Rightarrow> a_class a = TooManyRequests | _ \<Rightarrow> False)"

definition counted_as :: "limit_settings \<Rightarrow> client \<Rightarrow> string" where
  "counted_as ls c = ''auth:'' @ client_ip ls (cl_header c) (cl_host c)"

lemma class_new [simp]: "a_class (app_error_new cls code es) = cls"
  by (simp add: app_error_new_def)

lemma held_off_raise [simp]:
  "held_off (raise_app cls code) \<longleftrightarrow> cls = TooManyRequests" "held_off (raise_default cls) \<longleftrightarrow> cls = TooManyRequests"
  "\<not> held_off (Inr x)"
  by (simp_all add: held_off_def raise_app_def raise_default_def)

lemma services_hold_nobody_off:
  "\<not> held_off (snd (signup cr fi email pw name org ac))" "\<not> held_off (login cr email pw ac)"
  "\<not> held_off (rbind (require_password_auth cf) (\<lambda>_. login cr email pw ac))"
proof -
  show a: "\<not> held_off (snd (signup cr fi email pw name org ac))" by (simp add: signup_def Let_def)
  show b: "\<not> held_off (login cr email pw ac)" by (simp add: login_def split: option.splits)
  show "\<not> held_off (rbind (require_password_auth cf) (\<lambda>_. login cr email pw ac))"
    using b by (simp add: require_password_auth_def raise_app_def held_off_def)
qed

lemma password_step_limit:
  assumes "parse_spec (ls_spec ls) = Some (limit, window)"
    and "check_hit limit window now (counted_as ls c) lm = (lm', b)"
    and "password_step cf ls cr now c call (lm, ac) = (s', r)"
  shows "fst s' = lm' \<and> (held_off r \<longleftrightarrow> \<not> b)"
proof -
  have l: "auth_rate_limit ls now (cl_header c) (cl_host c) lm = (lm', if b then Inr () else raise_default TooManyRequests)"
    using assms(1,2) by (simp add: auth_rate_limit_def counted_as_def)
  show ?thesis
  proof (cases call)
    case (Sign_Up fi email pw name org)
    have "\<not> held_off (snd (signup cr fi email pw name org ac))" by (rule services_hold_nobody_off)
    then show ?thesis using assms(3) Sign_Up l
      by (auto simp: post_signup_def raise_default_def require_password_auth_def raise_app_def held_off_def split: prod.splits if_splits)
  next
    case (Log_In email pw)
    then show ?thesis using assms(3) l services_hold_nobody_off(3)
      by (auto simp: post_login_def raise_default_def held_off_def split: if_splits)
  qed
qed

lemma password_run_limited:
  assumes "parse_spec (ls_spec ls) = Some (limit, window)"
  shows "map (\<lambda>r. \<not> held_off r) (password_run cf ls cr cs (lm, ac)) =
    limited limit window (map (\<lambda>(t, c, _). (t, counted_as ls c)) cs) lm"
proof (induction cs arbitrary: lm ac)
  case (Cons x cs)
  obtain t c call where x: "x = (t, c, call)" by (cases x) auto
  obtain lm' b where h: "check_hit limit window t (counted_as ls c) lm = (lm', b)" by fastforce
  obtain s' r where s: "password_step cf ls cr t c call (lm, ac) = (s', r)" by fastforce
  obtain ac' where s': "s' = (lm', ac')" "held_off r \<longleftrightarrow> \<not> b"
    using password_step_limit [OF assms h s] by (metis prod.collapse)
  then show ?case using Cons.IH [of lm' ac'] by (simp add: x h s)
qed simp

lemma length_password_run: "length (password_run cf ls cr cs s) = length cs"
  by (induction cs arbitrary: s) (auto split: prod.split)

lemma accepted_calls:
  assumes "length rs = length cs"
  shows "in_window window a (''auth:'' @ ip) (accepted (map (\<lambda>(t, c, _). (t, counted_as ls c)) cs) (map (\<lambda>r. \<not> held_off r) rs)) =
    length (filter (\<lambda>((t, c, call), r). client_ip ls (cl_header c) (cl_host c) = ip \<and> a \<le> t \<and> t \<le> a + of_nat window \<and> \<not> held_off r)
      (zip cs rs))"
  using assms by (induction rs cs rule: list_induct2) (auto simp: in_window_def accepted_def counted_as_def)

text \<open>
  C20: However sign-ups and logins are mixed, no more than the configured number of them from one address get
  past the limit in any window of time, wherever it begins; the rest are answered as too many requests and
  never reach a password.
\<close>

theorem password_tries_bounded:
  assumes "parse_spec (ls_spec ls) = Some (limit, window)" "sorted (map fst cs)"
  shows "length (filter (\<lambda>((t, c, call), r). client_ip ls (cl_header c) (cl_host c) = ip \<and> a \<le> t \<and> t \<le> a + of_nat window \<and> \<not> held_off r)
      (zip cs (password_run cf ls cr cs (\<lambda>k. [], ac)))) \<le> limit"
proof -
  let ?rs = "map (\<lambda>(t, c, _). (t, counted_as ls c)) cs" and ?run = "password_run cf ls cr cs (\<lambda>k. [], ac)"
  have m: "map fst ?rs = map fst cs" by (induction cs) auto
  have "sorted (map fst ?rs)" unfolding m by (rule assms(2))
  then have in_window: "in_window window a (''auth:'' @ ip) (accepted ?rs (limited limit window ?rs (\<lambda>k. []))) \<le> limit"
    by (rule limited_from_start(2))
  have "limited limit window ?rs (\<lambda>k. []) = map (\<lambda>r. \<not> held_off r) ?run"
    by (rule password_run_limited [OF assms(1), symmetric])
  with in_window show ?thesis by (simp only: accepted_calls [OF length_password_run])
qed

definition demo_limit :: limit_settings where
  "demo_limit = \<lparr>ls_spec = ''2/minute'', ls_trust_forwarded = False, ls_depth = 1\<rparr>"

definition guesses :: "(rat \<times> client \<times> password_call) list" where
  "guesses = map (\<lambda>(t, p). (t, \<lparr>cl_header = '''', cl_host = Some ''10.0.0.1''\<rparr>, Log_In ''ann@x.io'' p))
     [(0, ''a''), (10, ''b''), (20, ''password''), (61, ''password'')]"

theorem password_tries_bounded_witness:
  "map held_off (password_run demo_config demo_limit demo_crypto guesses (\<lambda>k. [], demo_accounts)) = [False, False, True, False] \<and>
   length (filter (\<lambda>((t, c, call), r). client_ip demo_limit (cl_header c) (cl_host c) = ''10.0.0.1'' \<and> 0 \<le> t \<and> t \<le> 0 + of_nat 60 \<and> \<not> held_off r)
      (zip guesses (password_run demo_config demo_limit demo_crypto guesses (\<lambda>k. [], demo_accounts)))) \<le> 2"
proof -
  have "parse_spec (ls_spec demo_limit) = Some (2, 60)" by code_simp
  moreover have "sorted (map fst guesses)" by (simp add: guesses_def)
  ultimately have "length (filter (\<lambda>((t, c, call), r). client_ip demo_limit (cl_header c) (cl_host c) = ''10.0.0.1'' \<and> 0 \<le> t \<and> t \<le> 0 + of_nat 60 \<and> \<not> held_off r)
      (zip guesses (password_run demo_config demo_limit demo_crypto guesses (\<lambda>k. [], demo_accounts)))) \<le> 2"
    by (rule password_tries_bounded)
  moreover have "map held_off (password_run demo_config demo_limit demo_crypto guesses (\<lambda>k. [], demo_accounts)) = [False, False, True, False]"
    by code_simp
  ultimately show ?thesis by blast
qed

section \<open>Who is online\<close>

text \<open>
  The processes of the API, their sockets, and the keys they share.  The open sockets, with the process that
  serves each, and the time each organization was last heard of are kept for the proofs.
\<close>

record hub =
  hu_accounts :: accounts
  hu_regs :: "registry list"
  hu_keys :: keys_store
  hu_open :: "(nat \<times> session) list"
  hu_heard :: "string \<Rightarrow> int"

definition seen_by :: "nat \<Rightarrow> hub \<Rightarrow> endpoint_state" where
  "seen_by n hb = \<lparr>es_accounts = hu_accounts hb, es_registry = hu_regs hb ! n, es_keys = Some (hu_keys hb)\<rparr>"

definition left_by :: "nat \<Rightarrow> endpoint_state \<Rightarrow> hub \<Rightarrow> hub" where
  "left_by n es hb =
     hb\<lparr>hu_accounts := es_accounts es, hu_regs := (hu_regs hb)[n := es_registry es],
        hu_keys := (case es_keys es of None \<Rightarrow> hu_keys hb | Some ks \<Rightarrow> ks)\<rparr>"

definition is_heartbeat :: "frame_in \<Rightarrow> bool" where
  "is_heartbeat fr \<longleftrightarrow> get_field fr ''type'' None = Some ''heartbeat''"

inductive hub_step :: "crypto \<Rightarrow> (nat \<Rightarrow> exc option) \<Rightarrow> hub \<Rightarrow> hub \<Rightarrow> bool" for cr :: crypto and refuses :: "nat \<Rightarrow> exc option" where
  opens: "n < length (hu_regs hb) \<Longrightarrow> \<forall>(m, se') \<in> set (hu_open hb). se_socket se' \<noteq> socket \<Longrightarrow>
    ws_open cr now header query socket (seen_by n hb) = (es, Some se) \<Longrightarrow>
    hub_step cr refuses hb ((left_by n es hb)\<lparr>hu_open := (n, se) # hu_open hb, hu_heard := (hu_heard hb)(se_org se := now)\<rparr>)"
| frames: "(n, se) \<in> set (hu_open hb) \<Longrightarrow>
    hub_step cr refuses hb ((left_by n (ws_frame now se fr (seen_by n hb)) hb)
      \<lparr>hu_heard := (if is_heartbeat fr then (hu_heard hb)(se_org se := now) else hu_heard hb)\<rparr>)"
| closes: "(n, se) \<in> set (hu_open hb) \<Longrightarrow>
    hub_step cr refuses hb ((left_by n (ws_close se (seen_by n hb)) hb)\<lparr>hu_open := removeAll (n, se) (hu_open hb)\<rparr>)"
| sends: "n < length (hu_regs hb) \<Longrightarrow>
    hub_step cr refuses hb (hb\<lparr>hu_regs := (hu_regs hb)[n := fst (dispatch_send refuses org job xml company (hu_regs hb ! n))]\<rparr>)"
| ends: "n < length (hu_regs hb) \<Longrightarrow>
    hub_step cr refuses hb (hb\<lparr>hu_regs := (hu_regs hb)[n := fst (dispatch_end t (hu_regs hb ! n))]\<rparr>)"
| pairs: "hub_step cr refuses hb (hb\<lparr>hu_accounts := ac\<rparr>)"

definition hub_start :: "nat \<Rightarrow> accounts \<Rightarrow> hub" where
  "hub_start n ac = \<lparr>hu_accounts = ac, hu_regs = replicate n new_registry, hu_keys = [], hu_open = [], hu_heard = (\<lambda>org. 0)\<rparr>"

definition one_socket_each :: "hub \<Rightarrow> bool" where
  "one_socket_each hb \<longleftrightarrow> distinct (map (\<lambda>(n, se). se_org se) (hu_open hb))"

inductive orderly :: "crypto \<Rightarrow> (nat \<Rightarrow> exc option) \<Rightarrow> nat \<Rightarrow> hub \<Rightarrow> bool"
  for cr :: crypto and refuses :: "nat \<Rightarrow> exc option" and n :: nat where
  fresh_hub: "orderly cr refuses n (hub_start n ac)"
| hub_goes_on: "orderly cr refuses n hb \<Longrightarrow> hub_step cr refuses hb hb' \<Longrightarrow> one_socket_each hb' \<Longrightarrow> orderly cr refuses n hb'"

definition socket_of :: "registry \<Rightarrow> string \<Rightarrow> nat option" where
  "socket_of rg org = map_option (\<lambda>c. co_socket (rg_objects rg ! c)) (dget (rg_by_org rg) org)"

definition objects_in :: "registry \<Rightarrow> bool" where
  "objects_in rg \<longleftrightarrow> (\<forall>org c. dget (rg_by_org rg) org = Some c \<longrightarrow> c < length (rg_objects rg))"

lemma online_socket: "is_online org rg \<longleftrightarrow> socket_of rg org \<noteq> None"
  by (simp add: is_online_def socket_of_def)

text \<open>What each operation of the registry does to the sockets it holds.\<close>

lemma map_same_at [simp]: "(map f xs)[c := f (xs ! c)] = map f xs"
  by (cases "c < length xs") (auto simp: list_eq_iff_nth_eq nth_list_update)

lemma set_pending_sockets [simp]: "map co_socket (rg_objects (set_pending c p rg)) = map co_socket (rg_objects rg)"
  by (simp add: set_pending_def map_update)

lemma socket_of_sockets:
  assumes "objects_in rg" "map co_socket (rg_objects rg') = map co_socket (rg_objects rg)" "rg_by_org rg' = rg_by_org rg"
  shows "socket_of rg' = socket_of rg" "objects_in rg'"
proof -
  have l: "length (rg_objects rg') = length (rg_objects rg)" using assms(2) by (metis length_map)
  have "co_socket (rg_objects rg' ! c) = co_socket (rg_objects rg ! c)" if "c < length (rg_objects rg)" for c
    using assms(2) that l by (metis nth_map)
  then show "socket_of rg' = socket_of rg" using assms(1,3) unfolding socket_of_def objects_in_def
    by (auto simp: fun_eq_iff map_option_case split: option.splits)
  show "objects_in rg'" using assms(1,3) l by (simp add: objects_in_def)
qed

lemma dispatch_send_sockets:
  "map co_socket (rg_objects (fst (dispatch_send refuses org job xml company rg))) = map co_socket (rg_objects rg)"
  "rg_by_org (fst (dispatch_send refuses org job xml company rg)) = rg_by_org rg"
  by (simp_all add: dispatch_send_def Let_def split: option.splits)

lemma dispatch_end_sockets:
  "map co_socket (rg_objects (fst (dispatch_end t rg))) = map co_socket (rg_objects rg)"
  "rg_by_org (fst (dispatch_end t rg)) = rg_by_org rg"
  by (simp_all add: dispatch_end_def Let_def)

lemma on_frame_sockets:
  "map co_socket (rg_objects (on_frame org fr rg)) = map co_socket (rg_objects rg)"
  "rg_by_org (on_frame org fr rg) = rg_by_org rg"
proof -
  have s: "map co_socket ((rg_objects rg)[c := (rg_objects rg ! c)\<lparr>co_guid := g\<rparr>]) = map co_socket (rg_objects rg)" for c g
    by (simp add: map_update)
  show "map co_socket (rg_objects (on_frame org fr rg)) = map co_socket (rg_objects rg)"
    using s by (simp add: on_frame_def settle_job_def Let_def split: option.splits)
  show "rg_by_org (on_frame org fr rg) = rg_by_org rg"
    by (simp add: on_frame_def settle_job_def Let_def split: option.splits)
qed

lemma fail_pending_sockets [simp]:
  "map co_socket (rg_objects (fail_pending c reason rg)) = map co_socket (rg_objects rg)"
  "rg_by_org (fail_pending c reason rg) = rg_by_org rg"
  by (simp_all add: fail_pending_def)

lemma connect_sockets:
  assumes "objects_in rg"
  shows "socket_of (connect org bridge socket rg) = (socket_of rg)(org := Some socket)" "objects_in (connect org bridge socket rg)"
proof -
  obtain rg1 where r: "connect org bridge socket rg =
        rg1\<lparr>rg_objects := rg_objects rg1 @ [\<lparr>co_socket = socket, co_bridge = bridge, co_guid = None, co_pending = []\<rparr>],
            rg_by_org := AList.update org (length (rg_objects rg1)) (rg_by_org rg1)\<rparr>"
      "map co_socket (rg_objects rg1) = map co_socket (rg_objects rg)" "rg_by_org rg1 = rg_by_org rg"
  proof (cases "dget (rg_by_org rg) org")
    case (Some c)
    then show ?thesis by (intro that [of "fail_pending c ''replaced by a new connection'' rg"]) (simp_all add: connect_def Let_def)
  qed (auto intro: that simp: connect_def)
  note s = socket_of_sockets [OF assms r(2,3)]
  have "dget (rg_by_org rg1) o' = Some c \<Longrightarrow> c < length (rg_objects rg1)" for o' c using s(2) by (simp add: objects_in_def)
  then have "socket_of (connect org bridge socket rg) = (socket_of rg1)(org := Some socket)" "objects_in (connect org bridge socket rg)"
    unfolding r(1) by (auto simp: socket_of_def objects_in_def update_conv' nth_append fun_eq_iff map_option_case less_Suc_eq split: option.splits)
  with s(1) show "socket_of (connect org bridge socket rg) = (socket_of rg)(org := Some socket)" "objects_in (connect org bridge socket rg)"
    by simp_all
qed

lemma disconnect_sockets:
  assumes "objects_in rg"
  shows "socket_of (disconnect org socket rg) = (if socket_of rg org = Some socket then (socket_of rg)(org := None) else socket_of rg)"
    "objects_in (disconnect org socket rg)"
proof -
  have f: "socket_of (fail_pending c reason rg) = socket_of rg" "objects_in (fail_pending c reason rg)" for c reason
    by (rule socket_of_sockets [OF assms fail_pending_sockets])+
  have d: "socket_of (rg'\<lparr>rg_by_org := AList.delete org (rg_by_org rg')\<rparr>) = (socket_of rg')(org := None)" for rg'
    by (simp add: socket_of_def fun_eq_iff delete_conv')
  show "socket_of (disconnect org socket rg) = (if socket_of rg org = Some socket then (socket_of rg)(org := None) else socket_of rg)"
  proof (cases "dget (rg_by_org rg) org")
    case (Some c)
    have "socket_of rg org = Some (co_socket (rg_objects rg ! c))" using Some by (simp add: socket_of_def)
    moreover have "disconnect org socket rg = (if co_socket (rg_objects rg ! c) = socket
        then (fail_pending c ''bridge disconnected'' rg)\<lparr>rg_by_org := AList.delete org (rg_by_org (fail_pending c ''bridge disconnected'' rg))\<rparr> else rg)"
      using Some by (simp add: disconnect_def)
    ultimately show ?thesis by (simp only: d f(1) option.inject if_distrib [of socket_of])
  qed (simp add: disconnect_def socket_of_def)
  show "objects_in (disconnect org socket rg)"
    using assms f(2) by (auto simp: disconnect_def objects_in_def delete_conv' split: option.splits if_splits)
qed

text \<open>What a socket does to the registry of its process and to the keys.\<close>

lemma ws_open_effect:
  assumes "ws_open cr now header query socket es = (es', Some se)"
  shows "es_registry es' = connect (se_org se) (se_bridge se) socket (es_registry es)" "se_socket se = socket"
    "es_keys es' = map_option (presence_connected now (se_org se)) (es_keys es)"
  using assms by (auto simp: ws_open_def split: option.splits)

lemma ws_frame_effect:
  "es_registry (ws_frame now se fr es) = on_frame (se_org se) fr (es_registry es)"
  "es_keys (ws_frame now se fr es) =
    (if is_heartbeat fr then map_option (presence_connected now (se_org se)) (es_keys es) else es_keys es)"
  by (simp_all add: ws_frame_def is_heartbeat_def Let_def)

lemma ws_close_effect:
  "es_registry (ws_close se es) = disconnect (se_org se) (se_socket se) (es_registry es)"
  "es_keys (ws_close se es) = (if is_online (se_org se) (es_registry (ws_close se es)) then es_keys es
    else map_option (presence_disconnected (se_org se)) (es_keys es))"
  by (simp_all add: ws_close_def Let_def)

lemma presence_key_inj [simp]: "presence_key org = presence_key org' \<longleftrightarrow> org = org'"
  by (simp add: presence_key_def)

lemma presence_changes [simp]:
  "dget (presence_connected now org ks) (presence_key org') = (if org' = org then Some (now + presence_ttl) else dget ks (presence_key org'))"
  "dget (presence_disconnected org ks) (presence_key org') = (if org' = org then None else dget ks (presence_key org'))"
  by (simp_all add: presence_connected_def presence_disconnected_def update_conv' delete_conv')

definition open_orgs :: "hub \<Rightarrow> string set" where
  "open_orgs hb = (\<lambda>(n, se). se_org se) ` set (hu_open hb)"

definition all_objects_in :: "hub \<Rightarrow> bool" where
  "all_objects_in hb \<longleftrightarrow> (\<forall>n<length (hu_regs hb). objects_in (hu_regs hb ! n))"

definition sockets_agree :: "hub \<Rightarrow> bool" where
  \<comment> \<open>the connections of the processes are those of the open sockets\<close>
  "sockets_agree hb \<longleftrightarrow> (\<forall>n<length (hu_regs hb). \<forall>org s. socket_of (hu_regs hb ! n) org = Some s \<longleftrightarrow>
     (\<exists>se. (n, se) \<in> set (hu_open hb) \<and> se_org se = org \<and> se_socket se = s)) \<and> (\<forall>(n, se) \<in> set (hu_open hb). n < length (hu_regs hb))"

definition keys_agree :: "hub \<Rightarrow> bool" where
  "keys_agree hb \<longleftrightarrow> (\<forall>org. dget (hu_keys hb) (presence_key org) =
     (if org \<in> open_orgs hb then Some (hu_heard hb org + presence_ttl) else None))"

definition hub_ok :: "hub \<Rightarrow> bool" where
  "hub_ok hb \<longleftrightarrow> all_objects_in hb \<and> sockets_agree hb \<and> keys_agree hb \<and> one_socket_each hb"

lemma one_socket_eachD:
  assumes "one_socket_each hb" "(n, se) \<in> set (hu_open hb)" "(m, se') \<in> set (hu_open hb)" "se_org se = se_org se'"
  shows "n = m \<and> se = se'"
  using assms inj_onD [of "\<lambda>(n, se). se_org se" "set (hu_open hb)" "(n, se)" "(m, se')"] by (simp add: one_socket_each_def distinct_map)

lemma left_by_simps [simp]:
  "hu_regs (left_by n es hb) = (hu_regs hb)[n := es_registry es]" "hu_open (left_by n es hb) = hu_open hb"
  "hu_keys (left_by n es hb) = (case es_keys es of None \<Rightarrow> hu_keys hb | Some ks \<Rightarrow> ks)" "hu_heard (left_by n es hb) = hu_heard hb"
  by (simp_all add: left_by_def)

lemma seen_by_simps [simp]: "es_registry (seen_by n hb) = hu_regs hb ! n" "es_keys (seen_by n hb) = Some (hu_keys hb)"
  by (simp_all add: seen_by_def)

lemma hub_same_sockets:
  assumes "hub_ok hb" "map co_socket (rg_objects rg) = map co_socket (rg_objects (hu_regs hb ! n))"
    "rg_by_org rg = rg_by_org (hu_regs hb ! n)" "n < length (hu_regs hb)"
    and hb': "hu_regs hb' = (hu_regs hb)[n := rg]" "hu_open hb' = hu_open hb" "keys_agree hb'"
  shows "hub_ok hb'"
proof -
  have o: "objects_in (hu_regs hb ! n)" using assms(1,4) by (simp add: hub_ok_def all_objects_in_def)
  note s = socket_of_sockets [OF o assms(2,3)]
  have e: "socket_of (hu_regs hb' ! m) = socket_of (hu_regs hb ! m)" for m
    using s(1) assms(4) hb'(1) by (cases "m = n") simp_all
  have "objects_in (hu_regs hb' ! m)" if "m < length (hu_regs hb)" for m
    using assms(1,4) s(2) that unfolding hb'(1) by (cases "m = n") (simp_all add: hub_ok_def all_objects_in_def)
  then have "all_objects_in hb'" using hb'(1) by (simp add: all_objects_in_def)
  moreover have "sockets_agree hb'" using assms(1) e hb'(1,2) by (simp add: hub_ok_def sockets_agree_def)
  moreover have "one_socket_each hb'" using assms(1) hb'(2) by (simp add: hub_ok_def one_socket_each_def)
  ultimately show ?thesis using hb'(3) by (simp add: hub_ok_def)
qed

lemma objects_in_update:
  assumes "all_objects_in hb" "objects_in rg" "hu_regs hb' = (hu_regs hb)[n := rg]"
  shows "all_objects_in hb'"
  unfolding all_objects_in_def
proof (intro allI impI)
  fix m assume m: "m < length (hu_regs hb')"
  show "objects_in (hu_regs hb' ! m)"
    using assms m by (cases "m = n") (simp_all add: all_objects_in_def)
qed

lemma hub_ok_opens:
  assumes ok: "hub_ok hb" and n: "n < length (hu_regs hb)"
    and op: "ws_open cr now header query socket (seen_by n hb) = (es, Some se)"
  defines "hb' \<equiv> (left_by n es hb)\<lparr>hu_open := (n, se) # hu_open hb, hu_heard := (hu_heard hb)(se_org se := now)\<rparr>"
  assumes one: "one_socket_each hb'"
  shows "hub_ok hb'"
proof -
  note e = ws_open_effect [OF op, simplified]
  have o: "objects_in (hu_regs hb ! n)" using ok n by (simp add: hub_ok_def all_objects_in_def)
  note s = connect_sockets [OF o, of "se_org se" "se_bridge se" socket]
  have sa: "sockets_agree hb" "keys_agree hb" "all_objects_in hb" using ok by (simp_all add: hub_ok_def)
  have new: "se_org se' \<noteq> se_org se" if "(m, se') \<in> set (hu_open hb)" for m se'
    using one that by (force simp: one_socket_each_def hb'_def)
  have "all_objects_in hb'" by (rule objects_in_update [OF sa(3) s(2)]) (simp add: hb'_def e(1))
  moreover have "sockets_agree hb'"
  proof -
    have "socket_of (hu_regs hb' ! m) org = Some x \<longleftrightarrow> (\<exists>se'. (m, se') \<in> set (hu_open hb') \<and> se_org se' = org \<and> se_socket se' = x)"
      if m: "m < length (hu_regs hb)" for m org x
    proof (cases "m = n \<and> org = se_org se")
      case True
      then show ?thesis using new n e(2) by (auto simp: hb'_def e(1) s(1))
    next
      case False
      then have "socket_of (hu_regs hb' ! m) org = socket_of (hu_regs hb ! m) org"
        using n m by (cases "m = n") (simp_all add: hb'_def e(1) s(1))
      then show ?thesis using sa(1) m False by (auto simp: sockets_agree_def hb'_def)
    qed
    then show ?thesis using sa(1) n by (simp add: sockets_agree_def hb'_def)
  qed
  moreover have "keys_agree hb'" using sa(2) by (simp add: keys_agree_def hb'_def e(3) open_orgs_def)
  ultimately show ?thesis using one by (simp add: hub_ok_def)
qed

lemma hub_ok_closes:
  assumes ok: "hub_ok hb" and se: "(n, se) \<in> set (hu_open hb)"
  shows "hub_ok ((left_by n (ws_close se (seen_by n hb)) hb)\<lparr>hu_open := removeAll (n, se) (hu_open hb)\<rparr>)" (is "hub_ok ?hb")
proof -
  have sa: "sockets_agree hb" "keys_agree hb" "all_objects_in hb" "one_socket_each hb" using ok by (simp_all add: hub_ok_def)
  have n: "n < length (hu_regs hb)" using sa(1) se by (auto simp: sockets_agree_def)
  have o: "objects_in (hu_regs hb ! n)" using sa(3) n by (simp add: all_objects_in_def)
  have here: "socket_of (hu_regs hb ! n) (se_org se) = Some (se_socket se)" using sa(1) se n unfolding sockets_agree_def by blast
  let ?rg = "disconnect (se_org se) (se_socket se) (hu_regs hb ! n)"
  have s: "socket_of ?rg = (socket_of (hu_regs hb ! n))(se_org se := None)" "objects_in ?rg"
    using disconnect_sockets [OF o] here by simp_all
  have only: "se_org se' = se_org se \<longleftrightarrow> (m, se') = (n, se)" if "(m, se') \<in> set (hu_open hb)" for m se'
    using one_socket_eachD [OF sa(4) that se] by blast
  have k: "es_keys (ws_close se (seen_by n hb)) = Some (presence_disconnected (se_org se) (hu_keys hb))"
    using s(1) unfolding ws_close_effect(2) by (simp add: ws_close_effect(1) online_socket)
  have "all_objects_in ?hb" by (rule objects_in_update [OF sa(3) s(2)]) (simp add: ws_close_effect(1))
  moreover have "sockets_agree ?hb"
  proof -
    have "socket_of (hu_regs ?hb ! m) org = Some x \<longleftrightarrow> (\<exists>se'. (m, se') \<in> set (hu_open ?hb) \<and> se_org se' = org \<and> se_socket se' = x)"
      if m: "m < length (hu_regs hb)" for m org x
    proof (cases "m = n \<and> org = se_org se")
      case True
      then show ?thesis using only n by (auto simp: ws_close_effect(1) s(1))
    next
      case False
      then have "socket_of (hu_regs ?hb ! m) org = socket_of (hu_regs hb ! m) org"
        using n m by (cases "m = n") (simp_all add: ws_close_effect(1) s(1))
      then show ?thesis using sa(1) m False unfolding sockets_agree_def by auto
    qed
    then show ?thesis using sa(1) by (auto simp: sockets_agree_def)
  qed
  moreover have "open_orgs ?hb = open_orgs hb - {se_org se}" using only by (force simp: open_orgs_def)
  then have "keys_agree ?hb" using sa(2) by (simp add: keys_agree_def k)
  moreover have "one_socket_each ?hb" using sa(4) by (simp add: one_socket_each_def distinct_map_filter removeAll_filter_not_eq)
  ultimately show ?thesis by (simp add: hub_ok_def)
qed

lemma sockets_known: "hub_ok hb \<Longrightarrow> n < length (hu_regs hb) \<Longrightarrow>
    is_online org (hu_regs hb ! n) \<longleftrightarrow> (\<exists>se. (n, se) \<in> set (hu_open hb) \<and> se_org se = org)"
  by (auto simp: hub_ok_def sockets_agree_def online_socket)

lemma hub_step_ok:
  assumes "hub_step cr refuses hb hb'" "hub_ok hb" "one_socket_each hb'"
  shows "hub_ok hb'"
  using assms
proof (induction rule: hub_step.induct)
  case (opens n hb socket now header query es se)
  then show ?case by (intro hub_ok_opens) auto
next
  case (frames n se hb fr now)
  have "se_org se \<in> open_orgs hb" using frames(1) by (force simp: open_orgs_def)
  then have "keys_agree ((left_by n (ws_frame now se fr (seen_by n hb)) hb)
      \<lparr>hu_heard := (if is_heartbeat fr then (hu_heard hb)(se_org se := now) else hu_heard hb)\<rparr>)"
    using frames(2) by (simp add: hub_ok_def keys_agree_def ws_frame_effect(2) open_orgs_def)
  moreover have "n < length (hu_regs hb)" using frames(1,2) by (auto simp: hub_ok_def sockets_agree_def)
  ultimately show ?case
    by (intro hub_same_sockets [OF frames(2) on_frame_sockets]) (simp_all add: ws_frame_effect(1))
next
  case (closes n se hb)
  then show ?case by (intro hub_ok_closes)
next
  case (sends n hb org job xml company)
  then show ?case by (intro hub_same_sockets [OF sends(2) dispatch_send_sockets sends(1)]) (simp_all add: hub_ok_def keys_agree_def open_orgs_def)
next
  case (ends n hb t)
  then show ?case by (intro hub_same_sockets [OF ends(2) dispatch_end_sockets ends(1)]) (simp_all add: hub_ok_def keys_agree_def open_orgs_def)
next
  case (pairs hb ac)
  then show ?case by (simp add: hub_ok_def all_objects_in_def sockets_agree_def keys_agree_def one_socket_each_def open_orgs_def)
qed

lemma hub_start_ok: "hub_ok (hub_start n ac)"
  by (simp add: hub_start_def new_registry_def hub_ok_def all_objects_in_def objects_in_def sockets_agree_def socket_of_def
      keys_agree_def open_orgs_def one_socket_each_def)

lemma orderly_ok: "orderly cr refuses n hb \<Longrightarrow> hub_ok hb"
  by (induction rule: orderly.induct) (auto intro: hub_start_ok hub_step_ok)

text \<open>
  C17: While an organization has at most one open socket at any moment, wherever it is served, every process
  gives the right answer to whether its bridge is online: that it is exactly when the socket is its own, or
  is open in another process and was opened or beat less than the life of the presence key ago; and the one
  process that can relay a request is the one that serves the socket.
\<close>

theorem presence_follows_connection:
  assumes "orderly cr refuses n hb" "m < length (hu_regs hb)"
  shows "(is_online org (hu_regs hb ! m) \<longleftrightarrow> (\<exists>se. (m, se) \<in> set (hu_open hb) \<and> se_org se = org)) \<and>
    (is_online_anywhere now org (hu_regs hb ! m) (Some (hu_keys hb)) \<longleftrightarrow>
      (\<exists>(k, se) \<in> set (hu_open hb). se_org se = org \<and> (k = m \<or> now < hu_heard hb org + presence_ttl)))"
proof -
  have ok: "hub_ok hb" using assms(1) by (rule orderly_ok)
  note on = sockets_known [OF ok assms(2)]
  have "key_exists now (presence_key org) (hu_keys hb) \<longleftrightarrow> org \<in> open_orgs hb \<and> now < hu_heard hb org + presence_ttl"
    using ok by (simp add: hub_ok_def keys_agree_def key_exists_def)
  then show ?thesis using on by (auto simp: is_online_anywhere_def open_orgs_def)
qed

definition paired_accounts :: accounts where
  "paired_accounts = fst (create_bridge demo_crypto ''k1'' ''b1'' ''o1'' None demo_accounts)"

definition opened :: "nat \<Rightarrow> int \<Rightarrow> nat \<Rightarrow> hub \<Rightarrow> hub" where
  \<comment> \<open>the bridge of the small server opens a socket\<close>
  "opened n now socket hb =
     (left_by n (fst (ws_open demo_crypto now ''Bearer k1'' None socket (seen_by n hb))) hb)
       \<lparr>hu_open := (n, \<lparr>se_org = ''o1'', se_bridge = ''b1'', se_socket = socket\<rparr>) # hu_open hb,
        hu_heard := (hu_heard hb)(''o1'' := now)\<rparr>"

lemma opened_step:
  assumes "n < length (hu_regs hb)" "\<forall>(m, se') \<in> set (hu_open hb). se_socket se' \<noteq> socket"
    "authenticate_bridge demo_crypto (Some ''k1'') (hu_accounts hb) = Some (''o1'', ''b1'')"
  shows "hub_step demo_crypto refuses hb (opened n now socket hb)"
proof -
  let ?se = "\<lparr>se_org = ''o1'', se_bridge = ''b1'', se_socket = socket\<rparr>"
  have "extract_key ''Bearer k1'' None = Some ''k1''" by code_simp
  then have "ws_open demo_crypto now ''Bearer k1'' None socket (seen_by n hb) =
      (fst (ws_open demo_crypto now ''Bearer k1'' None socket (seen_by n hb)), Some ?se)"
    using assms(3) by (simp add: ws_open_def seen_by_def)
  from opens [OF assms(1,2) this] show ?thesis by (simp add: opened_def)
qed

theorem presence_follows_connection_witness:
  "is_online_anywhere 89 ''o1'' (hu_regs (opened 0 0 7 (hub_start 2 paired_accounts)) ! 1)
     (Some (hu_keys (opened 0 0 7 (hub_start 2 paired_accounts)))) \<and>
   \<not> is_online ''o1'' (hu_regs (opened 0 0 7 (hub_start 2 paired_accounts)) ! 1)"
proof -
  let ?hb = "opened 0 0 7 (hub_start 2 paired_accounts)"
  have "authenticate_bridge demo_crypto (Some ''k1'') (hu_accounts (hub_start 2 paired_accounts)) = Some (''o1'', ''b1'')" by code_simp
  then have "hub_step demo_crypto (\<lambda>s. None) (hub_start 2 paired_accounts) ?hb" by (intro opened_step) (simp_all add: hub_start_def)
  moreover have "one_socket_each ?hb" by (simp add: one_socket_each_def opened_def hub_start_def)
  ultimately have "orderly demo_crypto (\<lambda>s. None) 2 ?hb" by (rule hub_goes_on [OF fresh_hub])
  moreover have "hu_open ?hb = [(0, \<lparr>se_org = ''o1'', se_bridge = ''b1'', se_socket = 7\<rparr>)]" "hu_heard ?hb ''o1'' = 0" "length (hu_regs ?hb) = 2"
    by (simp_all add: opened_def hub_start_def)
  ultimately show ?thesis using presence_follows_connection [of demo_crypto "\<lambda>s. None" 2 ?hb 1 "''o1''" 89] by (simp add: presence_ttl_def)
qed

section \<open>Two sockets of one organization\<close>

definition indices_ok :: "hub \<Rightarrow> bool" where
  "indices_ok hb \<longleftrightarrow> all_objects_in hb \<and> (\<forall>(n, se) \<in> set (hu_open hb). n < length (hu_regs hb))"

lemma indices_update:
  assumes "indices_ok hb" "objects_in rg" "hu_regs hb' = (hu_regs hb)[n := rg]" "\<forall>(n, se) \<in> set (hu_open hb'). n < length (hu_regs hb)"
  shows "indices_ok hb'"
  using assms objects_in_update [of hb rg hb' n] by (auto simp: indices_ok_def)

lemma hub_step_indices:
  assumes "hub_step cr refuses hb hb'" "indices_ok hb"
  shows "indices_ok hb'"
  using assms
proof (induction rule: hub_step.induct)
  case (opens n hb socket now header query es se)
  then have "objects_in (es_registry es)" using ws_open_effect(1) [OF opens(3)] connect_sockets(2) by (simp add: indices_ok_def all_objects_in_def)
  then show ?case using opens by (intro indices_update [OF opens(4)]) (auto simp: indices_ok_def)
next
  case (frames n se hb fr now)
  then have "objects_in (hu_regs hb ! n)" by (auto simp: indices_ok_def all_objects_in_def)
  from socket_of_sockets(2) [OF this on_frame_sockets] show ?case
    using frames(2) by (intro indices_update [OF frames(2), of "on_frame (se_org se) fr (hu_regs hb ! n)"]) (auto simp: indices_ok_def ws_frame_effect(1))
next
  case (closes n se hb)
  then have "objects_in (hu_regs hb ! n)" by (auto simp: indices_ok_def all_objects_in_def)
  from disconnect_sockets(2) [OF this] show ?case
    using closes(2) by (intro indices_update [OF closes(2), of "disconnect (se_org se) (se_socket se) (hu_regs hb ! n)"]) (auto simp: indices_ok_def ws_close_effect(1))
next
  case (sends n hb org job xml company)
  then have "objects_in (hu_regs hb ! n)" by (simp add: indices_ok_def all_objects_in_def)
  from socket_of_sockets(2) [OF this dispatch_send_sockets] show ?case
    using sends(2) by (intro indices_update [OF sends(2)]) (auto simp: indices_ok_def)
next
  case (ends n hb t)
  then have "objects_in (hu_regs hb ! n)" by (simp add: indices_ok_def all_objects_in_def)
  from socket_of_sockets(2) [OF this dispatch_end_sockets] show ?case
    using ends(2) by (intro indices_update [OF ends(2)]) (auto simp: indices_ok_def)
qed (simp add: indices_ok_def all_objects_in_def)

lemma reachable_indices: "(hub_step cr refuses)\<^sup>*\<^sup>* (hub_start n ac) hb \<Longrightarrow> indices_ok hb"
proof (induction rule: rtranclp_induct)
  case base
  show ?case using hub_start_ok [of n ac] by (auto simp: indices_ok_def hub_ok_def sockets_agree_def)
qed (rule hub_step_indices)

text \<open>
  When a bridge has a socket in one process while the one it had in another is still open (it has dialled
  in again before the loss of the first was noticed), the end of the first takes away the presence of the
  organization: the second is connected, yet every process but the one that serves it says that the bridge
  is offline and stops every push, until the next heartbeat.
\<close>

theorem late_close_hides_bridge:
  assumes "(hub_step cr refuses)\<^sup>*\<^sup>* (hub_start N ac) hb"
    and "(n, se) \<in> set (hu_open hb)" "(m, se') \<in> set (hu_open hb)" "m \<noteq> n" "se_org se' = se_org se"
    and "socket_of (hu_regs hb ! n) (se_org se) = Some (se_socket se)" "socket_of (hu_regs hb ! m) (se_org se) = Some (se_socket se')"
  shows "\<exists>hb'. hub_step cr refuses hb hb' \<and> (m, se') \<in> set (hu_open hb') \<and>
    socket_of (hu_regs hb' ! m) (se_org se) = Some (se_socket se') \<and>
    (\<forall>k<length (hu_regs hb'). \<forall>now. \<not> is_online (se_org se) (hu_regs hb' ! k) \<longrightarrow>
       \<not> is_online_anywhere now (se_org se) (hu_regs hb' ! k) (Some (hu_keys hb')) \<and>
       route_dispatch refuses i now (se_org se) job xml company (Some (hu_keys hb')) (hu_regs hb' ! k) =
         (hu_regs hb' ! k, Stopped BridgeNotConnected))"
proof -
  let ?hb = "(left_by n (ws_close se (seen_by n hb)) hb)\<lparr>hu_open := removeAll (n, se) (hu_open hb)\<rparr>"
  have ix: "indices_ok hb" using assms(1) by (rule reachable_indices)
  then have o: "objects_in (hu_regs hb ! n)" using assms(2) by (auto simp: indices_ok_def all_objects_in_def)
  have off: "\<not> is_online (se_org se) (disconnect (se_org se) (se_socket se) (hu_regs hb ! n))"
    using disconnect_sockets(1) [OF o, of "se_org se" "se_socket se"] assms(6) by (simp add: online_socket)
  then have "dget (hu_keys ?hb) (presence_key (se_org se)) = None"
    using ws_close_effect [of se "seen_by n hb"] by simp
  then have key: "\<not> key_exists now (presence_key (se_org se)) (hu_keys ?hb)" for now by (simp add: key_exists_def)
  have "hub_step cr refuses hb ?hb" using assms(2) by (rule closes)
  moreover have "(m, se') \<in> set (hu_open ?hb)" using assms(3,4) by simp
  moreover have "hu_regs ?hb ! m = hu_regs hb ! m" using assms(4) by simp
  ultimately show ?thesis using assms(7) key
    by (intro exI [of _ ?hb]) (simp add: is_online_anywhere_def route_dispatch_def del: left_by_simps)
qed

text \<open>
  A socket that has been replaced in its own process is not closed, and its heartbeats go on: when the one
  that replaced it has gone, they bring back the presence of an organization that no process can relay to.
\<close>

theorem replaced_socket_keeps_presence:
  assumes "(hub_step cr refuses)\<^sup>*\<^sup>* (hub_start N ac) hb" "(n, se) \<in> set (hu_open hb)" "is_heartbeat fr"
    and "\<forall>k<length (hu_regs hb). \<not> is_online (se_org se) (hu_regs hb ! k)" "now' < now + presence_ttl"
  shows "\<exists>hb'. hub_step cr refuses hb hb' \<and> length (hu_regs hb') = length (hu_regs hb) \<and>
    (\<forall>k<length (hu_regs hb'). \<not> is_online (se_org se) (hu_regs hb' ! k) \<and>
       is_online_anywhere now' (se_org se) (hu_regs hb' ! k) (Some (hu_keys hb')))"
proof -
  let ?hb = "(left_by n (ws_frame now se fr (seen_by n hb)) hb)\<lparr>hu_heard := (hu_heard hb)(se_org se := now)\<rparr>"
  have "hub_step cr refuses hb ?hb" using frames [OF assms(2), of cr refuses fr now] assms(3) by simp
  moreover have "n < length (hu_regs hb)" using reachable_indices [OF assms(1)] assms(2) by (auto simp: indices_ok_def)
  then have "on_frame (se_org se) fr (hu_regs hb ! n) = hu_regs hb ! n"
    using assms(4) by (simp add: on_frame_def is_online_def)
  then have "hu_regs ?hb = hu_regs hb" by (simp add: ws_frame_effect(1))
  moreover have "key_exists now' (presence_key (se_org se)) (hu_keys ?hb)"
    using assms(3,5) by (simp add: ws_frame_effect(2) key_exists_def)
  ultimately show ?thesis using assms(4) by (intro exI [of _ ?hb]) (simp add: is_online_anywhere_def del: left_by_simps)
qed

text \<open>The bridge of the small server dials in to the first of three processes, and then to the second.\<close>

definition dialled_twice :: hub where
  "dialled_twice = opened 1 30 8 (opened 0 0 7 (hub_start 3 paired_accounts))"

lemma dialled_twice_reached: "(hub_step demo_crypto refuses)\<^sup>*\<^sup>* (hub_start 3 paired_accounts) dialled_twice"
proof -
  let ?h0 = "hub_start 3 paired_accounts"
  let ?h1 = "opened 0 0 7 ?h0"
  have a: "authenticate_bridge demo_crypto (Some ''k1'') (hu_accounts ?h0) = Some (''o1'', ''b1'')"
      "authenticate_bridge demo_crypto (Some ''k1'') (hu_accounts ?h1) = Some (''o1'', ''b1'')" by code_simp+
  have "hub_step demo_crypto refuses ?h0 ?h1" using a(1) by (intro opened_step) (simp_all add: hub_start_def)
  moreover have "hub_step demo_crypto refuses ?h1 dialled_twice"
    unfolding dialled_twice_def using a(2) by (intro opened_step) (simp_all add: hub_start_def opened_def)
  ultimately show ?thesis by (meson r_into_rtranclp rtranclp_trans)
qed

theorem late_close_hides_bridge_witness:
  "\<exists>hb'. hub_step demo_crypto (\<lambda>s. None) dialled_twice hb' \<and> socket_of (hu_regs hb' ! 1) ''o1'' = Some 8 \<and>
    (\<forall>k<length (hu_regs hb'). \<forall>now. \<not> is_online ''o1'' (hu_regs hb' ! k) \<longrightarrow>
       route_dispatch (\<lambda>s. None) ''r1'' now ''o1'' ''j1'' ''<E/>'' None (Some (hu_keys hb')) (hu_regs hb' ! k) =
         (hu_regs hb' ! k, Stopped BridgeNotConnected))"
proof -
  let ?a = "\<lparr>se_org = ''o1'', se_bridge = ''b1'', se_socket = 7\<rparr>" and ?b = "\<lparr>se_org = ''o1'', se_bridge = ''b1'', se_socket = 8\<rparr>"
  have "(0, ?a) \<in> set (hu_open dialled_twice)" "(1, ?b) \<in> set (hu_open dialled_twice)"
    by (simp_all add: dialled_twice_def opened_def hub_start_def)
  moreover have "socket_of (hu_regs dialled_twice ! 0) ''o1'' = Some 7" "socket_of (hu_regs dialled_twice ! 1) ''o1'' = Some 8"
    by code_simp+
  ultimately show ?thesis
    using late_close_hides_bridge [OF dialled_twice_reached, of 0 ?a 1 ?b "\<lambda>s. None" "''r1''" "''j1''" "''<E/>''" None] by auto
qed

end
