(* ===== verification/JobLocks.thy ===== *)
theory JobLocks
  imports JobRepo
begin

text \<open>
  The threads of one process on the job store, \<open>DbJobStore\<close> in \<open>app/services/job_repo.py\<close>: the cache hands out
  job objects, a lock per job serialises the sections that change one, and both go when the cache is full.
  An object and a lock are the numbers under which they were made.  \<open>JobRepo\<close> runs a section as one operation;
  here it is taken apart into the steps between which other threads run.
\<close>

section \<open>Threads\<close>

datatype thread =
    At_Rest
  | Reading string
  | Loaded string nat
  | Queued string nat nat
  | Inside string nat nat

fun job_of :: "thread \<Rightarrow> string option" where
  "job_of At_Rest = None"
| "job_of (Reading i) = Some i"
| "job_of (Loaded i ob) = Some i"
| "job_of (Queued i ob lk) = Some i"
| "job_of (Inside i ob lk) = Some i"

fun object_of :: "thread \<Rightarrow> (string \<times> nat) option" where
  "object_of At_Rest = None"
| "object_of (Reading i) = None"
| "object_of (Loaded i ob) = Some (i, ob)"
| "object_of (Queued i ob lk) = Some (i, ob)"
| "object_of (Inside i ob lk) = Some (i, ob)"

fun lock_of :: "thread \<Rightarrow> (string \<times> nat) option" where
  "lock_of (Queued i ob lk) = Some (i, lk)"
| "lock_of (Inside i ob lk) = Some (i, lk)"
| "lock_of pc = None"

fun inside_lock :: "thread \<Rightarrow> nat option" where
  "inside_lock (Inside i ob lk) = Some lk"
| "inside_lock pc = None"

record guard =
  gu_cache :: "(string \<times> nat) list"
  gu_locks :: "(string, nat) dict"
  gu_max :: nat
  gu_held :: "nat \<Rightarrow> nat option"
  gu_threads :: "nat \<Rightarrow> thread"
  gu_next :: nat

definition set_default :: "string \<Rightarrow> nat \<Rightarrow> (string, nat) dict \<Rightarrow> (string, nat) dict" where
  "set_default i lk locks = (if dget locks i = None then locks @ [(i, lk)] else locks)"

definition put_object :: "string \<Rightarrow> guard \<Rightarrow> guard" where
  \<comment> \<open>a new object of the job goes into the cache, a new lock unless it has one; what no longer fits goes with its lock\<close>
  "put_object i g =
     (let c = put_last i (gu_next g) (gu_cache g); n = length c - gu_max g; gone = map fst (take n c)
      in g\<lparr>gu_cache := drop n c, gu_locks := filter (\<lambda>(k, lk). k \<notin> set gone) (set_default i (Suc (gu_next g)) (gu_locks g)),
           gu_next := Suc (Suc (gu_next g))\<rparr>)"

definition set_thread :: "nat \<Rightarrow> thread \<Rightarrow> guard \<Rightarrow> guard" where
  "set_thread t pc g = g\<lparr>gu_threads := (gu_threads g)(t := pc)\<rparr>"

inductive guard_step :: "guard \<Rightarrow> guard \<Rightarrow> bool" where
  hit: "gu_threads g t = At_Rest \<Longrightarrow> map_of (gu_cache g) i = Some ob \<Longrightarrow>
    guard_step g (set_thread t (Loaded i ob) (g\<lparr>gu_cache := touch i (gu_cache g)\<rparr>))"
| miss: "gu_threads g t = At_Rest \<Longrightarrow> map_of (gu_cache g) i = None \<Longrightarrow> guard_step g (set_thread t (Reading i) g)"
| no_row: "gu_threads g t = Reading i \<Longrightarrow> guard_step g (set_thread t At_Rest g)"
| hydrated: "gu_threads g t = Reading i \<Longrightarrow> guard_step g (set_thread t (Loaded i (gu_next g)) (put_object i g))"
| made: "map_of (gu_cache g) i = None \<Longrightarrow> \<forall>t. job_of (gu_threads g t) \<noteq> Some i \<Longrightarrow> guard_step g (put_object i g)"
| read_only: "gu_threads g t = Loaded i ob \<Longrightarrow> guard_step g (set_thread t At_Rest g)"
| asks: "gu_threads g t = Loaded i ob \<Longrightarrow> locks = set_default i (gu_next g) (gu_locks g) \<Longrightarrow> dget locks i = Some lk \<Longrightarrow>
    guard_step g (set_thread t (Queued i ob lk) (g\<lparr>gu_locks := locks, gu_next := Suc (gu_next g)\<rparr>))"
| enters: "gu_threads g t = Queued i ob lk \<Longrightarrow> gu_held g lk = None \<Longrightarrow>
    guard_step g (set_thread t (Inside i ob lk) (g\<lparr>gu_held := (gu_held g)(lk := Some t)\<rparr>))"
| leaves: "gu_threads g t = Inside i ob lk \<Longrightarrow>
    guard_step g (set_thread t At_Rest (g\<lparr>gu_held := (gu_held g)(lk := None)\<rparr>))"

definition new_guard :: "nat \<Rightarrow> guard" where
  "new_guard n = \<lparr>gu_cache = [], gu_locks = [], gu_max = n, gu_held = (\<lambda>lk. None), gu_threads = (\<lambda>t. At_Rest), gu_next = 0\<rparr>"

text \<open>The cache of objects is the cache of \<open>JobRepo\<close>, once each object stands for the job it is.\<close>

lemma put_object_refines:
  assumes "nd_cache nd = map (\<lambda>(i, ob). (i, jobs ob)) (gu_cache g)" "nd_max nd = gu_max g" "j_id (jobs (gu_next g)) = i"
  shows "nd_cache (cache_put (jobs (gu_next g)) nd) = map (\<lambda>(i, ob). (i, jobs ob)) (gu_cache (put_object i g))"
proof -
  have "put_last i (jobs ob) (map (\<lambda>(i, ob). (i, jobs ob)) c) = map (\<lambda>(i, ob). (i, jobs ob)) (put_last i ob c)" for ob and c :: "(string \<times> nat) list"
    by (induction c) (auto simp: put_last_def)
  then show ?thesis using assms by (simp add: cache_put_def put_object_def Let_def drop_map)
qed

section \<open>One thread at a time\<close>

definition calm :: "guard \<Rightarrow> bool" where
  \<comment> \<open>the cache has every job a thread works on, and a job is read by nobody while another thread has to do with it\<close>
  "calm g \<longleftrightarrow>
     (\<forall>t i ob. object_of (gu_threads g t) = Some (i, ob) \<longrightarrow> i \<in> fst ` set (gu_cache g)) \<and>
     (\<forall>t t' i. gu_threads g t = Reading i \<longrightarrow> job_of (gu_threads g t') = Some i \<longrightarrow> t' = t)"

inductive calm_run :: "nat \<Rightarrow> guard \<Rightarrow> bool" for n :: nat where
  begins: "calm_run n (new_guard n)"
| goes: "calm_run n g \<Longrightarrow> guard_step g g' \<Longrightarrow> calm g' \<Longrightarrow> calm_run n g'"

definition objects_agree :: "guard \<Rightarrow> bool" where
  "objects_agree g \<longleftrightarrow> (\<forall>t i ob. object_of (gu_threads g t) = Some (i, ob) \<longrightarrow> map_of (gu_cache g) i = Some ob)"

definition locks_agree :: "guard \<Rightarrow> bool" where
  "locks_agree g \<longleftrightarrow> (\<forall>t i lk. lock_of (gu_threads g t) = Some (i, lk) \<longrightarrow> dget (gu_locks g) i = Some lk)"

definition holders_agree :: "guard \<Rightarrow> bool" where
  "holders_agree g \<longleftrightarrow> (\<forall>t lk. inside_lock (gu_threads g t) = Some lk \<longleftrightarrow> gu_held g lk = Some t)"

definition guard_ok :: "guard \<Rightarrow> bool" where
  "guard_ok g \<longleftrightarrow> distinct (map fst (gu_cache g)) \<and> objects_agree g \<and> locks_agree g \<and> holders_agree g"

lemma set_thread_simps [simp]:
  "gu_threads (set_thread t pc g) = (gu_threads g)(t := pc)" "gu_cache (set_thread t pc g) = gu_cache g"
  "gu_locks (set_thread t pc g) = gu_locks g" "gu_held (set_thread t pc g) = gu_held g" "gu_next (set_thread t pc g) = gu_next g"
  by (simp_all add: set_thread_def)

lemma put_object_simps [simp]:
  "gu_threads (put_object i g) = gu_threads g" "gu_held (put_object i g) = gu_held g" "gu_next (put_object i g) = Suc (Suc (gu_next g))"
  by (simp_all add: put_object_def Let_def)

lemma key_dropped:
  assumes "distinct (map fst c)" "k \<in> fst ` set (drop n c)"
  shows "map_of (drop n c) k = map_of c k" "k \<notin> set (map fst (take n c))"
proof -
  have d: "distinct (map fst (take n c) @ map fst (drop n c))" using assms(1) by (simp flip: map_append)
  then show k: "k \<notin> set (map fst (take n c))" using assms(2) by (auto simp: image_iff)
  have "map_of (take n c) k = None" using k by (simp add: map_of_eq_None_iff)
  then have "map_of (take n c @ drop n c) k = map_of (drop n c) k" by (simp add: map_add_def del: append_take_drop_id split: option.split)
  then show "map_of (drop n c) k = map_of c k" by simp
qed

lemma dget_filter_keys: "dget (filter (\<lambda>(k, v). P k) d) k = (if P k then dget d k else None)"
  by (induction d) auto

lemma dget_set_default: "dget (set_default i lk locks) k = (if k = i \<and> dget locks i = None then Some lk else dget locks k)"
  by (auto simp: set_default_def map_add_def split: option.split)

lemma put_object_keeps:
  assumes "distinct (map fst (gu_cache g))" "k \<in> fst ` set (gu_cache (put_object i g))"
  shows "map_of (gu_cache (put_object i g)) k = (if k = i then Some (gu_next g) else map_of (gu_cache g) k)"
    "dget (gu_locks (put_object i g)) k =
      (if k = i \<and> dget (gu_locks g) i = None then Some (Suc (gu_next g)) else dget (gu_locks g) k)"
proof -
  let ?c = "put_last i (gu_next g) (gu_cache g)"
  let ?n = "length ?c - gu_max g"
  have c: "gu_cache (put_object i g) = drop ?n ?c" by (simp add: put_object_def Let_def)
  note k = key_dropped [OF distinct_put_last [OF assms(1)] assms(2) [unfolded c]]
  show "map_of (gu_cache (put_object i g)) k = (if k = i then Some (gu_next g) else map_of (gu_cache g) k)"
    unfolding c k(1) by simp
  show "dget (gu_locks (put_object i g)) k =
      (if k = i \<and> dget (gu_locks g) i = None then Some (Suc (gu_next g)) else dget (gu_locks g) k)"
    using k(2) by (simp add: put_object_def Let_def dget_filter_keys dget_set_default)
qed

lemma distinct_put_object: "distinct (map fst (gu_cache g)) \<Longrightarrow> distinct (map fst (gu_cache (put_object i g)))"
  using distinct_put_last [of "gu_cache g" i "gu_next g"] by (simp add: put_object_def Let_def flip: drop_map)

text \<open>A step of one thread that leaves the objects, the locks and the holders of the others.\<close>

lemma guard_ok_thread:
  assumes "guard_ok g" "gu_cache g' = c" "\<And>k. map_of c k = map_of (gu_cache g) k" "distinct (map fst c)"
    and "gu_threads g' = (gu_threads g)(t := pc)"
    and "\<And>k lk. dget (gu_locks g) k = Some lk \<Longrightarrow> dget (gu_locks g') k = Some lk"
    and "\<And>i ob. object_of pc = Some (i, ob) \<Longrightarrow> map_of c i = Some ob"
    and "\<And>i lk. lock_of pc = Some (i, lk) \<Longrightarrow> dget (gu_locks g') i = Some lk"
    and "\<And>lk. gu_held g' lk = (if inside_lock (gu_threads g t) = Some lk then None else if inside_lock pc = Some lk then Some t else gu_held g lk)"
    and "\<And>lk. inside_lock pc = Some lk \<Longrightarrow> gu_held g lk = None"
  shows "guard_ok g'"
proof -
  have "objects_agree g'" using assms(1,3,5,7) by (auto simp: guard_ok_def objects_agree_def assms(2))
  moreover have "locks_agree g'" using assms(1,5,6,8) by (auto simp: guard_ok_def locks_agree_def)
  moreover have "holders_agree g'" using assms(1,5,9,10) unfolding guard_ok_def holders_agree_def
    by (auto split: if_splits)
  ultimately show ?thesis using assms(2,4) by (simp add: guard_ok_def)
qed

lemma guard_ok_put:
  assumes "guard_ok g" "calm (set_thread t pc (put_object i g))" "\<And>t'. t' \<noteq> t \<Longrightarrow> job_of (gu_threads g t') \<noteq> Some i"
    and "inside_lock pc = inside_lock (gu_threads g t)" "pc = Loaded i (gu_next g) \<or> pc = gu_threads g t \<and> job_of pc \<noteq> Some i"
  shows "guard_ok (set_thread t pc (put_object i g))" (is "guard_ok ?g")
proof -
  have g: "distinct (map fst (gu_cache g))" "objects_agree g" "locks_agree g" "holders_agree g" using assms(1) by (simp_all add: guard_ok_def)
  have job: "object_of p = Some (j, ob) \<Longrightarrow> job_of p = Some j" "lock_of p = Some (j, lk) \<Longrightarrow> \<exists>ob. object_of p = Some (j, ob)" for p j ob lk
    by (cases p; simp)+
  have cached: "j \<in> fst ` set (gu_cache (put_object i g))" if "object_of (gu_threads ?g t') = Some (j, ob)" for t' j ob
    using assms(2) that unfolding calm_def by simp metis
  have obj: "map_of (gu_cache (put_object i g)) j = Some ob" if o: "object_of (gu_threads ?g t') = Some (j, ob)" for t' j ob
  proof (cases "gu_threads ?g t' = Loaded i (gu_next g) \<and> t' = t")
    case True
    then show ?thesis using put_object_keeps(1) [OF g(1) cached [OF o]] o by auto
  next
    case False
    then have old: "gu_threads ?g t' = gu_threads g t'" and "j \<noteq> i" using assms(3,5) job(1) [OF o] by (auto split: if_splits)
    then show ?thesis using put_object_keeps(1) [OF g(1) cached [OF o]] g(2) o by (simp add: objects_agree_def old del: set_thread_simps)
  qed
  have lck: "dget (gu_locks (put_object i g)) j = Some lk" if l: "lock_of (gu_threads ?g t') = Some (j, lk)" for t' j lk
  proof -
    obtain ob where o: "object_of (gu_threads ?g t') = Some (j, ob)" using job(2) [OF l] by blast
    have old: "gu_threads ?g t' = gu_threads g t'" and "j \<noteq> i" using assms(3,5) job(1) [OF o] l by (auto split: if_splits)
    then show ?thesis using put_object_keeps(2) [OF g(1) cached [OF o]] g(3) l by (simp add: locks_agree_def old del: set_thread_simps)
  qed
  have "inside_lock (gu_threads ?g t') = inside_lock (gu_threads g t')" for t' using assms(4) by simp
  then have "holders_agree ?g" using g(4) by (simp add: holders_agree_def)
  then show ?thesis using obj lck distinct_put_object [OF g(1)] by (simp add: guard_ok_def objects_agree_def locks_agree_def)
qed

lemma known:
  "guard_ok g \<Longrightarrow> object_of (gu_threads g t) = Some (i, ob) \<Longrightarrow> map_of (gu_cache g) i = Some ob"
  "guard_ok g \<Longrightarrow> lock_of (gu_threads g t) = Some (i, lk) \<Longrightarrow> dget (gu_locks g) i = Some lk"
  "guard_ok g \<Longrightarrow> inside_lock (gu_threads g t) = Some lk \<longleftrightarrow> gu_held g lk = Some t"
  unfolding guard_ok_def objects_agree_def locks_agree_def holders_agree_def by blast+

lemma guard_step_ok:
  assumes "guard_step g g'" "guard_ok g" "calm g" "calm g'"
  shows "guard_ok g'"
  using assms
proof (induction rule: guard_step.induct)
  case (hit g t i ob)
  then have "distinct (map fst (gu_cache g))" by (simp add: guard_ok_def)
  then show ?case
    using hit by (intro guard_ok_thread [OF hit(3), where t = t and pc = "Loaded i ob" and c = "touch i (gu_cache g)"]) (auto simp: distinct_touch)
next
  case (miss g t i)
  then show ?case by (intro guard_ok_thread [OF miss(3), where t = t and pc = "Reading i" and c = "gu_cache g"]) (auto simp: guard_ok_def)
next
  case (no_row g t i)
  then show ?case by (intro guard_ok_thread [OF no_row(2), where t = t and pc = At_Rest and c = "gu_cache g"]) (auto simp: guard_ok_def)
next
  case (hydrated g t i)
  have "job_of (gu_threads g t') \<noteq> Some i" if "t' \<noteq> t" for t' using hydrated(1,3) that unfolding calm_def by metis
  then show ?case using hydrated by (intro guard_ok_put) auto
next
  case (made g i)
  have e: "set_thread 0 (gu_threads g 0) (put_object i g) = put_object i g" by (simp add: set_thread_def)
  then show ?case using guard_ok_put [of g 0 "gu_threads g 0" i] made by simp
next
  case (read_only g t i ob)
  then show ?case by (intro guard_ok_thread [OF read_only(2), where t = t and pc = At_Rest and c = "gu_cache g"]) (auto simp: guard_ok_def)
next
  case (asks g t i ob locks lk)
  have "map_of (gu_cache g) i = Some ob" using known(1) [OF asks(4), of t] asks(1) by simp
  then show ?case
    using asks by (intro guard_ok_thread [OF asks(4), where t = t and pc = "Queued i ob lk" and c = "gu_cache g"]) (auto simp: guard_ok_def dget_set_default)
next
  case (enters g t i ob lk)
  have "map_of (gu_cache g) i = Some ob" "dget (gu_locks g) i = Some lk"
    using known(1,2) [OF enters(3), of t] enters(1) by simp_all
  then show ?case
    using enters by (intro guard_ok_thread [OF enters(3), where t = t and pc = "Inside i ob lk" and c = "gu_cache g"]) (auto simp: guard_ok_def)
next
  case (leaves g t i ob lk)
  then show ?case by (intro guard_ok_thread [OF leaves(2), where t = t and pc = At_Rest and c = "gu_cache g"]) (auto simp: guard_ok_def)
qed

lemma new_guard_ok: "guard_ok (new_guard n)" "calm (new_guard n)"
  by (simp_all add: new_guard_def guard_ok_def objects_agree_def locks_agree_def holders_agree_def calm_def)

lemma calm_run_ok: "calm_run n g \<Longrightarrow> guard_ok g \<and> calm g"
  by (induction rule: calm_run.induct) (auto simp: new_guard_ok intro: guard_step_ok)


section \<open>A full cache\<close>

definition numbers_ok :: "guard \<Rightarrow> bool" where
  \<comment> \<open>the next number is new\<close>
  "numbers_ok g \<longleftrightarrow> (\<forall>t i ob. object_of (gu_threads g t) = Some (i, ob) \<longrightarrow> ob < gu_next g) \<and>
     (\<forall>t i lk. lock_of (gu_threads g t) = Some (i, lk) \<longrightarrow> lk < gu_next g) \<and>
     (\<forall>kv\<in>set (gu_cache g). snd kv < gu_next g) \<and> (\<forall>kv\<in>set (gu_locks g). snd kv < gu_next g) \<and>
     (\<forall>lk t. gu_held g lk = Some t \<longrightarrow> lk < gu_next g)"

lemma put_object_sets:
  "set (gu_cache (put_object i g)) \<subseteq> insert (i, gu_next g) (set (gu_cache g))"
  "set (gu_locks (put_object i g)) \<subseteq> insert (i, Suc (gu_next g)) (set (gu_locks g))"
  by (auto simp: put_object_def Let_def put_last_def set_default_def dest!: in_set_dropD)

lemma cached_number: "numbers_ok g \<Longrightarrow> map_of (gu_cache g) i = Some ob \<Longrightarrow> ob < gu_next g"
  by (fastforce simp: numbers_ok_def dest: map_of_SomeD)

lemma numbered:
  "numbers_ok g \<Longrightarrow> object_of (gu_threads g t) = Some (i, ob) \<Longrightarrow> ob < gu_next g"
  "numbers_ok g \<Longrightarrow> lock_of (gu_threads g t) = Some (i, lk) \<Longrightarrow> lk < gu_next g"
  "numbers_ok g \<Longrightarrow> dget (gu_locks g) i = Some lk \<Longrightarrow> lk < gu_next g"
  "numbers_ok g \<Longrightarrow> gu_held g lk = Some t \<Longrightarrow> lk < gu_next g"
  by (fastforce simp: numbers_ok_def dest: map_of_SomeD)+

lemma numbers_thread:
  assumes "numbers_ok g" "gu_next g \<le> gu_next g'" "gu_threads g' = (gu_threads g)(t := pc)"
    and "\<And>kv. kv \<in> set (gu_cache g') \<Longrightarrow> kv \<in> set (gu_cache g) \<or> snd kv < gu_next g'"
    and "\<And>kv. kv \<in> set (gu_locks g') \<Longrightarrow> kv \<in> set (gu_locks g) \<or> snd kv < gu_next g'"
    and "\<And>i ob. object_of pc = Some (i, ob) \<Longrightarrow> ob < gu_next g'" "\<And>i lk. lock_of pc = Some (i, lk) \<Longrightarrow> lk < gu_next g'"
    and "\<And>lk t'. gu_held g' lk = Some t' \<Longrightarrow> gu_held g lk = Some t' \<or> lk < gu_next g'"
  shows "numbers_ok g'"
proof -
  have up: "k < gu_next g \<Longrightarrow> k < gu_next g'" for k using assms(2) by simp
  have o: "object_of (gu_threads g' t') = Some (i, ob) \<Longrightarrow> ob < gu_next g'" for t' i ob
    using assms(1,3,6) up by (cases "t' = t") (auto simp: numbers_ok_def)
  have l: "lock_of (gu_threads g' t') = Some (i, lk) \<Longrightarrow> lk < gu_next g'" for t' i lk
    using assms(1,3,7) up by (cases "t' = t") (auto simp: numbers_ok_def)
  have c: "snd kv < gu_next g'" if "kv \<in> set (gu_cache g')" for kv
    using assms(1) assms(4) [OF that] up unfolding numbers_ok_def by blast
  have k: "snd kv < gu_next g'" if "kv \<in> set (gu_locks g')" for kv
    using assms(1) assms(5) [OF that] up unfolding numbers_ok_def by blast
  have h: "lk < gu_next g'" if "gu_held g' lk = Some t'" for lk t'
    using assms(1) assms(8) [OF that] up unfolding numbers_ok_def by blast
  show ?thesis unfolding numbers_ok_def using o l c k h by blast
qed

lemma put_object_numbers:
  assumes "numbers_ok g" "\<And>i ob. object_of pc = Some (i, ob) \<Longrightarrow> ob \<le> gu_next g" "\<And>i lk. lock_of pc = Some (i, lk) \<Longrightarrow> lk < gu_next g"
  shows "numbers_ok (set_thread t pc (put_object i g))"
proof (rule numbers_thread [OF assms(1)])
  fix kv
  show "kv \<in> set (gu_cache g) \<or> snd kv < gu_next (set_thread t pc (put_object i g))" if "kv \<in> set (gu_cache (set_thread t pc (put_object i g)))"
    using put_object_sets(1) [of i g] that by auto
  show "kv \<in> set (gu_locks g) \<or> snd kv < gu_next (set_thread t pc (put_object i g))" if "kv \<in> set (gu_locks (set_thread t pc (put_object i g)))"
    using put_object_sets(2) [of i g] that by auto
next
  show "ob < gu_next (set_thread t pc (put_object i g))" if "object_of pc = Some (j, ob)" for j ob using assms(2) [OF that] by simp
  show "lk < gu_next (set_thread t pc (put_object i g))" if "lock_of pc = Some (j, lk)" for j lk using assms(3) [OF that] by simp
qed auto

lemma numbers_step:
  assumes "guard_step g g'" "numbers_ok g"
  shows "numbers_ok g'"
  using assms
proof (induction rule: guard_step.induct)
  case (hit g t i ob)
  then show ?case using cached_number [OF hit(3,2)] by (intro numbers_thread [OF hit(3), where t = t and pc = "Loaded i ob"]) auto
next
  case (miss g t i)
  then show ?case by (intro numbers_thread [OF miss(3), where t = t and pc = "Reading i"]) auto
next
  case (no_row g t i)
  then show ?case by (intro numbers_thread [OF no_row(2), where t = t and pc = At_Rest]) auto
next
  case (hydrated g t i)
  then show ?case by (intro put_object_numbers) auto
next
  case (made g i)
  have "numbers_ok (set_thread 0 (gu_threads g 0) (put_object i g))"
    using made(3) by (intro put_object_numbers) (auto simp: numbers_ok_def less_imp_le)
  then show ?case by (simp add: set_thread_def put_object_def Let_def)
next
  case (read_only g t i ob)
  then show ?case by (intro numbers_thread [OF read_only(2), where t = t and pc = At_Rest]) auto
next
  case (asks g t i ob locks lk)
  have "ob < gu_next g" using numbered(1) [OF asks(4), of t] asks(1) by simp
  moreover have "lk \<le> gu_next g" using numbered(3) [OF asks(4), of i lk] asks(2,3) by (auto simp: dget_set_default split: if_splits)
  ultimately show ?case using asks by (intro numbers_thread [OF asks(4), where t = t and pc = "Queued i ob lk"]) (auto simp: set_default_def split: if_splits)
next
  case (enters g t i ob lk)
  have "ob < gu_next g" "lk < gu_next g" using numbered(1,2) [OF enters(3), of t] enters(1) by simp_all
  then show ?case using enters by (intro numbers_thread [OF enters(3), where t = t and pc = "Inside i ob lk"]) (auto split: if_splits)
next
  case (leaves g t i ob lk)
  then show ?case by (intro numbers_thread [OF leaves(2), where t = t and pc = At_Rest]) (auto split: if_splits)
qed

lemma numbers_reachable: "guard_step\<^sup>*\<^sup>* (new_guard n) g \<Longrightarrow> numbers_ok g"
proof (induction rule: rtranclp_induct)
  case base
  show ?case by (simp add: new_guard_def numbers_ok_def)
qed (rule numbers_step)

lemma put_object_last: "0 < gu_max g \<Longrightarrow> i \<in> fst ` set (gu_cache (put_object i g))"
  by (simp add: put_object_def put_last_def Let_def drop_append image_Un)

lemma guard_shape:
  assumes "guard_step\<^sup>*\<^sup>* (new_guard n) g"
  shows "gu_max g = n \<and> distinct (map fst (gu_cache g))"
  using assms
proof (induction rule: rtranclp_induct)
  case base
  show ?case by (simp add: new_guard_def)
next
  case (step g g')
  have "distinct (map fst (gu_cache (put_object i g)))" "distinct (map fst (touch i (gu_cache g)))" for i
    using step.IH by (simp_all add: distinct_put_object distinct_touch)
  with step.hyps(2) step.IH show ?case
    by (auto elim!: guard_step.cases simp: set_thread_def put_object_def Let_def)
qed

text \<open>
  When the cache has no room for the job of a thread that is inside a section, the job leaves the cache
  with its lock: a second thread that asks for the job then makes an object and a lock of its own, and goes
  into a section of the same job while the first is still inside, neither seeing what the other does.
\<close>

theorem full_cache_splits_a_job:
  assumes "guard_step\<^sup>*\<^sup>* (new_guard n) g" "0 < n"
    and "gu_threads g t = Inside i ob lk" "gu_threads g t' = At_Rest" "map_of (gu_cache g) i = None" "dget (gu_locks g) i = None"
  shows "\<exists>g' ob' lk'. guard_step\<^sup>*\<^sup>* g g' \<and> gu_threads g' t = Inside i ob lk \<and> gu_threads g' t' = Inside i ob' lk' \<and>
    t \<noteq> t' \<and> ob' \<noteq> ob \<and> lk' \<noteq> lk"
proof -
  have num: "numbers_ok g" using assms(1) by (rule numbers_reachable)
  have shape: "gu_max g = n" "distinct (map fst (gu_cache g))" using guard_shape [OF assms(1)] by simp_all
  have tt: "t \<noteq> t'" using assms(3,4) by auto
  let ?g1 = "set_thread t' (Reading i) g"
  let ?g2 = "set_thread t' (Loaded i (gu_next ?g1)) (put_object i ?g1)"
  let ?lk = "Suc (gu_next g)"
  let ?g3 = "set_thread t' (Queued i (gu_next g) ?lk) (?g2\<lparr>gu_locks := gu_locks ?g2, gu_next := Suc (gu_next ?g2)\<rparr>)"
  let ?g4 = "set_thread t' (Inside i (gu_next g) ?lk) (?g3\<lparr>gu_held := (gu_held ?g3)(?lk := Some t')\<rparr>)"
  have "i \<in> fst ` set (gu_cache (put_object i ?g1))" using put_object_last shape(1) assms(2) by (simp add: set_thread_def)
  then have lk: "dget (gu_locks ?g2) i = Some ?lk" using put_object_keeps(2) [of ?g1 i i] shape(2) assms(6) by simp
  have "guard_step g ?g1" using assms(4,5) by (rule miss)
  moreover have "guard_step ?g1 ?g2" by (rule hydrated) simp
  moreover have "guard_step ?g2 ?g3" by (rule asks) (use lk in \<open>simp_all add: set_default_def\<close>)
  moreover have "gu_held g ?lk = None" using numbered(4) [OF num, of ?lk] by (cases "gu_held g ?lk") auto
  then have "guard_step ?g3 ?g4" by (intro enters) simp_all
  ultimately have "guard_step\<^sup>*\<^sup>* g ?g4" by (meson converse_rtranclp_into_rtranclp rtranclp.rtrancl_refl)
  moreover have "ob < gu_next g" "lk < gu_next g" using numbered(1,2) [OF num, of t] assms(3) by simp_all
  ultimately show ?thesis using tt assms(3) by (intro exI [of _ ?g4] exI [of _ "gu_next g"] exI [of _ ?lk]) simp
qed

text \<open>One thread inside a section of the only job, and then a second job.\<close>

definition busy_guard :: "nat \<Rightarrow> guard" where
  "busy_guard n =
     (let g1 = put_object ''j1'' (new_guard n);
          g2 = set_thread 0 (Loaded ''j1'' 0) (g1\<lparr>gu_cache := touch ''j1'' (gu_cache g1)\<rparr>);
          g3 = set_thread 0 (Queued ''j1'' 0 1) (g2\<lparr>gu_locks := gu_locks g2, gu_next := Suc (gu_next g2)\<rparr>)
      in set_thread 0 (Inside ''j1'' 0 1) (g3\<lparr>gu_held := (gu_held g3)(1 := Some 0)\<rparr>))"

lemma first_job: "gu_cache (put_object ''j1'' (new_guard (Suc n))) = [(''j1'', 0)]" "gu_locks (put_object ''j1'' (new_guard (Suc n))) = [(''j1'', 1)]"
  by (simp_all add: put_object_def new_guard_def put_last_def set_default_def)

lemma busy_guard_reached: "calm_run (Suc n) (busy_guard (Suc n)) \<and> guard_step\<^sup>*\<^sup>* (new_guard (Suc n)) (busy_guard (Suc n))"
proof -
  let ?g0 = "new_guard (Suc n)"
  let ?g1 = "put_object ''j1'' ?g0"
  let ?g2 = "set_thread 0 (Loaded ''j1'' 0) (?g1\<lparr>gu_cache := touch ''j1'' (gu_cache ?g1)\<rparr>)"
  let ?g3 = "set_thread 0 (Queued ''j1'' 0 1) (?g2\<lparr>gu_locks := gu_locks ?g2, gu_next := Suc (gu_next ?g2)\<rparr>)"
  let ?g4 = "set_thread 0 (Inside ''j1'' 0 1) (?g3\<lparr>gu_held := (gu_held ?g3)(1 := Some 0)\<rparr>)"
  have b: "busy_guard (Suc n) = ?g4" by (simp only: busy_guard_def Let_def)
  have rest: "gu_threads ?g0 = (\<lambda>t. At_Rest)" "gu_held ?g0 = (\<lambda>lk. None)" "gu_cache ?g0 = []" by (simp_all add: new_guard_def)
  have s: "guard_step ?g0 ?g1" "guard_step ?g1 ?g2" "guard_step ?g2 ?g3" "guard_step ?g3 ?g4"
  proof -
    show "guard_step ?g0 ?g1" by (rule made) (simp_all add: rest)
    show "guard_step ?g1 ?g2" by (rule hit) (simp_all add: rest first_job)
    show "guard_step ?g2 ?g3" by (rule asks) (simp_all add: set_default_def first_job)
    show "guard_step ?g3 ?g4" by (rule enters) (simp_all add: rest)
  qed
  have "calm ?g1" "calm ?g2" "calm ?g3" "calm ?g4" by (simp_all add: calm_def rest first_job touch_def)
  then have "calm_run (Suc n) ?g4" using s by (meson begins goes)
  moreover have "guard_step\<^sup>*\<^sup>* ?g0 ?g4" using s by (meson converse_rtranclp_into_rtranclp rtranclp.rtrancl_refl)
  ultimately show ?thesis unfolding b by blast
qed

lemma busy_guard_inside: "gu_threads (busy_guard n) = (\<lambda>t. At_Rest)(0 := Inside ''j1'' 0 1)"
  by (simp add: busy_guard_def Let_def new_guard_def)


theorem full_cache_splits_a_job_witness:
  "\<exists>g' ob' lk'. guard_step\<^sup>*\<^sup>* (put_object ''j2'' (busy_guard 1)) g' \<and> gu_threads g' 0 = Inside ''j1'' 0 1 \<and>
     gu_threads g' 1 = Inside ''j1'' ob' lk' \<and> ob' \<noteq> 0 \<and> lk' \<noteq> 1"
proof -
  let ?g = "put_object ''j2'' (busy_guard 1)"
  have b: "gu_cache (busy_guard 1) = [(''j1'', 0)]" "gu_locks (busy_guard 1) = [(''j1'', 1)]" "gu_max (busy_guard 1) = 1" by code_simp+
  have "guard_step (busy_guard 1) ?g" by (rule made) (unfold b busy_guard_inside, simp_all)
  then have r: "guard_step\<^sup>*\<^sup>* (new_guard 1) ?g" using busy_guard_reached [of 0] unfolding One_nat_def by (blast intro: rtranclp.rtrancl_into_rtrancl)
  have "map_of (gu_cache ?g) ''j1'' = None" "dget (gu_locks ?g) ''j1'' = None"
    unfolding put_object_def Let_def b by (simp_all add: put_last_def set_default_def)
  then show ?thesis
    using full_cache_splits_a_job [OF r, of 0 "''j1''" 0 1 1] by (auto simp: busy_guard_inside)
qed

end
