(* ===== verification/ObjectStorage.thy ===== *)
theory ObjectStorage
  imports JobRepo
begin

text \<open>
  \<open>S3Storage\<close> and \<open>get_storage\<close> in \<open>app/storage/__init__.py\<close>: blobs in a bucket, through the client of the service,
  which is a parameter, and the choice of a storage by its name in the settings.
\<close>

section \<open>Buckets\<close>

datatype s3_error = NoSuchKey | Other_Error

record 's s3_client =
  s3_put_object :: "string \<Rightarrow> string \<Rightarrow> string \<Rightarrow> 's \<Rightarrow> 's \<times> (s3_error + unit)"
  s3_get_object :: "string \<Rightarrow> string \<Rightarrow> 's \<Rightarrow> s3_error + string"
  s3_delete_object :: "string \<Rightarrow> string \<Rightarrow> 's \<Rightarrow> 's \<times> (s3_error + unit)"
  s3_head_object :: "string \<Rightarrow> string \<Rightarrow> 's \<Rightarrow> s3_error + unit"

definition s3_put :: "'s s3_client \<Rightarrow> string \<Rightarrow> string \<Rightarrow> string \<Rightarrow> 's \<Rightarrow> 's \<times> string res" where
  "s3_put cl bucket k d s =
     (case s3_put_object cl bucket k d s of (s', Inl e) \<Rightarrow> (s', Inl ClientError) | (s', Inr _) \<Rightarrow> (s', Inr k))"

definition s3_get :: "'s s3_client \<Rightarrow> string \<Rightarrow> string \<Rightarrow> 's \<Rightarrow> string res" where
  "s3_get cl bucket k s =
     (case s3_get_object cl bucket k s of
        Inl NoSuchKey \<Rightarrow> Inl ObjectNotFound | Inl Other_Error \<Rightarrow> Inl ClientError | Inr d \<Rightarrow> Inr d)"

definition s3_delete :: "'s s3_client \<Rightarrow> string \<Rightarrow> string \<Rightarrow> 's \<Rightarrow> 's \<times> unit res" where
  "s3_delete cl bucket k s =
     (case s3_delete_object cl bucket k s of (s', Inl e) \<Rightarrow> (s', Inl ClientError) | (s', Inr _) \<Rightarrow> (s', Inr ()))"

definition s3_exists :: "'s s3_client \<Rightarrow> string \<Rightarrow> string \<Rightarrow> 's \<Rightarrow> bool" where
  \<comment> \<open>any failure counts as absence\<close>
  "s3_exists cl bucket k s \<longleftrightarrow> (case s3_head_object cl bucket k s of Inl e \<Rightarrow> False | Inr _ \<Rightarrow> True)"

definition s3_storage :: "'s s3_client \<Rightarrow> string \<Rightarrow> 's storage" where
  "s3_storage cl bucket = \<lparr>st_put = s3_put cl bucket, st_get = s3_get cl bucket, st_delete = s3_delete cl bucket, st_exists = s3_exists cl bucket\<rparr>"

datatype backend = In_Memory | In_Bucket | In_Files

definition storage_backend :: "string \<Rightarrow> backend" where
  "storage_backend name =
     (if lower name = ''memory'' then In_Memory else if lower name = ''s3'' then In_Bucket else In_Files)"

section \<open>A service that keeps its objects\<close>

text \<open>
  What the service promises while it is up: a bucket is a map from keys to objects, a read of an absent key
  is refused as such, and deleting one is no error.
\<close>

definition service_up :: "'s s3_client \<Rightarrow> string \<Rightarrow> ('s \<Rightarrow> bool) \<Rightarrow> ('s \<Rightarrow> string \<rightharpoonup> string) \<Rightarrow> bool" where
  "service_up cl bucket up objects \<longleftrightarrow> (\<forall>s k. up s \<longrightarrow>
     s3_get_object cl bucket k s = (case objects s k of None \<Rightarrow> Inl NoSuchKey | Some d \<Rightarrow> Inr d) \<and>
     s3_head_object cl bucket k s = (case objects s k of None \<Rightarrow> Inl Other_Error | Some d \<Rightarrow> Inr ()) \<and>
     (\<forall>d. \<exists>s'. s3_put_object cl bucket k d s = (s', Inr ()) \<and> up s' \<and> objects s' = (objects s)(k \<mapsto> d)) \<and>
     (\<exists>s'. s3_delete_object cl bucket k s = (s', Inr ()) \<and> up s' \<and> objects s' = (objects s)(k := None)))"

lemma service_upD:
  assumes "service_up cl bucket up objects" "up s"
  shows "s3_get cl bucket k s = (case objects s k of None \<Rightarrow> Inl ObjectNotFound | Some d \<Rightarrow> Inr d)"
    "s3_exists cl bucket k s \<longleftrightarrow> objects s k \<noteq> None"
    "\<exists>s'. s3_put cl bucket k d s = (s', Inr k) \<and> up s' \<and> objects s' = (objects s)(k \<mapsto> d)"
    "\<exists>s'. s3_delete cl bucket k s = (s', Inr ()) \<and> up s' \<and> objects s' = (objects s)(k := None)"
proof -
  note up = assms(1) [unfolded service_up_def, rule_format, OF assms(2)]
  show "s3_get cl bucket k s = (case objects s k of None \<Rightarrow> Inl ObjectNotFound | Some d \<Rightarrow> Inr d)"
    using up [of k] by (simp add: s3_get_def split: option.split)
  show "s3_exists cl bucket k s \<longleftrightarrow> objects s k \<noteq> None"
    using up [of k] by (simp add: s3_exists_def split: option.split)
  obtain s1 where "s3_put_object cl bucket k d s = (s1, Inr ())" "up s1" "objects s1 = (objects s)(k \<mapsto> d)"
    using up [of k] by metis
  then show "\<exists>s'. s3_put cl bucket k d s = (s', Inr k) \<and> up s' \<and> objects s' = (objects s)(k \<mapsto> d)" by (simp add: s3_put_def)
  obtain s2 where "s3_delete_object cl bucket k s = (s2, Inr ())" "up s2" "objects s2 = (objects s)(k := None)"
    using up [of k] by metis
  then show "\<exists>s'. s3_delete cl bucket k s = (s', Inr ()) \<and> up s' \<and> objects s' = (objects s)(k := None)" by (simp add: s3_delete_def)
qed

lemma bucket_is_blob_store:
  assumes "service_up cl bucket up objects"
  shows "blob_store (s3_storage cl bucket) up (\<lambda>k. True) objects"
proof
  fix s k d s' r u
  assume up: "up s"
  note law = service_upD [OF assms up, of k]
  show "st_get (s3_storage cl bucket) k s = (case objects s k of None \<Rightarrow> Inl ObjectNotFound | Some d \<Rightarrow> Inr d)"
    "st_exists (s3_storage cl bucket) k s \<longleftrightarrow> objects s k \<noteq> None" using law(1,2) by (simp_all add: s3_storage_def)
  show "up s' \<and> r = Inr k \<and> (\<forall>k'. True \<longrightarrow> objects s' k' = ((objects s)(k \<mapsto> d)) k')" if "st_put (s3_storage cl bucket) k d s = (s', r)"
    using law(3) [of d] that by (auto simp: s3_storage_def)
  show "up s' \<and> u = Inr () \<and> (\<forall>k'. True \<longrightarrow> objects s' k' = ((objects s)(k := None)) k')" if "st_delete (s3_storage cl bucket) k s = (s', u)"
    using law(4) that by (auto simp: s3_storage_def)
qed

text \<open>whatever calls are made, a bucket of a service that is up answers them exactly as the storage in
  memory does: the choice of a backend shows in no answer.\<close>
theorem bucket_answers_like_memory:
  assumes "service_up cl bucket up objects" "up s" "objects s = dget m"
  shows "do_ops (s3_storage cl bucket) xs s = do_ops memory_storage xs m"
proof -
  have "do_ops (s3_storage cl bucket) xs s = do_ops map_storage xs (objects s)"
    by (rule blob_store.answers_of_map [OF bucket_is_blob_store [OF assms(1)]]) (simp_all add: assms)
  moreover have "do_ops memory_storage xs m = do_ops map_storage xs (dget m)"
    by (rule memory.answers_of_map) simp_all
  ultimately show ?thesis by (simp add: assms(3))
qed

definition demo_s3 :: "((string \<times> string) list) s3_client" where
  "demo_s3 =
     \<lparr>s3_put_object = (\<lambda>bucket k d s. (AList.update k d s, Inr ())),
      s3_get_object = (\<lambda>bucket k s. case map_of s k of None \<Rightarrow> Inl NoSuchKey | Some d \<Rightarrow> Inr d),
      s3_delete_object = (\<lambda>bucket k s. (AList.delete k s, Inr ())),
      s3_head_object = (\<lambda>bucket k s. case map_of s k of None \<Rightarrow> Inl Other_Error | Some d \<Rightarrow> Inr ())\<rparr>"

lemma demo_s3_up: "service_up demo_s3 bucket (\<lambda>s. True) map_of"
  by (simp add: service_up_def demo_s3_def update_conv' delete_conv')

theorem bucket_answers_like_memory_witness:
  "do_ops (s3_storage demo_s3 ''b'') [Put_Blob ''k'' ''v'', Get_Blob ''k'', Delete_Blob ''k'', Get_Blob ''k''] [] =
     do_ops memory_storage [Put_Blob ''k'' ''v'', Get_Blob ''k'', Delete_Blob ''k'', Get_Blob ''k''] []"
  by (rule bucket_answers_like_memory [OF demo_s3_up TrueI refl])

text \<open>A job persisted to a bucket is read back as it was, in another process, while the service is up.\<close>
lemma stored_in_bucket:
  assumes "service_up cl bucket up objects" "up b"
    and "plain org" "plain (j_id j)"
    and "row_by_id (j_id j) rows = Some r" "jr_org r = org" "j_org j = Some org" "jr_entity r = entity_value (j_entity j)"
    and "\<not> truthy (jr_upload_key r)" "j_xml j \<noteq> None \<or> \<not> truthy (jr_xml_key r)" "tables_follow rd j"
  shows "\<exists>rows' b' r'. persist (s3_storage cl bucket) j (rows, b) = ((rows', b'), Inr ()) \<and> row_by_id (j_id j) rows' = Some r' \<and>
    hydrate rd (s3_storage cl bucket) now r' b' = Inr (reloaded now j)"
  by (rule blob_store.persist_hydrate [OF bucket_is_blob_store [OF assms(1)] assms(2) _ _ job_keys_differ [OF assms(3,4)] assms(5-11)])
    simp_all

end
