(* ===== verification/Tenancy.thy ===== *)
theory Tenancy
  imports Templates
begin

text \<open>
  Row-level security: \<open>set_tenant\<close> in \<open>app/db/base.py\<close> binds an organization to a transaction, and on Postgres
  the policy of the migrations lets a transaction see and write only the rows of the organization bound to it.
  The services filter by organization as well; here the queries of \<open>app/services/template_service.py\<close> run in a
  session with and without the policy, and are compared with \<open>Templates\<close>, which knows nothing of sessions.
  The connection is that of a role the policy applies to, as production demands.
\<close>

section \<open>Sessions\<close>

record 'r sql_session =
  ss_rows :: "'r list"
  ss_secured :: bool
  ss_org :: "string option"

datatype sql_error = RowSecurityError | InvalidRequestError

definition new_session :: "bool \<Rightarrow> 'r list \<Rightarrow> 'r sql_session" where
  "new_session secured rows = \<lparr>ss_rows = rows, ss_secured = secured, ss_org = None\<rparr>"

definition set_tenant :: "string \<Rightarrow> 'r sql_session \<Rightarrow> 'r sql_session" where
  \<comment> \<open>only on Postgres\<close>
  "set_tenant org s = (if ss_secured s then s\<lparr>ss_org := Some org\<rparr> else s)"

definition sees :: "('r \<Rightarrow> string) \<Rightarrow> 'r sql_session \<Rightarrow> 'r \<Rightarrow> bool" where
  "sees org_of s r \<longleftrightarrow> \<not> ss_secured s \<or> ss_org s = Some (org_of r)"

definition select :: "('r \<Rightarrow> string) \<Rightarrow> ('r \<Rightarrow> bool) \<Rightarrow> 'r sql_session \<Rightarrow> 'r list" where
  "select org_of P s = filter (\<lambda>r. sees org_of s r \<and> P r) (ss_rows s)"

definition insert_row :: "('r \<Rightarrow> string) \<Rightarrow> 'r \<Rightarrow> 'r sql_session \<Rightarrow> sql_error + 'r sql_session" where
  "insert_row org_of r s = (if sees org_of s r then Inr (s\<lparr>ss_rows := ss_rows s @ [r]\<rparr>) else Inl RowSecurityError)"

definition update_rows :: "('r \<Rightarrow> string) \<Rightarrow> ('r \<Rightarrow> bool) \<Rightarrow> ('r \<Rightarrow> 'r) \<Rightarrow> 'r sql_session \<Rightarrow> 'r sql_session" where
  "update_rows org_of P f s = s\<lparr>ss_rows := map (\<lambda>r. if sees org_of s r \<and> P r then f r else r) (ss_rows s)\<rparr>"

definition delete_rows :: "('r \<Rightarrow> string) \<Rightarrow> ('r \<Rightarrow> bool) \<Rightarrow> 'r sql_session \<Rightarrow> 'r sql_session" where
  "delete_rows org_of P s = s\<lparr>ss_rows := filter (\<lambda>r. \<not> (sees org_of s r \<and> P r)) (ss_rows s)\<rparr>"

definition commit :: "'r sql_session \<Rightarrow> 'r sql_session" where
  \<comment> \<open>the setting is of the transaction, and ends with it\<close>
  "commit s = s\<lparr>ss_org := None\<rparr>"

definition refresh :: "('r \<Rightarrow> string) \<Rightarrow> ('r \<Rightarrow> bool) \<Rightarrow> 'r sql_session \<Rightarrow> sql_error + 'r" where
  "refresh org_of P s = (case select org_of P s of [] \<Rightarrow> Inl InvalidRequestError | r # _ \<Rightarrow> Inr r)"

section \<open>The template service in a session\<close>

definition session_list ::
    "(stored_template list \<Rightarrow> stored_template list) \<Rightarrow> bool \<Rightarrow> template_table \<Rightarrow> string \<Rightarrow> entity_type \<Rightarrow> template_view list" where
  "session_list by_name_order secured db org ent =
     map view (by_name_order (select tp_org (\<lambda>t. tp_org t = org \<and> tp_entity t = entity_value ent) (set_tenant org (new_session secured db))))"

definition session_save ::
    "bool \<Rightarrow> template_table \<Rightarrow> string \<times> int \<Rightarrow> string \<Rightarrow> string \<Rightarrow> entity_type \<Rightarrow> string \<Rightarrow> (string, string option) dict \<Rightarrow>
     (string, string) dict \<Rightarrow> string list \<Rightarrow> template_table \<times> (sql_error + template_view)" where
  "session_save secured db new_row org user ent name mapping constants cols =
     (let s = set_tenant org (new_session secured db);
          fill = (\<lambda>t. t\<lparr>tp_mapping := clean_mapping mapping, tp_constants := filter (\<lambda>(k, v). strip v \<noteq> '''') constants, tp_columns := cols\<rparr>);
          (i, flushed) =
            (case select tp_org (same_key org ent name) s of
               t # _ \<Rightarrow> (tp_id t, Inr (update_rows tp_org (\<lambda>u. tp_id u = tp_id t) fill s))
             | [] \<Rightarrow> (fst new_row, insert_row tp_org
                       (fill \<lparr>tp_id = fst new_row, tp_org = org, tp_created_by = user, tp_entity = entity_value ent, tp_name = name,
                              tp_mapping = [], tp_constants = [], tp_columns = [], tp_created_at = snd new_row\<rparr>) s))
      in case flushed of
           Inl e \<Rightarrow> (db, Inl e)
         | Inr s1 \<Rightarrow>
             let s2 = commit s1 in
             (ss_rows s2, case refresh tp_org (\<lambda>u. tp_id u = i) s2 of Inl e \<Rightarrow> Inl e | Inr t \<Rightarrow> Inr (view t)))"

definition session_delete :: "bool \<Rightarrow> template_table \<Rightarrow> string \<Rightarrow> string \<Rightarrow> template_table \<times> bool" where
  "session_delete secured db org tid =
     (let s = set_tenant org (new_session secured db) in
      case select tp_org (\<lambda>t. tp_org t = org \<and> tp_id t = tid) s of
        [] \<Rightarrow> (db, False)
      | t # _ \<Rightarrow> (ss_rows (commit (delete_rows tp_org (\<lambda>u. tp_id u = tp_id t) s)), True))"

section \<open>The count of the jobs\<close>

text \<open>The endpoint of \<open>app/api/routers/health.py\<close> counts in a session no organization is bound to.\<close>

definition session_count :: "('r \<Rightarrow> string) \<Rightarrow> bool \<Rightarrow> 'r list \<Rightarrow> nat" where
  "session_count org_of secured rows = length (select org_of (\<lambda>r. True) (new_session secured rows))"

definition healthz :: "('r \<Rightarrow> string) \<Rightarrow> bool \<Rightarrow> 'r list \<Rightarrow> string \<times> nat" where
  "healthz org_of secured rows = (''ok'', session_count org_of secured rows)"

lemma health_counts_nothing:
  "healthz org_of False rows = (''ok'', length rows)" "healthz org_of True rows = (''ok'', 0)"
  by (simp_all add: healthz_def session_count_def select_def sees_def new_session_def)

section \<open>The policy and the filters\<close>

lemma bound_session [simp]:
  "ss_rows (set_tenant org (new_session secured db)) = db"
  "sees org_of (set_tenant org (new_session secured db)) r \<longleftrightarrow> \<not> secured \<or> org_of r = org"
  by (auto simp: set_tenant_def new_session_def sees_def)

lemma select_bound:
  assumes "\<And>r. P r \<Longrightarrow> org_of r = org"
  shows "select org_of P (set_tenant org (new_session secured db)) = filter P db"
  using assms by (auto simp: select_def intro!: filter_cong)

lemma same_by: "distinct (map f db) \<Longrightarrow> t \<in> set db \<Longrightarrow> u \<in> set db \<Longrightarrow> f u = f t \<longleftrightarrow> u = t"
  by (auto simp: distinct_map dest: inj_onD)

lemma find_filter: "find P xs = (case filter P xs of [] \<Rightarrow> None | x # _ \<Rightarrow> Some x)"
  by (induction xs) auto

lemma filter_head: "filter P xs = x # ys \<Longrightarrow> x \<in> set xs \<and> P x"
  by (drule arg_cong [where f = set]) auto

definition table_ok :: "template_table \<Rightarrow> bool" where
  "table_ok db \<longleftrightarrow> distinct (map tp_id db) \<and> distinct (map key_of db)"

lemma session_delete_same:
  assumes "table_ok db"
  shows "session_delete secured db org tid = delete_template db org tid"
proof -
  have ids: "distinct (map tp_id db)" using assms by (simp add: table_ok_def)
  let ?hit = "\<lambda>t. tp_org t = org \<and> tp_id t = tid"
  have sel: "select tp_org ?hit (set_tenant org (new_session secured db)) = filter ?hit db" by (rule select_bound) simp
  show ?thesis
  proof (cases "filter ?hit db")
    case Nil
    then have "\<not> list_ex ?hit db" by (simp add: filter_empty_conv list_ex_iff)
    then show ?thesis using Nil unfolding session_delete_def Let_def sel by (simp add: delete_template_def)
  next
    case (Cons t ts)
    have t: "t \<in> set db" "?hit t" using filter_head [OF Cons] by simp_all
    then have "list_ex ?hit db" by (auto simp: list_ex_iff)
    moreover have "((\<not> secured \<or> tp_org u = org) \<and> tp_id u = tp_id t) = ?hit u" if "u \<in> set db" for u
    proof -
      have "tp_id u = tp_id t \<longleftrightarrow> u = t" using same_by [OF ids t(1) that] .
      then show ?thesis using t(2) by metis
    qed
    then have "filter (\<lambda>u. \<not> ((\<not> secured \<or> tp_org u = org) \<and> tp_id u = tp_id t)) db = filter (\<lambda>u. \<not> ?hit u) db" by (intro filter_cong) simp_all
    ultimately show ?thesis using Cons unfolding session_delete_def Let_def sel by (simp add: delete_template_def commit_def delete_rows_def)
  qed
qed

lemma only_one: "distinct (map f xs) \<Longrightarrow> x \<in> set xs \<Longrightarrow> filter (\<lambda>y. f y = f x) xs = [x]"
  by (induction xs) (auto simp: filter_empty_conv image_iff)

lemma session_save_same:
  assumes "table_ok db" "fst new_row \<notin> tp_id ` set db"
    and saved: "save_template db new_row org user ent name mapping constants cols = (db', v)"
  shows "session_save secured db new_row org user ent name mapping constants cols =
    (db', if secured then Inl InvalidRequestError else Inr v)"
proof -
  have ids: "distinct (map tp_id db)" and keys: "distinct (map key_of db)" using assms(1) by (simp_all add: table_ok_def)
  let ?key = "same_key org ent name"
  let ?fill = "\<lambda>t. t\<lparr>tp_mapping := clean_mapping mapping, tp_constants := filter (\<lambda>(k, v). strip v \<noteq> '''') constants, tp_columns := cols\<rparr>"
  let ?s = "set_tenant org (new_session secured db)"
  have sel: "select tp_org ?key ?s = filter ?key db" by (rule select_bound) (simp add: same_key_def)
  have after: "refresh tp_org (\<lambda>u. tp_id u = i) (commit s) = Inl InvalidRequestError" if "ss_secured s" for i and s :: "stored_template sql_session"
    using that by (simp add: refresh_def select_def sees_def commit_def)
  have found: "refresh tp_org (\<lambda>u. tp_id u = i) (commit s) = Inr t"
    if "\<not> ss_secured s" "filter (\<lambda>u. tp_id u = i) (ss_rows s) = [t]" for i t and s :: "stored_template sql_session"
    using that by (simp add: refresh_def select_def sees_def commit_def)
  have kind: "ss_secured ?s = secured" by (simp add: set_tenant_def new_session_def)
  show ?thesis
  proof (cases "filter ?key db")
    case Nil
    let ?t = "?fill \<lparr>tp_id = fst new_row, tp_org = org, tp_created_by = user, tp_entity = entity_value ent, tp_name = name,
                     tp_mapping = [], tp_constants = [], tp_columns = [], tp_created_at = snd new_row\<rparr>"
    have "db' = db @ [?t]" "v = view ?t" using Nil saved by (simp_all add: save_template_def find_filter Let_def)
    moreover have "insert_row tp_org ?t ?s = Inr (?s\<lparr>ss_rows := db @ [?t]\<rparr>)" by (simp add: insert_row_def)
    moreover have "filter (\<lambda>u. tp_id u = fst new_row) (db @ [?t]) = [?t]" using assms(2) by (simp add: filter_empty_conv) (metis image_eqI)
    ultimately show ?thesis
      using Nil after [of "?s\<lparr>ss_rows := db @ [?t]\<rparr>"] found [of "?s\<lparr>ss_rows := db @ [?t]\<rparr>" "fst new_row" ?t]
      unfolding session_save_def Let_def sel by (simp add: kind commit_def)
  next
    case (Cons t ts)
    have t: "t \<in> set db" "?key t" using filter_head [OF Cons] by simp_all
    let ?rows = "map (\<lambda>u. if ?key u then ?fill u else u) db"
    have only: "?key u \<longleftrightarrow> u = t" if "u \<in> set db" for u
      using same_by [OF keys t(1) that] t(2) by (simp add: same_key_iff)
    have "db' = ?rows" "v = view (?fill t)" using Cons saved by (simp_all add: save_template_def find_filter Let_def)
    moreover have "map (\<lambda>u. if (\<not> secured \<or> tp_org u = org) \<and> tp_id u = tp_id t then ?fill u else u) db = ?rows"
    proof (intro map_cong refl)
      fix u assume u: "u \<in> set db"
      have "(\<not> secured \<or> tp_org u = org) \<and> tp_id u = tp_id t \<longleftrightarrow> ?key u"
        using only [OF u] same_by [OF ids t(1) u] t(2) by (auto simp: same_key_def)
      then show "(if (\<not> secured \<or> tp_org u = org) \<and> tp_id u = tp_id t then ?fill u else u) = (if ?key u then ?fill u else u)" by simp
    qed
    then have "update_rows tp_org (\<lambda>u. tp_id u = tp_id t) ?fill ?s = ?s\<lparr>ss_rows := ?rows\<rparr>" by (simp add: update_rows_def)
    moreover have "filter (\<lambda>u. tp_id u = tp_id t) ?rows = [?fill t]"
      using only_one [OF ids t(1)] t(2) by (simp add: filter_map o_def if_distrib [of tp_id] cong: if_cong)
    ultimately show ?thesis
      using Cons after [of "?s\<lparr>ss_rows := ?rows\<rparr>"] found [of "?s\<lparr>ss_rows := ?rows\<rparr>" "tp_id t" "?fill t"]
      unfolding session_save_def Let_def sel by (simp add: kind commit_def)
  qed
qed

text \<open>
  C34: Under the policy the service lists and deletes exactly what it does without it, and leaves the same
  table after a save; a query that forgets its own filter gets rows of the organization bound to the
  transaction only, and none when no organization is bound.
\<close>

theorem policy_agrees_with_filters:
  assumes "table_ok db" "fst new_row \<notin> tp_id ` set db"
  shows "session_list by_name_order secured db org ent = list_templates by_name_order db org ent \<and>
    session_delete secured db org tid = delete_template db org tid \<and>
    fst (session_save secured db new_row org user ent name mapping constants cols) =
      fst (save_template db new_row org user ent name mapping constants cols) \<and>
    set (select tp_org P (set_tenant org (new_session True db))) \<subseteq> {t. tp_org t = org} \<and>
    select tp_org P (new_session True db) = []"
proof -
  have "select tp_org (\<lambda>t. tp_org t = org \<and> tp_entity t = entity_value ent) (set_tenant org (new_session secured db)) =
      filter (\<lambda>t. tp_org t = org \<and> tp_entity t = entity_value ent) db" by (rule select_bound) simp
  moreover obtain db' v where s: "save_template db new_row org user ent name mapping constants cols = (db', v)" by fastforce
  moreover have "select tp_org P (new_session True db) = []" by (simp add: select_def sees_def new_session_def)
  moreover have "set (select tp_org P (set_tenant org (new_session True db))) \<subseteq> {t. tp_org t = org}" by (auto simp: select_def)
  ultimately show ?thesis
    using session_save_same [OF assms s] session_delete_same [OF assms(1)] by (simp add: session_list_def list_templates_def)
qed

theorem policy_agrees_with_filters_witness:
  "session_delete True [sample_template ''a'' ''x'' [], sample_template ''b'' ''y'' []] ''x'' ''b'' =
     ([sample_template ''a'' ''x'' [], sample_template ''b'' ''y'' []], False) \<and>
   session_list id True [sample_template ''a'' ''x'' [], sample_template ''b'' ''y'' []] ''x'' LEDGER = [view (sample_template ''a'' ''x'' [])]"
proof -
  let ?db = "[sample_template ''a'' ''x'' [], sample_template ''b'' ''y'' []]"
  have "table_ok ?db" "fst (''c'', 0 :: int) \<notin> tp_id ` set ?db" by (simp_all add: table_ok_def sample_template_def key_of_def)
  note p = policy_agrees_with_filters [OF this, of id True "''x''" LEDGER "''b''" "''u''" "''n''" "[]" "[]" "[]" "\<lambda>t. True"]
  have "delete_template ?db ''x'' ''b'' = (?db, False)" "list_templates id ?db ''x'' LEDGER = [view (sample_template ''a'' ''x'' [])]"
    by (simp_all add: delete_template_def list_templates_def sample_template_def)
  then show ?thesis using p by simp
qed

text \<open>
  The answer to a save is read back after the commit, in a transaction no organization is bound to: under the
  policy the template is saved, and the request fails.
\<close>

theorem saved_but_not_answered:
  assumes "table_ok db" "fst new_row \<notin> tp_id ` set db"
    and "save_template db new_row org user ent name mapping constants cols = (db', v)"
  shows "session_save False db new_row org user ent name mapping constants cols = (db', Inr v) \<and>
    session_save True db new_row org user ent name mapping constants cols = (db', Inl InvalidRequestError)"
  using session_save_same [OF assms] by simp

theorem saved_but_not_answered_witness:
  "snd (session_save True [] (''c'', 0) ''x'' ''u'' LEDGER ''n'' [] [] []) = Inl InvalidRequestError \<and>
   length (fst (session_save True [] (''c'', 0) ''x'' ''u'' LEDGER ''n'' [] [] [])) = 1"
proof -
  have "table_ok []" "fst (''c'', 0 :: int) \<notin> tp_id ` set []" by (simp_all add: table_ok_def)
  moreover obtain db' v where s: "save_template [] (''c'', 0) ''x'' ''u'' LEDGER ''n'' [] [] [] = (db', v)" by fastforce
  moreover have "length db' = 1" using s by (auto simp: save_template_def Let_def)
  ultimately show ?thesis using saved_but_not_answered by force
qed

end
