(* ===== verification/Migrations.thy ===== *)
theory Migrations
  imports Tenancy Identity
begin

text \<open>
  The schema of the database: the migrations under \<open>alembic/versions\<close>, each a script that takes the schema up and
  one that takes it down again, and the tables that \<open>app/db/models.py\<close> declares.  A statement is executed as
  Postgres does, which refuses more than SQLite.
\<close>

section \<open>Schemas\<close>

datatype column_type = Varchar nat | Json | Whole | Timestamp

record column =
  co_name :: string
  co_type :: column_type
  co_nullable :: bool
  co_default :: "string option"

record foreign_key =
  fk_columns :: "string list"
  fk_table :: string
  fk_target :: "string list"
  fk_cascade :: bool

record table_def =
  tb_name :: string
  tb_columns :: "column list"
  tb_key :: "string list"
  tb_uniques :: "(string option \<times> string list) list"
  tb_foreign :: "foreign_key list"

record index_def =
  ix_name :: string
  ix_table :: string
  ix_columns :: "string list"
  ix_unique :: bool

record schema =
  sc_tables :: "table_def list"
  sc_indexes :: "index_def list"
  sc_secured :: "string set"
  sc_forced :: "string set"
  sc_policies :: "(string \<times> string) set"

datatype db_error = DuplicateTable | UndefinedTable | DuplicateIndex | UndefinedIndex | DuplicateColumn | UndefinedColumn |
  DependentObjects | DuplicatePolicy

datatype ddl =
    Create_Table table_def
  | Drop_Table string
  | Create_Index index_def
  | Drop_Index string string
  | Add_Column string column
  | Drop_Column string string
  | Alter_Nullable string string bool
  | Enable_Security string
  | Force_Security string
  | No_Force_Security string
  | Disable_Security string
  | Create_Policy string string
  | Drop_Policy_If_Exists string string

definition has_table :: "string \<Rightarrow> schema \<Rightarrow> bool" where
  "has_table t s \<longleftrightarrow> t \<in> tb_name ` set (sc_tables s)"

definition has_column :: "string \<Rightarrow> string \<Rightarrow> schema \<Rightarrow> bool" where
  "has_column t c s \<longleftrightarrow> (\<exists>tb\<in>set (sc_tables s). tb_name tb = t \<and> c \<in> co_name ` set (tb_columns tb))"

definition on_table :: "string \<Rightarrow> (table_def \<Rightarrow> table_def) \<Rightarrow> schema \<Rightarrow> schema" where
  "on_table t f s = s\<lparr>sc_tables := map (\<lambda>tb. if tb_name tb = t then f tb else tb) (sc_tables s)\<rparr>"

fun exec_ddl :: "ddl \<Rightarrow> schema \<Rightarrow> db_error + schema" where
  "exec_ddl (Create_Table tb) s =
     (if has_table (tb_name tb) s then Inl DuplicateTable
      else if \<exists>fk\<in>set (tb_foreign tb). fk_table fk \<noteq> tb_name tb \<and> \<not> has_table (fk_table fk) s then Inl UndefinedTable
      else Inr (s\<lparr>sc_tables := sc_tables s @ [tb]\<rparr>))"
| "exec_ddl (Drop_Table t) s =
     (if \<not> has_table t s then Inl UndefinedTable
      else if \<exists>tb\<in>set (sc_tables s). tb_name tb \<noteq> t \<and> (\<exists>fk\<in>set (tb_foreign tb). fk_table fk = t) then Inl DependentObjects
      else Inr \<lparr>sc_tables = filter (\<lambda>tb. tb_name tb \<noteq> t) (sc_tables s), sc_indexes = filter (\<lambda>ix. ix_table ix \<noteq> t) (sc_indexes s),
                sc_secured = sc_secured s - {t}, sc_forced = sc_forced s - {t},
                sc_policies = Set.filter (\<lambda>(u, p). u \<noteq> t) (sc_policies s)\<rparr>)"
| "exec_ddl (Create_Index ix) s =
     (if \<not> has_table (ix_table ix) s then Inl UndefinedTable
      else if \<exists>c\<in>set (ix_columns ix). \<not> has_column (ix_table ix) c s then Inl UndefinedColumn
      else if ix_name ix \<in> ix_name ` set (sc_indexes s) then Inl DuplicateIndex
      else Inr (s\<lparr>sc_indexes := sc_indexes s @ [ix]\<rparr>))"
| "exec_ddl (Drop_Index i t) s =
     (if \<exists>ix\<in>set (sc_indexes s). ix_name ix = i \<and> ix_table ix = t
      then Inr (s\<lparr>sc_indexes := filter (\<lambda>ix. ix_name ix \<noteq> i) (sc_indexes s)\<rparr>) else Inl UndefinedIndex)"
| "exec_ddl (Add_Column t co) s =
     (if \<not> has_table t s then Inl UndefinedTable
      else if has_column t (co_name co) s then Inl DuplicateColumn
      else Inr (on_table t (\<lambda>tb. tb\<lparr>tb_columns := tb_columns tb @ [co]\<rparr>) s))"
| "exec_ddl (Drop_Column t c) s =
     (if \<not> has_column t c s then Inl UndefinedColumn
      else Inr ((on_table t (\<lambda>tb. tb\<lparr>tb_columns := filter (\<lambda>co. co_name co \<noteq> c) (tb_columns tb)\<rparr>) s)
                  \<lparr>sc_indexes := filter (\<lambda>ix. \<not> (ix_table ix = t \<and> c \<in> set (ix_columns ix))) (sc_indexes s)\<rparr>))"
| "exec_ddl (Alter_Nullable t c b) s =
     (if \<not> has_column t c s then Inl UndefinedColumn
      else Inr (on_table t (\<lambda>tb. tb\<lparr>tb_columns := map (\<lambda>co. if co_name co = c then co\<lparr>co_nullable := b\<rparr> else co) (tb_columns tb)\<rparr>) s))"
| "exec_ddl (Enable_Security t) s =
     (if has_table t s then Inr (s\<lparr>sc_secured := insert t (sc_secured s)\<rparr>) else Inl UndefinedTable)"
| "exec_ddl (Force_Security t) s =
     (if has_table t s then Inr (s\<lparr>sc_forced := insert t (sc_forced s)\<rparr>) else Inl UndefinedTable)"
| "exec_ddl (No_Force_Security t) s =
     (if has_table t s then Inr (s\<lparr>sc_forced := sc_forced s - {t}\<rparr>) else Inl UndefinedTable)"
| "exec_ddl (Disable_Security t) s =
     (if has_table t s then Inr (s\<lparr>sc_secured := sc_secured s - {t}\<rparr>) else Inl UndefinedTable)"
| "exec_ddl (Create_Policy t p) s =
     (if \<not> has_column t ''org_id'' s then Inl UndefinedColumn
      else if (t, p) \<in> sc_policies s then Inl DuplicatePolicy
      else Inr (s\<lparr>sc_policies := insert (t, p) (sc_policies s)\<rparr>))"
| "exec_ddl (Drop_Policy_If_Exists t p) s =
     (if has_table t s then Inr (s\<lparr>sc_policies := sc_policies s - {(t, p)}\<rparr>) else Inl UndefinedTable)"

fun run_script :: "ddl list \<Rightarrow> schema \<Rightarrow> db_error + schema" where
  "run_script [] s = Inr s"
| "run_script (x # xs) s = (case exec_ddl x s of Inl e \<Rightarrow> Inl e | Inr s' \<Rightarrow> run_script xs s')"

definition no_schema :: schema where
  "no_schema = \<lparr>sc_tables = [], sc_indexes = [], sc_secured = {}, sc_forced = {}, sc_policies = {}\<rparr>"

section \<open>The migrations\<close>

datatype dialect = Sqlite | Postgresql

definition filled :: "string \<Rightarrow> column_type \<Rightarrow> column" where
  "filled c ty = \<lparr>co_name = c, co_type = ty, co_nullable = False, co_default = None\<rparr>"

definition maybe :: "string \<Rightarrow> column_type \<Rightarrow> column" where
  "maybe c ty = (filled c ty)\<lparr>co_nullable := True\<rparr>"

definition refers :: "string \<Rightarrow> string \<Rightarrow> foreign_key" where
  "refers c t = \<lparr>fk_columns = [c], fk_table = t, fk_target = [''id''], fk_cascade = False\<rparr>"

definition plain_index :: "string \<Rightarrow> string \<Rightarrow> string list \<Rightarrow> ddl" where
  "plain_index i t cs = Create_Index \<lparr>ix_name = i, ix_table = t, ix_columns = cs, ix_unique = False\<rparr>"

definition unique_index :: "string \<Rightarrow> string \<Rightarrow> string list \<Rightarrow> ddl" where
  "unique_index i t cs = Create_Index \<lparr>ix_name = i, ix_table = t, ix_columns = cs, ix_unique = True\<rparr>"

definition policy_of :: "string \<Rightarrow> string" where
  "policy_of t = t @ ''_tenant_isolation''"

definition secure :: "string \<Rightarrow> ddl list" where
  "secure t = [Enable_Security t, Force_Security t, Create_Policy t (policy_of t)]"

definition unsecure :: "string \<Rightarrow> ddl list" where
  "unsecure t = [Drop_Policy_If_Exists t (policy_of t), Disable_Security t]"

text \<open>\<open>4e7f73db858e\<close>: organizations, users, jobs, memberships.\<close>

definition initial_up :: "ddl list" where
  "initial_up =
     [Create_Table \<lparr>tb_name = ''organizations'',
        tb_columns = [filled ''id'' (Varchar 32), filled ''name'' (Varchar 200), filled ''slug'' (Varchar 200), filled ''created_at'' Timestamp],
        tb_key = [''id''], tb_uniques = [(None, [''slug''])], tb_foreign = []\<rparr>,
      Create_Table \<lparr>tb_name = ''users'',
        tb_columns = [filled ''id'' (Varchar 32), filled ''email'' (Varchar 320), filled ''password_hash'' (Varchar 512),
          maybe ''full_name'' (Varchar 200), filled ''created_at'' Timestamp],
        tb_key = [''id''], tb_uniques = [], tb_foreign = []\<rparr>,
      unique_index ''ix_users_email'' ''users'' [''email''],
      Create_Table \<lparr>tb_name = ''jobs'',
        tb_columns = [filled ''id'' (Varchar 32), filled ''org_id'' (Varchar 32), filled ''created_by'' (Varchar 32), filled ''entity_type'' (Varchar 20),
          filled ''status'' (Varchar 20), maybe ''filename'' (Varchar 400), maybe ''company'' (Varchar 200), maybe ''upload_key'' (Varchar 500),
          maybe ''mapping_json'' Json, maybe ''constants_json'' Json, maybe ''validation_json'' Json, maybe ''resolution_json'' Json,
          maybe ''xml_key'' (Varchar 500), maybe ''push_json'' Json, maybe ''notes_json'' Json, filled ''error_count'' Whole,
          filled ''created_at'' Timestamp, filled ''updated_at'' Timestamp],
        tb_key = [''id''], tb_uniques = [], tb_foreign = [refers ''created_by'' ''users'', refers ''org_id'' ''organizations'']\<rparr>,
      plain_index ''ix_jobs_org_id'' ''jobs'' [''org_id''],
      plain_index ''ix_jobs_org_status'' ''jobs'' [''org_id'', ''status''],
      Create_Table \<lparr>tb_name = ''memberships'',
        tb_columns = [filled ''id'' (Varchar 32), filled ''org_id'' (Varchar 32), filled ''user_id'' (Varchar 32), filled ''role'' (Varchar 20)],
        tb_key = [''id''], tb_uniques = [(Some ''uq_membership_org_user'', [''org_id'', ''user_id''])],
        tb_foreign = [refers ''org_id'' ''organizations'', refers ''user_id'' ''users'']\<rparr>,
      plain_index ''ix_memberships_org_id'' ''memberships'' [''org_id''],
      plain_index ''ix_memberships_user_id'' ''memberships'' [''user_id'']]"

definition initial_down :: "ddl list" where
  "initial_down =
     [Drop_Index ''ix_memberships_user_id'' ''memberships'', Drop_Index ''ix_memberships_org_id'' ''memberships'', Drop_Table ''memberships'',
      Drop_Index ''ix_jobs_org_status'' ''jobs'', Drop_Index ''ix_jobs_org_id'' ''jobs'', Drop_Table ''jobs'',
      Drop_Index ''ix_users_email'' ''users'', Drop_Table ''users'', Drop_Table ''organizations'']"

text \<open>\<open>0002_rls_policies\<close>, on Postgres only.\<close>

definition rls_up :: "dialect \<Rightarrow> ddl list" where
  "rls_up d = (if d = Postgresql then secure ''jobs'' else [])"

definition rls_down :: "dialect \<Rightarrow> ddl list" where
  "rls_down d = (if d = Postgresql then unsecure ''jobs'' else [])"

text \<open>\<open>0003_bridges\<close>.\<close>

definition bridges_up :: "ddl list" where
  "bridges_up =
     [Create_Table \<lparr>tb_name = ''bridges'',
        tb_columns = [filled ''id'' (Varchar 32), filled ''org_id'' (Varchar 32), filled ''name'' (Varchar 200), filled ''api_key_hash'' (Varchar 128),
          (filled ''status'' (Varchar 20))\<lparr>co_default := Some ''active''\<rparr>, maybe ''last_seen_at'' Timestamp, maybe ''created_at'' Timestamp],
        tb_key = [''id''], tb_uniques = [], tb_foreign = [refers ''org_id'' ''organizations'']\<rparr>,
      plain_index ''ix_bridges_org_id'' ''bridges'' [''org_id''],
      plain_index ''ix_bridges_api_key_hash'' ''bridges'' [''api_key_hash'']]"

definition bridges_down :: "ddl list" where
  "bridges_down =
     [Drop_Index ''ix_bridges_api_key_hash'' ''bridges'', Drop_Index ''ix_bridges_org_id'' ''bridges'', Drop_Table ''bridges'']"

text \<open>\<open>3cc5d6e3a60d\<close>: staged records.\<close>

definition staged_up :: "ddl list" where
  "staged_up =
     [Create_Table \<lparr>tb_name = ''staged_records'',
        tb_columns = [filled ''id'' (Varchar 32), filled ''org_id'' (Varchar 32), filled ''job_id'' (Varchar 32), maybe ''order_id'' (Varchar 200),
          filled ''data'' Json, filled ''created_at'' Timestamp],
        tb_key = [''id''], tb_uniques = [],
        tb_foreign = [(refers ''job_id'' ''jobs'')\<lparr>fk_cascade := True\<rparr>, refers ''org_id'' ''organizations'']\<rparr>,
      plain_index ''ix_staged_records_created_at'' ''staged_records'' [''created_at''],
      plain_index ''ix_staged_records_job_id'' ''staged_records'' [''job_id''],
      plain_index ''ix_staged_records_job_order'' ''staged_records'' [''job_id'', ''order_id''],
      plain_index ''ix_staged_records_org_id'' ''staged_records'' [''org_id''],
      Alter_Nullable ''bridges'' ''created_at'' False]"

definition staged_down :: "ddl list" where
  "staged_down =
     [Alter_Nullable ''bridges'' ''created_at'' True,
      Drop_Index ''ix_staged_records_org_id'' ''staged_records'', Drop_Index ''ix_staged_records_job_order'' ''staged_records'',
      Drop_Index ''ix_staged_records_job_id'' ''staged_records'', Drop_Index ''ix_staged_records_created_at'' ''staged_records'',
      Drop_Table ''staged_records'']"

text \<open>\<open>0004_keycloak_identity\<close>.\<close>

definition identity_up :: "dialect \<Rightarrow> ddl list" where
  "identity_up d =
     [Add_Column ''users'' (maybe ''idp_sub'' (Varchar 64)),
      Alter_Nullable ''users'' ''password_hash'' True,
      unique_index ''ix_users_idp_sub'' ''users'' [''idp_sub''],
      Create_Table \<lparr>tb_name = ''service_accounts'',
        tb_columns = [filled ''id'' (Varchar 32), filled ''org_id'' (Varchar 32), filled ''user_id'' (Varchar 32), filled ''client_id'' (Varchar 255),
          filled ''name'' (Varchar 200), (filled ''role'' (Varchar 20))\<lparr>co_default := Some ''member''\<rparr>,
          (filled ''status'' (Varchar 20))\<lparr>co_default := Some ''active''\<rparr>, maybe ''created_at'' Timestamp],
        tb_key = [''id''], tb_uniques = [], tb_foreign = [refers ''org_id'' ''organizations'', refers ''user_id'' ''users'']\<rparr>,
      plain_index ''ix_service_accounts_org_id'' ''service_accounts'' [''org_id''],
      unique_index ''ix_service_accounts_client_id'' ''service_accounts'' [''client_id'']] @
     (if d = Postgresql then secure ''service_accounts'' else [])"

definition identity_down :: "dialect \<Rightarrow> ddl list" where
  "identity_down d =
     (if d = Postgresql then unsecure ''service_accounts'' else []) @
     [Drop_Index ''ix_service_accounts_client_id'' ''service_accounts'', Drop_Index ''ix_service_accounts_org_id'' ''service_accounts'',
      Drop_Table ''service_accounts'', Drop_Index ''ix_users_idp_sub'' ''users'',
      Alter_Nullable ''users'' ''password_hash'' False, Drop_Column ''users'' ''idp_sub'']"

text \<open>\<open>0005_mapping_templates\<close>.\<close>

definition templates_up :: "dialect \<Rightarrow> ddl list" where
  "templates_up d =
     [Create_Table \<lparr>tb_name = ''mapping_templates'',
        tb_columns = [filled ''id'' (Varchar 32), filled ''org_id'' (Varchar 32), filled ''created_by'' (Varchar 32), filled ''entity_type'' (Varchar 20),
          filled ''name'' (Varchar 200), filled ''mapping_json'' Json, filled ''constants_json'' Json, filled ''source_columns_json'' Json,
          filled ''created_at'' Timestamp, filled ''updated_at'' Timestamp],
        tb_key = [''id''], tb_uniques = [(Some ''uq_mapping_template_org_entity_name'', [''org_id'', ''entity_type'', ''name''])],
        tb_foreign = [refers ''org_id'' ''organizations'', refers ''created_by'' ''users'']\<rparr>,
      plain_index ''ix_mapping_templates_org_id'' ''mapping_templates'' [''org_id''],
      plain_index ''ix_mapping_templates_org_entity'' ''mapping_templates'' [''org_id'', ''entity_type'']] @
     (if d = Postgresql then secure ''mapping_templates'' else [])"

definition templates_down :: "dialect \<Rightarrow> ddl list" where
  "templates_down d =
     (if d = Postgresql then unsecure ''mapping_templates'' else []) @
     [Drop_Index ''ix_mapping_templates_org_entity'' ''mapping_templates'', Drop_Index ''ix_mapping_templates_org_id'' ''mapping_templates'',
      Drop_Table ''mapping_templates'']"

text \<open>\<open>0006_service_accounts_no_rls\<close>.\<close>

definition no_rls_up :: "dialect \<Rightarrow> ddl list" where
  "no_rls_up d =
     (if d = Postgresql
      then [Drop_Policy_If_Exists ''service_accounts'' (policy_of ''service_accounts''), No_Force_Security ''service_accounts'',
            Disable_Security ''service_accounts'']
      else [])"

definition no_rls_down :: "dialect \<Rightarrow> ddl list" where
  "no_rls_down d = (if d = Postgresql then secure ''service_accounts'' else [])"

record revision =
  rv_id :: string
  rv_down :: "string option"
  rv_upgrade :: "dialect \<Rightarrow> ddl list"
  rv_downgrade :: "dialect \<Rightarrow> ddl list"

definition versions :: "revision list" where
  \<comment> \<open>as the files stand in the directory\<close>
  "versions =
     [\<lparr>rv_id = ''0002_rls_policies'', rv_down = Some ''4e7f73db858e'', rv_upgrade = rls_up, rv_downgrade = rls_down\<rparr>,
      \<lparr>rv_id = ''0003_bridges'', rv_down = Some ''0002_rls_policies'', rv_upgrade = (\<lambda>d. bridges_up), rv_downgrade = (\<lambda>d. bridges_down)\<rparr>,
      \<lparr>rv_id = ''0004_keycloak_identity'', rv_down = Some ''3cc5d6e3a60d'', rv_upgrade = identity_up, rv_downgrade = identity_down\<rparr>,
      \<lparr>rv_id = ''0005_mapping_templates'', rv_down = Some ''0004_keycloak_identity'', rv_upgrade = templates_up, rv_downgrade = templates_down\<rparr>,
      \<lparr>rv_id = ''0006_service_accounts_no_rls'', rv_down = Some ''0005_mapping_templates'', rv_upgrade = no_rls_up, rv_downgrade = no_rls_down\<rparr>,
      \<lparr>rv_id = ''3cc5d6e3a60d'', rv_down = Some ''0003_bridges'', rv_upgrade = (\<lambda>d. staged_up), rv_downgrade = (\<lambda>d. staged_down)\<rparr>,
      \<lparr>rv_id = ''4e7f73db858e'', rv_down = None, rv_upgrade = (\<lambda>d. initial_up), rv_downgrade = (\<lambda>d. initial_down)\<rparr>]"

fun follow :: "nat \<Rightarrow> revision list \<Rightarrow> string option \<Rightarrow> revision list" where
  \<comment> \<open>each revision names the one before it\<close>
  "follow 0 vs d = []"
| "follow (Suc n) vs d = (case find (\<lambda>v. rv_down v = d) vs of None \<Rightarrow> [] | Some v \<Rightarrow> v # follow n vs (Some (rv_id v)))"

definition history :: "revision list" where
  "history = follow (length versions) versions None"

definition upgrade_script :: "dialect \<Rightarrow> nat \<Rightarrow> nat \<Rightarrow> ddl list" where
  \<comment> \<open>from the state after \<open>m\<close> revisions to that after \<open>n\<close>\<close>
  "upgrade_script d m n = concat (map (\<lambda>v. rv_upgrade v d) (drop m (take n history)))"

definition downgrade_script :: "dialect \<Rightarrow> nat \<Rightarrow> nat \<Rightarrow> ddl list" where
  "downgrade_script d n m = concat (map (\<lambda>v. rv_downgrade v d) (rev (drop m (take n history))))"

section \<open>The models\<close>

record mapped =
  mc_name :: string
  mc_type :: column_type
  mc_optional :: bool
  mc_primary :: bool
  mc_unique :: bool
  mc_index :: bool
  mc_foreign :: "(string \<times> bool) option"

definition mapped_as :: "string \<Rightarrow> column_type \<Rightarrow> mapped" where
  "mapped_as c ty =
     \<lparr>mc_name = c, mc_type = ty, mc_optional = False, mc_primary = False, mc_unique = False, mc_index = False, mc_foreign = None\<rparr>"

definition optional :: "mapped \<Rightarrow> mapped" where "optional m = m\<lparr>mc_optional := True\<rparr>"
definition unique_col :: "mapped \<Rightarrow> mapped" where "unique_col m = m\<lparr>mc_unique := True\<rparr>"
definition indexed :: "mapped \<Rightarrow> mapped" where "indexed m = m\<lparr>mc_index := True\<rparr>"

definition id_column :: mapped where
  "id_column = (mapped_as ''id'' (Varchar 32))\<lparr>mc_primary := True\<rparr>"

definition key_of_table :: "string \<Rightarrow> string \<Rightarrow> mapped" where
  \<comment> \<open>a foreign key has the type of the column it refers to\<close>
  "key_of_table c t = (mapped_as c (Varchar 32))\<lparr>mc_foreign := Some (t, False)\<rparr>"

record model_class =
  md_table :: string
  md_columns :: "mapped list"
  md_uniques :: "(string \<times> string list) list"
  md_indexes :: "(string \<times> string list) list"

definition metadata_table :: "model_class \<Rightarrow> table_def" where
  "metadata_table m =
     \<lparr>tb_name = md_table m,
      tb_columns = map (\<lambda>c. \<lparr>co_name = mc_name c, co_type = mc_type c, co_nullable = mc_optional c, co_default = None\<rparr>) (md_columns m),
      tb_key = map mc_name (filter mc_primary (md_columns m)),
      tb_uniques = map (\<lambda>c. (None, [mc_name c])) (filter (\<lambda>c. mc_unique c \<and> \<not> mc_index c) (md_columns m)) @
        map (\<lambda>(n, cs). (Some n, cs)) (md_uniques m),
      tb_foreign = List.map_filter
        (\<lambda>c. case mc_foreign c of None \<Rightarrow> None | Some (t, b) \<Rightarrow> Some ((refers (mc_name c) t)\<lparr>fk_cascade := b\<rparr>)) (md_columns m)\<rparr>"

definition metadata_indexes :: "model_class \<Rightarrow> index_def list" where
  "metadata_indexes m =
     map (\<lambda>c. \<lparr>ix_name = ''ix_'' @ md_table m @ ''_'' @ mc_name c, ix_table = md_table m, ix_columns = [mc_name c], ix_unique = mc_unique c\<rparr>)
       (filter mc_index (md_columns m)) @
     map (\<lambda>(n, cs). \<lparr>ix_name = n, ix_table = md_table m, ix_columns = cs, ix_unique = False\<rparr>) (md_indexes m)"

definition organization_model :: model_class where
  "organization_model =
     \<lparr>md_table = ''organizations'',
      md_columns = [id_column, mapped_as ''name'' (Varchar 200), unique_col (mapped_as ''slug'' (Varchar 200)), mapped_as ''created_at'' Timestamp],
      md_uniques = [], md_indexes = []\<rparr>"

definition user_model :: model_class where
  "user_model =
     \<lparr>md_table = ''users'',
      md_columns = [id_column, indexed (unique_col (mapped_as ''email'' (Varchar 320))), optional (mapped_as ''password_hash'' (Varchar 512)),
        optional (mapped_as ''full_name'' (Varchar 200)), optional (indexed (unique_col (mapped_as ''idp_sub'' (Varchar 64)))),
        mapped_as ''created_at'' Timestamp],
      md_uniques = [], md_indexes = []\<rparr>"

definition membership_model :: model_class where
  "membership_model =
     \<lparr>md_table = ''memberships'',
      md_columns = [id_column, indexed (key_of_table ''org_id'' ''organizations''), indexed (key_of_table ''user_id'' ''users''),
        mapped_as ''role'' (Varchar 20)],
      md_uniques = [(''uq_membership_org_user'', [''org_id'', ''user_id''])], md_indexes = []\<rparr>"

definition service_account_model :: model_class where
  "service_account_model =
     \<lparr>md_table = ''service_accounts'',
      md_columns = [id_column, indexed (key_of_table ''org_id'' ''organizations''), key_of_table ''user_id'' ''users'',
        indexed (unique_col (mapped_as ''client_id'' (Varchar 255))), mapped_as ''name'' (Varchar 200), mapped_as ''role'' (Varchar 20),
        mapped_as ''status'' (Varchar 20), mapped_as ''created_at'' Timestamp],
      md_uniques = [], md_indexes = []\<rparr>"

definition bridge_model :: model_class where
  "bridge_model =
     \<lparr>md_table = ''bridges'',
      md_columns = [id_column, indexed (key_of_table ''org_id'' ''organizations''), mapped_as ''name'' (Varchar 200),
        indexed (mapped_as ''api_key_hash'' (Varchar 128)), mapped_as ''status'' (Varchar 20), optional (mapped_as ''last_seen_at'' Timestamp),
        mapped_as ''created_at'' Timestamp],
      md_uniques = [], md_indexes = []\<rparr>"

definition job_model :: model_class where
  "job_model =
     \<lparr>md_table = ''jobs'',
      md_columns = [id_column, indexed (key_of_table ''org_id'' ''organizations''), key_of_table ''created_by'' ''users'',
        mapped_as ''entity_type'' (Varchar 20), mapped_as ''status'' (Varchar 20), optional (mapped_as ''filename'' (Varchar 400)),
        optional (mapped_as ''company'' (Varchar 200)), optional (mapped_as ''upload_key'' (Varchar 500)),
        optional (mapped_as ''mapping_json'' Json), optional (mapped_as ''constants_json'' Json), optional (mapped_as ''validation_json'' Json),
        optional (mapped_as ''resolution_json'' Json), optional (mapped_as ''xml_key'' (Varchar 500)), optional (mapped_as ''push_json'' Json),
        optional (mapped_as ''notes_json'' Json), mapped_as ''error_count'' Whole, mapped_as ''created_at'' Timestamp, mapped_as ''updated_at'' Timestamp],
      md_uniques = [], md_indexes = [(''ix_jobs_org_status'', [''org_id'', ''status''])]\<rparr>"

definition template_model :: model_class where
  "template_model =
     \<lparr>md_table = ''mapping_templates'',
      md_columns = [id_column, indexed (key_of_table ''org_id'' ''organizations''), key_of_table ''created_by'' ''users'',
        mapped_as ''entity_type'' (Varchar 20), mapped_as ''name'' (Varchar 200), mapped_as ''mapping_json'' Json, mapped_as ''constants_json'' Json,
        mapped_as ''source_columns_json'' Json, mapped_as ''created_at'' Timestamp, mapped_as ''updated_at'' Timestamp],
      md_uniques = [(''uq_mapping_template_org_entity_name'', [''org_id'', ''entity_type'', ''name''])],
      md_indexes = [(''ix_mapping_templates_org_entity'', [''org_id'', ''entity_type''])]\<rparr>"

definition staged_model :: model_class where
  "staged_model =
     \<lparr>md_table = ''staged_records'',
      md_columns = [id_column, indexed (key_of_table ''org_id'' ''organizations''),
        indexed ((key_of_table ''job_id'' ''jobs'')\<lparr>mc_foreign := Some (''jobs'', True)\<rparr>), optional (mapped_as ''order_id'' (Varchar 200)),
        mapped_as ''data'' Json, mapped_as ''created_at'' Timestamp],
      md_uniques = [],
      md_indexes = [(''ix_staged_records_job_order'', [''job_id'', ''order_id'']), (''ix_staged_records_created_at'', [''created_at''])]\<rparr>"

definition models :: "model_class list" where
  "models = [organization_model, user_model, membership_model, service_account_model, bridge_model, job_model, template_model, staged_model]"

section \<open>Where the migrations lead\<close>

definition same_constraints :: "table_def \<Rightarrow> table_def \<Rightarrow> bool" where
  "same_constraints a b \<longleftrightarrow> tb_key a = tb_key b \<and> set (tb_uniques a) = set (tb_uniques b) \<and> set (tb_foreign a) = set (tb_foreign b) \<and>
     set (map co_name (tb_columns a)) = set (map co_name (tb_columns b))"

definition column_drift :: "table_def \<Rightarrow> table_def \<Rightarrow> (string \<times> column) list" where
  \<comment> \<open>the columns of a table that are not in the other as they are\<close>
  "column_drift a b = map (\<lambda>c. (tb_name a, c)) (filter (\<lambda>c. c \<notin> set (tb_columns b)) (tb_columns a))"

definition find_table :: "string \<Rightarrow> table_def list \<Rightarrow> table_def option" where
  "find_table t tbs = find (\<lambda>tb. tb_name tb = t) tbs"

text \<open>
  C35: The revisions form one chain, and on an empty database each runs on what those before it have made,
  on SQLite and on Postgres.  The end has the tables, the columns, the keys, the unique constraints, the foreign
  keys and the indexes that the models declare; only four columns differ: three have a default of their own in
  the database, and the time a service account was created may be missing there.  On Postgres the jobs and
  the saved templates are protected by a policy, and the other tables of an organization are not.
\<close>

theorem migrations_reach_models:
  "map rv_id history = [''4e7f73db858e'', ''0002_rls_policies'', ''0003_bridges'', ''3cc5d6e3a60d'', ''0004_keycloak_identity'',
     ''0005_mapping_templates'', ''0006_service_accounts_no_rls''] \<and> length history = length versions \<and>
   (case run_script (upgrade_script d 0 (length history)) no_schema of
      Inl e \<Rightarrow> False
    | Inr s \<Rightarrow>
        set (map tb_name (sc_tables s)) = set (map md_table models) \<and>
        list_all (\<lambda>m. case find_table (md_table m) (sc_tables s) of
            None \<Rightarrow> False | Some tb \<Rightarrow> same_constraints tb (metadata_table m)) models \<and>
        set (sc_indexes s) = set (concat (map metadata_indexes models)) \<and>
        concat (map (\<lambda>m. case find_table (md_table m) (sc_tables s) of
            None \<Rightarrow> [] | Some tb \<Rightarrow> column_drift tb (metadata_table m)) models) =
          [(''service_accounts'', (filled ''role'' (Varchar 20))\<lparr>co_default := Some ''member''\<rparr>),
           (''service_accounts'', (filled ''status'' (Varchar 20))\<lparr>co_default := Some ''active''\<rparr>),
           (''service_accounts'', maybe ''created_at'' Timestamp),
           (''bridges'', (filled ''status'' (Varchar 20))\<lparr>co_default := Some ''active''\<rparr>)] \<and>
        (let guarded = (if d = Postgresql then {''jobs'', ''mapping_templates''} else {}) in
         sc_secured s = guarded \<and> sc_forced s = guarded \<and> sc_policies s = (\<lambda>t. (t, policy_of t)) ` guarded) \<and>
        filter (\<lambda>t. has_column t ''org_id'' s) (map tb_name (sc_tables s)) =
          [''jobs'', ''memberships'', ''bridges'', ''staged_records'', ''service_accounts'', ''mapping_templates''])"
proof (cases d)
  case Sqlite
  show ?thesis unfolding Sqlite by code_simp
next
  case Postgresql
  show ?thesis unfolding Postgresql by code_simp
qed

section \<open>The way back\<close>

definition left_over :: "dialect \<Rightarrow> revision \<Rightarrow> schema \<Rightarrow> schema" where
  \<comment> \<open>what a revision that is undone leaves of a schema\<close>
  "left_over d v s = (if d = Postgresql \<and> rv_id v = ''0002_rls_policies'' then s\<lparr>sc_forced := {''jobs''}\<rparr> else s)"

fun goes_back :: "dialect \<Rightarrow> revision list \<Rightarrow> schema \<Rightarrow> bool" where
  "goes_back d [] s \<longleftrightarrow> True"
| "goes_back d (v # vs) s \<longleftrightarrow>
     (case run_script (rv_upgrade v d) s of
        Inl e \<Rightarrow> False
      | Inr s' \<Rightarrow> run_script (rv_downgrade v d) s' = Inr (left_over d v s) \<and> goes_back d vs s')"

lemma history_goes_back: "goes_back d history no_schema"
proof (cases d)
  case Sqlite
  show ?thesis unfolding Sqlite by code_simp
next
  case Postgresql
  show ?thesis unfolding Postgresql by code_simp
qed


lemma run_append: "run_script (xs @ ys) s = (case run_script xs s of Inl e \<Rightarrow> Inl e | Inr s' \<Rightarrow> run_script ys s')"
  by (induction xs arbitrary: s) (simp_all split: sum.split)

lemma goes_back_at:
  assumes "goes_back d vs s" "n < length vs"
  shows "\<exists>s1 s2. run_script (concat (map (\<lambda>v. rv_upgrade v d) (take n vs))) s = Inr s1 \<and> run_script (rv_upgrade (vs ! n) d) s1 = Inr s2 \<and>
    run_script (rv_downgrade (vs ! n) d) s2 = Inr (left_over d (vs ! n) s1)"
  using assms
proof (induction vs arbitrary: s n)
  case (Cons v vs)
  then obtain s' where s': "run_script (rv_upgrade v d) s = Inr s'" "run_script (rv_downgrade v d) s' = Inr (left_over d v s)" "goes_back d vs s'"
    by (auto split: sum.splits)
  show ?case
  proof (cases n)
    case 0
    then show ?thesis using s' by simp
  next
    case (Suc m)
    then show ?thesis using Cons.IH [OF s'(3), of m] Cons.prems(2) s'(1) by (simp add: run_append)
  qed
qed simp

lemma length_history: "length history = 7"
  by code_simp

lemma second_revision: "n < 7 \<Longrightarrow> rv_id (history ! n) = ''0002_rls_policies'' \<longleftrightarrow> n = 1"
proof -
  have "list_all (\<lambda>n. (rv_id (history ! n) = ''0002_rls_policies'') = (n = 1)) [0..<7]" by code_simp
  then show "n < 7 \<Longrightarrow> rv_id (history ! n) = ''0002_rls_policies'' \<longleftrightarrow> n = 1" by (simp add: list_all_iff)
qed

lemma first_undone:
  "case run_script (upgrade_script d 0 1) no_schema of
     Inl e \<Rightarrow> False | Inr s \<Rightarrow> run_script (rv_downgrade (history ! 0) d) (s\<lparr>sc_forced := {''jobs''}\<rparr>) = Inr no_schema"
proof (cases d)
  case Sqlite
  show ?thesis unfolding Sqlite by code_simp
next
  case Postgresql
  show ?thesis unfolding Postgresql by code_simp
qed

lemma scripts_split:
  "i \<le> j \<Longrightarrow> upgrade_script d 0 j = upgrade_script d 0 i @ upgrade_script d i j"
  "n < j \<Longrightarrow> j \<le> length history \<Longrightarrow> downgrade_script d j n = downgrade_script d j (Suc n) @ rv_downgrade (history ! n) d"
proof -
  assume "i \<le> j"
  then have "take j history = take i history @ drop i (take j history)" by (metis append_take_drop_id min.absorb1 take_take)
  then show "upgrade_script d 0 j = upgrade_script d 0 i @ upgrade_script d i j"
    unfolding upgrade_script_def drop_0 by (metis concat_append map_append)
next
  assume "n < j" "j \<le> length history"
  then have "drop n (take j history) = history ! n # drop (Suc n) (take j history)" by (simp add: Cons_nth_drop_Suc [symmetric])
  then show "downgrade_script d j n = downgrade_script d j (Suc n) @ rv_downgrade (history ! n) d" by (simp add: downgrade_script_def)
qed

definition schema_at :: "dialect \<Rightarrow> nat \<Rightarrow> schema" where
  "schema_at d n = (case run_script (upgrade_script d 0 n) no_schema of Inl e \<Rightarrow> no_schema | Inr s \<Rightarrow> s)"

lemma revision_step:
  assumes "n < 7"
  shows "run_script (upgrade_script d 0 n) no_schema = Inr (schema_at d n)"
    "run_script (upgrade_script d 0 (Suc n)) no_schema = Inr (schema_at d (Suc n))"
    "run_script (rv_downgrade (history ! n) d) (schema_at d (Suc n)) = Inr (left_over d (history ! n) (schema_at d n))"
proof -
  have n: "n < length history" using assms by (simp add: length_history)
  obtain s1 s2 where s: "run_script (upgrade_script d 0 n) no_schema = Inr s1" "run_script (rv_upgrade (history ! n) d) s1 = Inr s2"
      "run_script (rv_downgrade (history ! n) d) s2 = Inr (left_over d (history ! n) s1)"
    using goes_back_at [OF history_goes_back n] unfolding upgrade_script_def drop_0 by blast
  have "upgrade_script d 0 (Suc n) = upgrade_script d 0 n @ rv_upgrade (history ! n) d" using n by (simp add: upgrade_script_def take_Suc_conv_app_nth)
  then have u: "run_script (upgrade_script d 0 (Suc n)) no_schema = Inr s2" using s by (simp add: run_append)
  have st: "schema_at d n = s1" "schema_at d (Suc n) = s2" using s(1) u by (simp_all add: schema_at_def)
  show "run_script (upgrade_script d 0 n) no_schema = Inr (schema_at d n)"
    "run_script (upgrade_script d 0 (Suc n)) no_schema = Inr (schema_at d (Suc n))"
    "run_script (rv_downgrade (history ! n) d) (schema_at d (Suc n)) = Inr (left_over d (history ! n) (schema_at d n))"
    unfolding st by (rule s(1) u s(3))+
qed

lemma revisions_up: "n \<le> 7 \<Longrightarrow> run_script (upgrade_script d 0 n) no_schema = Inr (schema_at d n)"
  using revision_step(1) [of n d] revision_step(2) [of 6 d] by (cases "n = 7") simp_all

text \<open>
  C36: Taking the database up by any number of revisions and down again gives back the schema it had, on both
  systems; the only exception is on Postgres the way back to the first revision, after which the
  jobs table is still forced to respect policies it no longer has.
\<close>

theorem migrations_round_trip:
  assumes "i \<le> j" "j \<le> length history"
  shows "\<exists>si sj. run_script (upgrade_script d 0 i) no_schema = Inr si \<and> run_script (upgrade_script d i j) si = Inr sj \<and>
    run_script (downgrade_script d j i) sj = Inr (if d = Postgresql \<and> i = 1 \<and> 1 < j then si\<lparr>sc_forced := {''jobs''}\<rparr> else si)"
proof -
  let ?left = "\<lambda>n. if d = Postgresql \<and> n = 1 \<and> 1 < j then (schema_at d n)\<lparr>sc_forced := {''jobs''}\<rparr> else schema_at d n"
  have "run_script (downgrade_script d j i) (schema_at d j) = Inr (?left i)"
    using assms(1)
  proof (induction rule: inc_induct)
    case base
    then show ?case by (auto simp: downgrade_script_def)
  next
    case (step n)
    have n: "n < 7" using step(2) assms(2) by (simp add: length_history)
    have "run_script (rv_downgrade (history ! n) d) (?left (Suc n)) = Inr (?left n)"
    proof (cases "d = Postgresql \<and> n = 0 \<and> 1 < j")
      case True
      then show ?thesis using first_undone [of d] revisions_up [of 1 d] revisions_up [of 0 d] by (simp add: upgrade_script_def)
    next
      case False
      then show ?thesis using revision_step(3) [OF n] second_revision [OF n] step(2) by (auto simp: left_over_def)
    qed
    then show ?case using step(3) scripts_split(2) [OF step(2) assms(2), of d] by (simp add: run_append)
  qed
  moreover have "run_script (upgrade_script d i j) (schema_at d i) = Inr (schema_at d j)"
    using revisions_up [of i d] revisions_up [of j d] assms scripts_split(1) [OF assms(1), of d] by (simp add: run_append length_history)
  ultimately show ?thesis using revisions_up [of i d] assms
    by (intro exI [of _ "schema_at d i"] exI [of _ "schema_at d j"]) (simp add: length_history)
qed

theorem migrations_round_trip_witness:
  "\<exists>s. run_script (upgrade_script Postgresql 0 7) no_schema = Inr s \<and> run_script (downgrade_script Postgresql 7 0) s = Inr no_schema"
proof -
  have "(0 :: nat) \<le> 7" "7 \<le> length history" by (simp_all add: length_history)
  from migrations_round_trip [OF this, of Postgresql] show ?thesis by (auto simp: upgrade_script_def)
qed

section \<open>What the services store\<close>

text \<open>
  A row is a map from columns to values, without the columns of times, which the database and the models
  fill in by themselves.
\<close>

type_synonym stored_row = "string \<rightharpoonup> string"

definition org_row :: "organization \<Rightarrow> stored_row" where
  "org_row x = [''id'' \<mapsto> og_id x, ''name'' \<mapsto> og_name x, ''slug'' \<mapsto> og_slug x]"

definition user_row :: "user \<Rightarrow> stored_row" where
  "user_row x = ([''id'' \<mapsto> us_id x, ''email'' \<mapsto> us_email x])(''password_hash'' := us_hash x, ''full_name'' := us_name x, ''idp_sub'' := us_sub x)"

definition member_row :: "membership \<Rightarrow> stored_row" where
  "member_row x = [''id'' \<mapsto> mb_id x, ''org_id'' \<mapsto> mb_org x, ''user_id'' \<mapsto> mb_user x, ''role'' \<mapsto> mb_role x]"

definition service_row :: "service_account \<Rightarrow> stored_row" where
  "service_row x = [''id'' \<mapsto> sa_id x, ''org_id'' \<mapsto> sa_org x, ''user_id'' \<mapsto> sa_user x, ''client_id'' \<mapsto> sa_client x, ''name'' \<mapsto> sa_name x,
     ''role'' \<mapsto> sa_role x, ''status'' \<mapsto> sa_status x]"

definition bridge_row :: "bridge \<Rightarrow> stored_row" where
  "bridge_row x = [''id'' \<mapsto> bg_id x, ''org_id'' \<mapsto> bg_org x, ''name'' \<mapsto> bg_name x, ''api_key_hash'' \<mapsto> bg_hash x, ''status'' \<mapsto> bg_status x]"

definition account_rows :: "accounts \<Rightarrow> string \<Rightarrow> stored_row list" where
  "account_rows ac t =
     (if t = ''organizations'' then map org_row (ac_orgs ac) else if t = ''users'' then map user_row (ac_users ac)
      else if t = ''memberships'' then map member_row (ac_members ac) else if t = ''service_accounts'' then map service_row (ac_services ac)
      else if t = ''bridges'' then map bridge_row (ac_bridges ac) else [])"

record demands =
  dm_required :: "string list"
  dm_unique :: "string list list"
  dm_refers :: "(string list \<times> string \<times> string list) list"

definition demands_of :: "string \<Rightarrow> schema \<Rightarrow> demands" where
  "demands_of t s =
     \<lparr>dm_required = concat (map (\<lambda>tb. map co_name (filter (\<lambda>c. \<not> co_nullable c \<and> co_type c \<noteq> Timestamp) (tb_columns tb)))
        (filter (\<lambda>tb. tb_name tb = t) (sc_tables s))),
      dm_unique = concat (map (\<lambda>tb. tb_key tb # map snd (tb_uniques tb)) (filter (\<lambda>tb. tb_name tb = t) (sc_tables s))) @
        map ix_columns (filter (\<lambda>ix. ix_table ix = t \<and> ix_unique ix) (sc_indexes s)),
      dm_refers = concat (map (\<lambda>tb. map (\<lambda>fk. (fk_columns fk, fk_table fk, fk_target fk)) (tb_foreign tb))
        (filter (\<lambda>tb. tb_name tb = t) (sc_tables s)))\<rparr>"

definition unique_on :: "string list \<Rightarrow> stored_row list \<Rightarrow> bool" where
  \<comment> \<open>a missing value is like no other\<close>
  "unique_on cs rs \<longleftrightarrow> distinct (filter (\<lambda>vs. None \<notin> set vs) (map (\<lambda>r. map r cs) rs))"

definition refers_to :: "string list \<Rightarrow> string list \<Rightarrow> stored_row list \<Rightarrow> stored_row list \<Rightarrow> bool" where
  "refers_to cs ks qs rs \<longleftrightarrow> list_all (\<lambda>r. None \<in> set (map r cs) \<or> map r cs \<in> set (map (\<lambda>q. map q ks) qs)) rs"

definition meets :: "(string \<Rightarrow> stored_row list) \<Rightarrow> string \<Rightarrow> demands \<Rightarrow> bool" where
  "meets rows t dm \<longleftrightarrow>
     list_all (\<lambda>c. list_all (\<lambda>r. r c \<noteq> None) (rows t)) (dm_required dm) \<and>
     list_all (\<lambda>cs. unique_on cs (rows t)) (dm_unique dm) \<and>
     list_all (\<lambda>(cs, q, ks). refers_to cs ks (rows q) (rows t)) (dm_refers dm)"

definition account_tables :: "string list" where
  "account_tables = [''organizations'', ''users'', ''memberships'', ''service_accounts'', ''bridges'']"

definition head_demands :: "demands list" where
  "head_demands =
     [\<lparr>dm_required = [''id'', ''name'', ''slug''], dm_unique = [[''id''], [''slug'']], dm_refers = []\<rparr>,
      \<lparr>dm_required = [''id'', ''email''], dm_unique = [[''id''], [''email''], [''idp_sub'']], dm_refers = []\<rparr>,
      \<lparr>dm_required = [''id'', ''org_id'', ''user_id'', ''role''], dm_unique = [[''id''], [''org_id'', ''user_id'']],
       dm_refers = [([''org_id''], ''organizations'', [''id'']), ([''user_id''], ''users'', [''id''])]\<rparr>,
      \<lparr>dm_required = [''id'', ''org_id'', ''user_id'', ''client_id'', ''name'', ''role'', ''status''], dm_unique = [[''id''], [''client_id'']],
       dm_refers = [([''org_id''], ''organizations'', [''id'']), ([''user_id''], ''users'', [''id''])]\<rparr>,
      \<lparr>dm_required = [''id'', ''org_id'', ''name'', ''api_key_hash'', ''status''], dm_unique = [[''id'']],
       dm_refers = [([''org_id''], ''organizations'', [''id''])]\<rparr>]"

lemma demands_at_head:
  "map (\<lambda>t. demands_of t (schema_at d 7)) account_tables = head_demands"
proof (cases d)
  case Sqlite
  show ?thesis unfolding Sqlite by code_simp
next
  case Postgresql
  show ?thesis unfolding Postgresql by code_simp
qed

lemma unique_on_values:
  assumes "distinct (map f xs)" "\<And>x. map (g x) cs = h (f x)" "inj h"
  shows "unique_on cs (map g xs)"
proof -
  have "distinct (map (\<lambda>x. h (f x)) xs)" using assms(1,3) by (simp add: distinct_map inj_on_def)
  then show ?thesis by (simp add: unique_on_def assms(2) o_def)
qed

lemma unique_column:
  assumes "distinct (map f xs)" "\<And>x. g x c = Some (f x)"
  shows "unique_on [c] (map g xs)"
  using assms by (intro unique_on_values [where f = f and h = "\<lambda>v. [Some v]"]) (simp_all add: inj_def)

lemma unique_on_one: "unique_on [c] rs \<longleftrightarrow> distinct (filter (\<lambda>v. v \<noteq> None) (map (\<lambda>r. r c) rs))"
proof -
  have "filter (\<lambda>vs. None \<notin> set vs) (map (\<lambda>r. map r [c]) rs) = map (\<lambda>v. [v]) (filter (\<lambda>v. v \<noteq> None) (map (\<lambda>r. r c) rs))"
    by (induction rs) auto
  then show ?thesis by (simp add: unique_on_def distinct_map inj_on_def)
qed

lemma distinct_subs:
  "distinct (map us_id us) \<Longrightarrow> subs_ok us \<Longrightarrow> distinct (filter (\<lambda>v. v \<noteq> None) (map us_sub us))"
proof (induction us)
  case (Cons u us)
  have "us_sub v \<noteq> us_sub u" if "v \<in> set us" "us_sub u \<noteq> None" for v
    using Cons.prems that unfolding subs_ok_def by (metis distinct.simps(2) imageI list.set_intros list.set_map list.simps(9))
  then have "us_sub u = None \<or> us_sub u \<notin> us_sub ` set us" by force
  moreover have "subs_ok us" using Cons.prems(2) unfolding subs_ok_def by (meson list.set_intros(2))
  with Cons.IH Cons.prems(1) have "distinct (filter (\<lambda>v. v \<noteq> None) (map us_sub us))" by simp
  ultimately show ?case by (auto simp del: not_None_eq)
qed simp

lemma unique_on_subs:
  assumes "distinct (map us_id us)" "subs_ok us"
  shows "unique_on [''idp_sub''] (map user_row us)"
proof -
  have "map (\<lambda>r. r ''idp_sub'') (map user_row us) = map us_sub us" by (simp add: user_row_def)
  then show ?thesis using distinct_subs [OF assms] unfolding unique_on_one by (rule ssubst)
qed

lemma refers_by:
  assumes "\<And>x. x \<in> set xs \<Longrightarrow> \<exists>y\<in>set ys. map (g x) cs = map (f y) ks"
  shows "refers_to cs ks (map f ys) (map g xs)"
  using assms by (fastforce simp: refers_to_def list_all_iff image_iff)

lemma account_rows_simps [simp]:
  "account_rows ac ''organizations'' = map org_row (ac_orgs ac)" "account_rows ac ''users'' = map user_row (ac_users ac)"
  "account_rows ac ''memberships'' = map member_row (ac_members ac)" "account_rows ac ''service_accounts'' = map service_row (ac_services ac)"
  "account_rows ac ''bridges'' = map bridge_row (ac_bridges ac)"
  by (simp_all add: account_rows_def)

lemmas row_defs = org_row_def user_row_def member_row_def service_row_def bridge_row_def



end
