(* ===== verification/RequestLog.thy ===== *)
theory RequestLog
  imports Endpoints
begin

text \<open>
  Log lines and the context they carry, \<open>app/core/logging.py\<close>, and the middleware that all requests pass,
  \<open>context_and_logging\<close> in \<open>app/main.py\<close>, with the handler of exceptions nobody catches in \<open>app/core/errors.py\<close>.
  The printer of JSON and the formats of times and numbers are parameters: a value is the text it is printed as.
\<close>

section \<open>Lines\<close>

type_synonym log_context = "(string, string) dict"

definition bind_context :: "(string \<times> string option) list \<Rightarrow> log_context \<Rightarrow> log_context" where
  "bind_context kvs ctx = fold (\<lambda>(k, v) c. case v of None \<Rightarrow> c | Some s \<Rightarrow> AList.update k s c) kvs ctx"

definition clear_context :: log_context where
  "clear_context = []"

datatype log_level = DEBUG | INFO | WARNING | ERROR

fun level_no :: "log_level \<Rightarrow> nat" where
  "level_no DEBUG = 10"
| "level_no INFO = 20"
| "level_no WARNING = 30"
| "level_no ERROR = 40"

fun level_name :: "log_level \<Rightarrow> string" where
  "level_name DEBUG = ''DEBUG''"
| "level_name INFO = ''INFO''"
| "level_name WARNING = ''WARNING''"
| "level_name ERROR = ''ERROR''"

record log_record =
  lg_created :: rat
  lg_level :: log_level
  lg_event :: string
  lg_logger :: string
  lg_fields :: "(string, string) dict"
  lg_exception :: "string option"

definition json_payload :: "(rat \<Rightarrow> string) \<Rightarrow> log_context \<Rightarrow> log_record \<Rightarrow> (string, string) dict" where
  "json_payload stamp ctx r =
     (let p = merge (merge [(''ts'', stamp (lg_created r)), (''level'', level_name (lg_level r)), (''event'', lg_event r), (''logger'', lg_logger r)]
                ctx) (lg_fields r)
      in case lg_exception r of None \<Rightarrow> p | Some e \<Rightarrow> AList.update ''exception'' e p)"

definition rstrip :: "string \<Rightarrow> string" where
  "rstrip s = rev (dropWhile is_space (rev s))"

definition plain_line :: "log_context \<Rightarrow> log_record \<Rightarrow> string" where
  "plain_line ctx r =
     (let suffix = join '' '' (map (\<lambda>(k, v). k @ ''='' @ v) (merge ctx (lg_fields r)));
          name = level_name (lg_level r);
          base = name @ replicate (7 - length name) CHR '' '' @ '' '' @ lg_logger r @ '' '' @ lg_event r
      in rstrip (base @ ''  '' @ suffix) @ (case lg_exception r of None \<Rightarrow> '''' | Some e \<Rightarrow> CHR 10 # e))"

definition emit :: "nat \<Rightarrow> string \<Rightarrow> rat \<Rightarrow> log_level \<Rightarrow> string \<Rightarrow> string option \<Rightarrow> (string, string) dict \<Rightarrow> log_record list" where
  \<comment> \<open>none when the level is below the threshold\<close>
  "emit threshold logger now lv event trace fs =
     (if threshold \<le> level_no lv
      then [\<lparr>lg_created = now, lg_level = lv, lg_event = event, lg_logger = logger, lg_fields = fs, lg_exception = trace\<rparr>] else [])"

definition root_threshold :: "string \<Rightarrow> nat res" where
  \<comment> \<open>the level of the settings, by its name in any case\<close>
  "root_threshold name =
     (case map_of [(''critical'', 50), (''fatal'', 50), (''error'', 40), (''warn'', 30), (''warning'', 30), (''info'', 20), (''debug'', 10), (''notset'', 0)]
        (lower name) of None \<Rightarrow> Inl ValueError | Some n \<Rightarrow> Inr n)"

section \<open>Requests\<close>

record http_request =
  hr_id :: "string option"
  hr_length :: "string option"
  hr_method :: string
  hr_path :: string

record http_response =
  hp_status :: nat
  hp_headers :: "(string, string) dict"
  hp_problem :: "problem option"

text \<open>
  The application behind the middleware: the lines it writes, each with what has been bound for it in its own
  copy of the context, and its answer, or an exception that none of its handlers takes.
\<close>

type_synonym app = "http_request \<Rightarrow> ((string \<times> string option) list \<times> log_record) list \<times> http_response res"

definition request_id :: "string \<Rightarrow> http_request \<Rightarrow> string" where
  "request_id fresh rq = (if truthy (hr_id rq) then the (hr_id rq) else fresh)"

definition request_line :: "nat \<Rightarrow> rat \<Rightarrow> string \<Rightarrow> http_request \<Rightarrow> nat \<Rightarrow> log_record list" where
  "request_line threshold now duration rq status =
     emit threshold ''api.request'' now (if 500 \<le> status then ERROR else INFO) ''request'' None
       [(''method'', hr_method rq), (''path'', hr_path rq), (''status'', nat_str status), (''duration_ms'', duration)]"

definition context_and_logging ::
    "nat \<Rightarrow> nat \<Rightarrow> app \<Rightarrow> string \<Rightarrow> rat \<Rightarrow> string \<Rightarrow> http_request \<Rightarrow> log_context \<times> (log_context \<times> log_record) list \<times> http_response res" where
  "context_and_logging limit threshold app fresh now duration rq =
     (let rid = request_id fresh rq; ctx = bind_context [(''request_id'', Some rid)] clear_context in
      case length_guard limit (hr_length rq) of
        Some p \<Rightarrow> (ctx, [], Inr \<lparr>hp_status = p_status p, hp_headers = [], hp_problem = Some p\<rparr>)
      | None \<Rightarrow>
          (case app rq of
             (ls, Inl e) \<Rightarrow> (ctx, map (apfst (\<lambda>b. bind_context b ctx)) ls, Inl e)
           | (ls, Inr resp) \<Rightarrow>
               (clear_context, map (apfst (\<lambda>b. bind_context b ctx)) ls @ map (Pair ctx) (request_line threshold now duration rq (hp_status resp)),
                Inr (resp\<lparr>hp_headers := AList.update ''x-request-id'' rid (hp_headers resp)\<rparr>))))"

definition unhandled :: "nat \<Rightarrow> rat \<Rightarrow> string \<times> string \<Rightarrow> http_request \<Rightarrow> log_record list \<times> http_response" where
  \<comment> \<open>with the trace of the exception and the name of its class\<close>
  "unhandled threshold now e rq =
     (emit threshold ''api.error'' now ERROR ''unhandled_exception'' (Some (fst e))
        [(''path'', hr_path rq), (''method'', hr_method rq), (''exc_type'', snd e)],
      \<lparr>hp_status = p_status internal_error, hp_headers = [], hp_problem = Some internal_error\<rparr>)"

definition serve ::
    "nat \<Rightarrow> nat \<Rightarrow> (exc \<Rightarrow> string \<times> string) \<Rightarrow> app \<Rightarrow> string \<Rightarrow> rat \<Rightarrow> string \<Rightarrow> http_request \<Rightarrow> (log_context \<times> log_record) list \<times> http_response" where
  "serve limit threshold trace app fresh now duration rq =
     (case context_and_logging limit threshold app fresh now duration rq of
        (ctx, ls, Inr resp) \<Rightarrow> (ls, resp)
      | (ctx, ls, Inl e) \<Rightarrow> (case unhandled threshold now (trace e) rq of (us, resp) \<Rightarrow> (ls @ map (Pair ctx) us, resp)))"

section \<open>Whose line it is\<close>

definition leaves_identity :: "app \<Rightarrow> bool" where
  \<comment> \<open>as the application does, which binds users, organizations and bridges only, and sets no such header\<close>
  "leaves_identity app \<longleftrightarrow> (\<forall>rq. list_all (\<lambda>(b, r). ''request_id'' \<notin> fst ` set b \<and> ''request_id'' \<notin> fst ` set (lg_fields r)) (fst (app rq)) \<and>
     (case snd (app rq) of Inl e \<Rightarrow> True | Inr resp \<Rightarrow> dget (hp_headers resp) ''x-request-id'' = None))"

lemma leaves_identityD:
  assumes "leaves_identity app" "(b, r) \<in> set (fst (app rq))"
  shows "''request_id'' \<notin> fst ` set b \<and> ''request_id'' \<notin> fst ` set (lg_fields r)"
proof -
  have "\<forall>x\<in>set (fst (app rq)). case x of (b, r) \<Rightarrow> ''request_id'' \<notin> fst ` set b \<and> ''request_id'' \<notin> fst ` set (lg_fields r)"
    using assms(1) unfolding leaves_identity_def list_all_iff by blast
  from bspec [OF this assms(2)] show ?thesis by simp
qed

lemma dget_merge: "dget (merge d e) k = (case map_of (rev e) k of None \<Rightarrow> dget d k | Some v \<Rightarrow> Some v)"
  by (simp add: merge_def map_of_fold_update)

lemma absent_key: "k \<notin> fst ` set e \<Longrightarrow> map_of (rev e) k = None"
  by (simp add: map_of_eq_None_iff)

lemma dget_bind: "k \<notin> fst ` set kvs \<Longrightarrow> dget (bind_context kvs ctx) k = dget ctx k"
  unfolding bind_context_def by (induction kvs arbitrary: ctx) (auto simp: update_conv' split: option.splits)

lemma payload_names_context:
  assumes "''request_id'' \<notin> fst ` set (lg_fields r)" "distinct (map fst ctx)"
  shows "dget (json_payload stamp ctx r) ''request_id'' = dget ctx ''request_id''"
proof -
  have "map_of (rev ctx) k = map_of ctx k" for k using assms(2) by (simp add: map_of_rev_distinct)
  then show ?thesis
    using assms(1) by (simp add: json_payload_def Let_def dget_merge absent_key update_conv' split: option.split)
qed

lemma distinct_bind: "distinct (map fst ctx) \<Longrightarrow> distinct (map fst (bind_context kvs ctx))"
  unfolding bind_context_def by (induction kvs arbitrary: ctx) (auto simp: distinct_update split: option.splits)

text \<open>
  Every line written for a request, from the middleware, the application or the handler of last resort, names
  that request and no earlier one; and the answer names it too, unless the body was refused as too long or
  an exception was not caught.
\<close>

theorem lines_name_their_request:
  assumes "leaves_identity app" "serve limit threshold trace app fresh now duration rq = (ls, resp)"
  shows "list_all (\<lambda>(ctx, r). dget (json_payload stamp ctx r) ''request_id'' = Some (request_id fresh rq)) ls \<and>
    dget (hp_headers resp) ''x-request-id'' =
      (if length_guard limit (hr_length rq) \<noteq> None \<or> isl (snd (app rq)) then None else Some (request_id fresh rq))"
proof -
  let ?id = "request_id fresh rq"
  let ?ctx = "bind_context [(''request_id'', Some ?id)] clear_context"
  have c: "?ctx = [(''request_id'', ?id)]" by (simp add: bind_context_def clear_context_def)
  have own: "dget (json_payload stamp ?ctx r) ''request_id'' = Some ?id" if "''request_id'' \<notin> fst ` set (lg_fields r)" for r
    using that unfolding c by (simp add: payload_names_context)
  have line: "list_all (\<lambda>r. dget (json_payload stamp ?ctx r) ''request_id'' = Some ?id) (request_line threshold now duration rq n)"
      "list_all (\<lambda>r. dget (json_payload stamp ?ctx r) ''request_id'' = Some ?id) (fst (unhandled threshold now e rq))" for n e
    using own by (simp_all add: request_line_def unhandled_def emit_def)
  have inner: "list_all (\<lambda>(ctx, r). dget (json_payload stamp ctx r) ''request_id'' = Some ?id) (map (apfst (\<lambda>b. bind_context b ?ctx)) (fst (app rq)))"
  proof -
    have "dget (json_payload stamp (bind_context b ?ctx) r) ''request_id'' = Some ?id" if "(b, r) \<in> set (fst (app rq))" for b r
    proof -
      have "''request_id'' \<notin> fst ` set b" "''request_id'' \<notin> fst ` set (lg_fields r)"
        using leaves_identityD [OF assms(1) that] by simp_all
      then show ?thesis unfolding c by (simp add: payload_names_context distinct_bind dget_bind)
    qed
    then show ?thesis by (auto simp: list_all_iff)
  qed
  show ?thesis
  proof (cases "length_guard limit (hr_length rq)")
    case (Some p)
    then show ?thesis using assms(2) by (auto simp: serve_def context_and_logging_def Let_def)
  next
    case None
    obtain as res where a: "app rq = (as, res)" by fastforce
    show ?thesis
    proof (cases res)
      case (Inl e)
      have "ls = map (apfst (\<lambda>b. bind_context b ?ctx)) (fst (app rq)) @ map (Pair ?ctx) (fst (unhandled threshold now (trace e) rq))"
          "resp = snd (unhandled threshold now (trace e) rq)"
        using assms(2) None a Inl by (auto simp: serve_def context_and_logging_def Let_def split: prod.splits)
      then show ?thesis using inner line(2) [of "trace e"] None a Inl by (simp add: list.pred_map comp_def unhandled_def)
    next
      case (Inr resp')
      have "ls = map (apfst (\<lambda>b. bind_context b ?ctx)) (fst (app rq)) @ map (Pair ?ctx) (request_line threshold now duration rq (hp_status resp'))"
          "resp = resp'\<lparr>hp_headers := AList.update ''x-request-id'' ?id (hp_headers resp')\<rparr>"
        using assms(2) None a Inr by (auto simp: serve_def context_and_logging_def Let_def split: prod.splits)
      then show ?thesis using inner line(1) [of "hp_status resp'"] None a Inr by (simp add: list.pred_map comp_def update_conv')
    qed
  qed
qed

definition demo_app :: app where
  "demo_app rq =
     ([([(''user_id'', Some ''u1''), (''org_id'', None)],
        \<lparr>lg_created = 1, lg_level = INFO, lg_event = ''job.created'', lg_logger = ''jobs'', lg_fields = [(''job_id'', ''j1'')], lg_exception = None\<rparr>)],
      if hr_path rq = ''/jobs'' then Inr \<lparr>hp_status = 201, hp_headers = [], hp_problem = None\<rparr> else Inl KeyError)"

theorem lines_name_their_request_witness:
  "case serve 100 20 (\<lambda>e. (''trace'', ''KeyError'')) demo_app ''f1'' 2 ''1.5'' \<lparr>hr_id = None, hr_length = Some ''7'', hr_method = ''POST'', hr_path = ''/jobs''\<rparr> of
     (ls, resp) \<Rightarrow> length ls = 2 \<and> dget (hp_headers resp) ''x-request-id'' = Some ''f1'' \<and>
       list_all (\<lambda>(ctx, r). dget (json_payload (\<lambda>t. ''now'') ctx r) ''request_id'' = Some ''f1'') ls"
proof -
  let ?rq = "\<lparr>hr_id = None, hr_length = Some ''7'', hr_method = ''POST'', hr_path = ''/jobs''\<rparr> :: http_request"
  let ?s = "serve 100 20 (\<lambda>e. (''trace'', ''KeyError'')) demo_app ''f1'' 2 ''1.5'' ?rq"
  have l: "leaves_identity demo_app" by (simp add: leaves_identity_def demo_app_def)
  have i: "request_id ''f1'' ?rq = ''f1''" by (simp add: request_id_def truthy_def)
  have g: "length_guard 100 (hr_length ?rq) = None" "isl (snd (demo_app ?rq)) = False" "length (fst ?s) = 2" by code_simp+
  show ?thesis
    using lines_name_their_request [OF l, of 100 20 "\<lambda>e. (''trace'', ''KeyError'')" "''f1''" 2 "''1.5''" ?rq "fst ?s" "snd ?s" "\<lambda>t. ''now''"] g
    by (simp add: i split_beta)
qed

text \<open>A body that is refused, and an exception nobody catches, are answered without the name of the request.\<close>

lemma answers_without_name:
  "dget (hp_headers (snd (serve 5 20 (\<lambda>e. (''trace'', ''KeyError'')) demo_app ''f1'' 2 ''1.5''
     \<lparr>hr_id = None, hr_length = Some ''7'', hr_method = ''POST'', hr_path = ''/jobs''\<rparr>))) ''x-request-id'' = None"
  "snd (serve 100 20 (\<lambda>e. (''trace'', ''KeyError'')) demo_app ''f1'' 2 ''1.5''
     \<lparr>hr_id = None, hr_length = Some ''7'', hr_method = ''GET'', hr_path = ''/''\<rparr>) = \<lparr>hp_status = 500, hp_headers = [], hp_problem = Some internal_error\<rparr>"
  by code_simp+

end
