(* ===== verification/Startup.thy ===== *)
theory Startup
  imports Relay
begin

text \<open>
  What starts with a process: the broker of the tasks in \<open>app/workers/broker.py\<close>, which the tasks of the event loop
  may ask to be started at the same time, and the responder of the relay in \<open>app/relay/redis_relay.py\<close>.
\<close>

section \<open>Which broker\<close>

datatype broker = In_Process_Broker | Redis_Broker string string

definition build_broker :: "string \<Rightarrow> string \<Rightarrow> broker" where
  \<comment> \<open>the addresses of the broker and of its results\<close>
  "build_broker url result_url =
     (if starts_with ''redis'' url then Redis_Broker url (if result_url \<noteq> '''' then result_url else url) else In_Process_Broker)"

definition redis_url :: "string \<Rightarrow> string option" where
  "redis_url url = (if starts_with ''redis'' url then Some url else None)"

section \<open>Starting it once\<close>

text \<open>
  A task of the event loop runs from one \<open>await\<close> to the next.  It waits for the lock, and it waits for the
  broker to start, which may fail.
\<close>

datatype starter = Away | At_Lock | Starting | Returned | Raised

record startup =
  sp_started :: bool
  sp_lock :: "nat option"
  sp_tasks :: "nat \<Rightarrow> starter"
  sp_begun :: nat
  sp_done :: nat

definition move :: "nat \<Rightarrow> starter \<Rightarrow> startup \<Rightarrow> startup" where
  "move t pc s = s\<lparr>sp_tasks := (sp_tasks s)(t := pc)\<rparr>"

inductive ensure_step :: "startup \<Rightarrow> startup \<Rightarrow> bool" where
  asked: "sp_tasks s t \<in> {Away, Returned, Raised} \<Longrightarrow> ensure_step s (move t (if sp_started s then Returned else At_Lock) s)"
| already: "sp_tasks s t = At_Lock \<Longrightarrow> sp_lock s = None \<Longrightarrow> sp_started s \<Longrightarrow> ensure_step s (move t Returned s)"
| begins: "sp_tasks s t = At_Lock \<Longrightarrow> sp_lock s = None \<Longrightarrow> \<not> sp_started s \<Longrightarrow>
    ensure_step s (move t Starting (s\<lparr>sp_lock := Some t, sp_begun := Suc (sp_begun s)\<rparr>))"
| succeeds: "sp_tasks s t = Starting \<Longrightarrow>
    ensure_step s (move t Returned (s\<lparr>sp_lock := None, sp_started := True, sp_done := Suc (sp_done s)\<rparr>))"
| fails: "sp_tasks s t = Starting \<Longrightarrow> ensure_step s (move t Raised (s\<lparr>sp_lock := None\<rparr>))"

definition before_start :: startup where
  "before_start = \<lparr>sp_started = False, sp_lock = None, sp_tasks = (\<lambda>t. Away), sp_begun = 0, sp_done = 0\<rparr>"

definition startup_ok :: "startup \<Rightarrow> bool" where
  "startup_ok s \<longleftrightarrow> (\<forall>t. sp_tasks s t = Starting \<longleftrightarrow> sp_lock s = Some t) \<and> (sp_started s \<longrightarrow> sp_lock s = None) \<and>
     sp_done s = (if sp_started s then 1 else 0) \<and> (\<forall>t. sp_tasks s t = Returned \<longrightarrow> sp_started s)"

lemma move_simps [simp]:
  "sp_tasks (move t pc s) = (sp_tasks s)(t := pc)" "sp_lock (move t pc s) = sp_lock s" "sp_started (move t pc s) = sp_started s"
  "sp_begun (move t pc s) = sp_begun s" "sp_done (move t pc s) = sp_done s"
  by (simp_all add: move_def)

lemma startup_step_ok: "ensure_step s s' \<Longrightarrow> startup_ok s \<Longrightarrow> startup_ok s'"
proof (induction rule: ensure_step.induct)
  case (asked s t)
  then have "sp_lock s \<noteq> Some t" unfolding startup_ok_def by (metis insertE singletonD starter.distinct)
  then show ?case using asked unfolding startup_ok_def by auto
next
  case (succeeds s t)
  then have "sp_lock s = Some t" "\<not> sp_started s" unfolding startup_ok_def by auto
  then show ?case using succeeds unfolding startup_ok_def by auto
qed (auto simp: startup_ok_def)

text \<open>
  However many tasks ask for the broker, at any time and again, it is started by one of them at a time and
  once with success, nobody returns before that, and nobody starts it afterwards.
\<close>

theorem broker_started_once:
  assumes "ensure_step\<^sup>*\<^sup>* before_start s"
  shows "sp_done s = (if sp_started s then 1 else 0) \<and> (sp_tasks s t = Returned \<longrightarrow> sp_started s) \<and>
    (sp_tasks s t = Starting \<and> sp_tasks s t' = Starting \<longrightarrow> t = t') \<and> (sp_started s \<longrightarrow> sp_tasks s t \<noteq> Starting)"
proof -
  have "startup_ok before_start" by (simp add: startup_ok_def before_start_def)
  with assms have "startup_ok s" by (induction rule: rtranclp_induct) (auto intro: startup_step_ok)
  then show ?thesis unfolding startup_ok_def by force
qed

theorem broker_started_once_witness:
  "\<exists>s. ensure_step\<^sup>*\<^sup>* before_start s \<and> sp_tasks s 0 = Returned \<and> sp_tasks s 1 = At_Lock \<and> sp_done s = 1"
proof -
  let ?a = "move 0 At_Lock before_start" and ?b = "move 1 At_Lock (move 0 At_Lock before_start)"
  let ?c = "move 0 Starting (?b\<lparr>sp_lock := Some 0, sp_begun := Suc (sp_begun ?b)\<rparr>)"
  let ?d = "move 0 Returned (?c\<lparr>sp_lock := None, sp_started := True, sp_done := Suc (sp_done ?c)\<rparr>)"
  have "ensure_step before_start ?a" "ensure_step ?a ?b"
    using asked [of before_start 0] asked [of ?a 1] by (simp_all add: before_start_def move_def)
  moreover have "ensure_step ?b ?c" by (rule begins) (simp_all add: before_start_def)
  moreover have "ensure_step ?c ?d" by (rule succeeds) simp
  ultimately have r: "ensure_step\<^sup>*\<^sup>* before_start ?d" by (meson converse_rtranclp_into_rtranclp rtranclp.rtrancl_refl)
  have "sp_started ?d" "sp_tasks ?d 0 = Returned" "sp_tasks ?d 1 = At_Lock" by simp_all
  with r broker_started_once [OF r, of 0 1] show ?thesis by auto
qed

section \<open>The responder\<close>

record responder =
  rs_task :: "nat option"
  rs_next :: nat

definition start_responder :: "string \<Rightarrow> responder \<Rightarrow> responder" where
  "start_responder url s = (if redis_url url = None \<or> rs_task s \<noteq> None then s else \<lparr>rs_task = Some (rs_next s), rs_next = Suc (rs_next s)\<rparr>)"

definition stop_responder :: "responder \<Rightarrow> responder" where
  "stop_responder s = (if rs_task s = None then s else s\<lparr>rs_task := None\<rparr>)"

definition responder_loop :: "string \<Rightarrow> (string option \<times> 'm) list \<Rightarrow> 'm list" where
  \<comment> \<open>the messages that are handed to a handler of their own, each with its type\<close>
  "responder_loop url messages =
     (if redis_url url = None then [] else map snd (filter (\<lambda>(ty, m). ty = Some ''message'') messages))"

lemma one_responder:
  "start_responder url (start_responder url s) = start_responder url s"
  "redis_url url = Some u \<Longrightarrow> rs_task (start_responder url s) \<noteq> None"
  "rs_task (stop_responder s) = None"
  "redis_url url = None \<Longrightarrow> start_responder url s = s \<and> responder_loop url ms = []"
  by (simp_all add: start_responder_def stop_responder_def responder_loop_def)

end
