(* ===== verification/Spec2Isabelle.thy ===== *)
theory Spec2Isabelle
  imports Settlements MasterXml TypedMasters Endpoints JobLocks ObjectStorage Migrations RequestLog Startup
begin

text \<open>
  A verification development of the backend under \<open>src/backend/app\<close>, which turns spreadsheets of a business
  into import documents for the accounting program Tally and sends them there.

  \<^bold>\<open>The program.\<close>  A user signs up or comes with a token of an identity provider, creates a job for one kind of
  data (ledgers, groups, stock items, units or vouchers) and uploads a file.  The file is parsed and profiled; its
  columns are mapped onto the fields of the data; the mapped table is validated and resolved against what
  Tally already has; an XML document is generated and pushed, by a worker, through a bridge that the
  organization runs beside its Tally.  Every step is a stage of the job, which is kept in a database row and
  two blobs and, in each process, in a cache.

  \<^bold>\<open>Which theory models what.\<close>

  \<^item> \<open>Prelude\<close>: Python's text operations on strings of code points below 256, dictionaries as
    association lists in the order of insertion.  \<open>PyDecimal\<close> and \<open>PyFloat\<close>: decimal and binary floating point
    arithmetic as the source uses it.
  \<^item> \<open>Contracts\<close> (\<open>pipeline/contracts.py\<close>, \<open>core/errors.py\<close>): error codes, envelopes, exceptions as values
    \<open>exc + 'a\<close>, and functions that record errors beside their result.  \<open>Entities\<close> (\<open>pipeline/entities.py\<close>):
    masters and vouchers.  \<open>Coercion\<close> (\<open>pipeline/coercion.py\<close>): cells to typed values.  \<open>Gst\<close> (\<open>pipeline/gst.py\<close>).
  \<^item> \<open>Vouchers\<close> and \<open>Settlements\<close> (\<open>pipeline/voucher.py\<close>): rows to balanced vouchers and journals.
  \<^item> \<open>GroupOrder\<close>, \<open>VoucherXml\<close>, \<open>MasterXml\<close> (\<open>pipeline/conversion\<close>): the topological sort of groups, element trees
    of vouchers and masters, the import envelope and its serialization.
  \<^item> \<open>Parsing\<close>, \<open>Profiling\<close>, \<open>Mapping_Proposal\<close>, \<open>Templates\<close>, \<open>Validation\<close>, \<open>Resolution\<close>, \<open>PushResponse\<close>: the
    packages of \<open>pipeline\<close> with those names, and \<open>services/template_service.py\<close>.
  \<^item> \<open>Jobs\<close> (\<open>services/job_store.py\<close>), \<open>Stages\<close>, \<open>Generation\<close> and \<open>PushFlow\<close> (\<open>services/pipeline_service.py\<close>, the push
    task of \<open>workers/tasks.py\<close>): the state machine of a job, one function per stage.
  \<^item> \<open>JobSystem\<close>: several workers that push one job while its user runs stages; a step relation whose steps
    are the critical sections.
  \<^item> \<open>Storage\<close> (\<open>storage/__init__.py\<close>) and \<open>JobRepo\<close> (\<open>services/job_repo.py\<close>): blobs, rows, and the cache of a process.
  \<^item> \<open>RateLimit\<close> (\<open>core/ratelimit.py\<close>), \<open>Identity\<close> (\<open>services/auth_service.py\<close>, \<open>services/idp_service.py\<close>,
    \<open>services/bridge_service.py\<close>, \<open>api/deps.py\<close>, the tables of \<open>db/models.py\<close>), \<open>Relay\<close> (\<open>relay\<close>).
  \<^item> \<open>Api\<close> (\<open>api/routers/jobs.py\<close>, \<open>api/routers/templates.py\<close>, \<open>workers/tasks.py\<close>): calls of a server from the token to the
    answer, and the tasks a worker runs.
  \<^item> \<open>Tokens\<close> (\<open>core/config.py\<close>, \<open>core/security.py\<close>, \<open>core/oidc.py\<close>): the settings of authentication, what a token of
    the application says, and what is checked of it and of one of the provider.  \<open>Endpoints\<close> (\<open>api/routers/auth.py\<close>,
    \<open>api/routers/bridge.py\<close>): the calls for accounts and bridges, and the sockets of several processes as a step
    relation.  \<open>TypedMasters\<close>: what \<open>row_to_master\<close> returns and raises.
  \<^item> \<open>JobLocks\<close> (\<open>services/job_repo.py\<close>): the threads of a process on its cache and its locks, step by step, where
    \<open>JobRepo\<close> runs a section as one operation.  \<open>ObjectStorage\<close> (\<open>storage/__init__.py\<close>): blobs in a bucket.
    \<open>Tenancy\<close> (\<open>db/base.py\<close>): sessions under row-level security.  \<open>Migrations\<close> (\<open>alembic/versions\<close>, \<open>db/models.py\<close>):
    the schema, up and down.  \<open>RequestLog\<close> (\<open>core/logging.py\<close>, \<open>main.py\<close>): the middleware of all requests and
    the lines they write.  \<open>Startup\<close> (\<open>workers/broker.py\<close>): what is started with a process, and once.

  State is passed explicitly: a stage takes a job and returns it with a result or an exception, also when
  it raises, since the code changes the job in place.  What is shared is a record (\<open>accounts\<close>,
  \<open>registry\<close>, \<open>server\<close>).

  \<^bold>\<open>Interfaces.\<close>  The locale \<open>blob_store\<close> states what persistence needs of a storage (what a get returns after a
  put, and that both keep the storage well formed); it is interpreted for the storage in memory and the
  one in files, a bucket satisfies it while its service is up, and \<open>JobRepo\<close> proves persistence and reload inside it.  The locale \<open>lease\<close> of theory
  \<open>Lease\<close> states what a claim with a time limit is; it is interpreted for the push of a job and for the key
  under which a request is relayed.

  \<^bold>\<open>What is shown.\<close>  Of the pipeline: every row of an upload becomes part of the document, is held or has an
  error; vouchers balance, in the model and in the document; taxes add up; the order of the document respects
  dependencies; validation, mapping and resolution mean what they promise.  Of the jobs: stages run only from
  their states and fail without a trace; a push is imported once as long as workers keep within the time
  limit, and twice otherwise; a waiting push can always be finished; a job survives the process that
  holds it.  Of the server: an organization's jobs change only through its members and the tasks they start;
  accounts stay consistent and are not taken over; an answer of a bridge reaches the request it answers and
  a request is relayed once; the limiter is equal to one that forgets nothing and bounds the tries of passwords;
  the token of a sign-up works for its owner until it expires, and only tokens that passed their check are let
  in; every process knows whether a bridge is online as long as it has one socket at a time; sections of
  one job exclude each other while the cache has room.  Of the database: the migrations lead to the tables of the
  models and back, the tables of accounts meet its constraints, and the policies agree with the filters of
  the services.  Some theorems show where the
  code falls short: a worker that is late, caches of two processes that diverge, a second upload, an
  amount that is not finite, an address that is reserved for a client, a bridge with two sockets, a cache that
  is full, an answer read back outside its tenant.

  \<^bold>\<open>Loops.\<close>  All recursions end: structural ones, the queue of the topological sort (the length of the queue and the predecessors
  that are still counted decrease together), the search for a free slug (the number of taken candidates ahead
  decreases).  No fuel is used.

  \<^bold>\<open>Parameters.\<close>  The readers of CSV and Excel files, charset detection and date parsing of the data frame
  library; the fuzzy ratio and the assignment solver (assumed to solve the assignment); the schema engine
  (assumed to report the failures of its checks); phonetic keys and string similarity; the XML printer and
  parser; the hash of passwords and keys, the token library and the keys of the provider; the client of the bucket; the order the database returns rows in; fresh
  identifiers and the clock.  Hypotheses on them state documented behaviour.

  \<^bold>\<open>Choices.\<close>  Strings are lists of code points below 256 (one letter, the micro sign, is folded differently by
  Python).  Decimals have 28 digits and no limit of the exponent; floats are rationals rounded to 53 bits.
  Tables are lists of rows with positional columns.  Messages meant for people are left out, codes are
  kept.  Time is a number of seconds.  A JSON column gives back what was stored.  An absent organization of
  a job is the text \<open>None\<close> in a storage key, as in the code.  A store in memory with a bound of zero and
  keys with \<open>..\<close> are not considered.

  \<^bold>\<open>Not modelled.\<close>  The assembly of the application from its routers, metrics and error reporting; the handlers
  of the logging library; the set-up of the database engine and the environment of the migration tool; the
  settings that only name addresses; the loading of the catalogs; the loop in which the relay listens, beyond
  which messages it hands on; the re-exports of packages; the script that writes sample data.
\<close>

end
